(* ===== verification/Prelude.thy ===== *)
theory Prelude
  imports Main "HOL-Library.Word"
begin

text \<open>
  Shared vocabulary of the mergerfs development: the widths of the machine
  integers the C++ code uses, the Linux error numbers, the \<^verbatim>\<open>for\<close> loops of the code as
  state-passing recursion, and the lemmas about those loops that the component
  theories use.
\<close>

named_theorems keeps_intros \<open>operations that keep the state of the program\<close>
named_theorems holds_intros \<open>operations that preserve an invariant of the kernel state\<close>
named_theorems fs_defs \<open>wrappers of system calls\<close>
named_theorems policy_defs \<open>definitions of the policy functions\<close>
named_theorems handler_defs \<open>definitions of the FUSE handlers\<close>

section \<open>Machine integers\<close>

text \<open>
  \<^verbatim>\<open>uint64_t\<close>, \<^verbatim>\<open>size_t\<close> and the \<^verbatim>\<open>statvfs\<close> counters are 64-bit words with wrap-around;
  \<^verbatim>\<open>time_t\<close> is a 64-bit word read with \<^const>\<open>sint\<close>; \<^verbatim>\<open>uid_t\<close>, \<^verbatim>\<open>gid_t\<close> and \<^verbatim>\<open>mode_t\<close> are
  32-bit words. Return codes and \<^verbatim>\<open>errno\<close> are small and are modelled as \<^typ>\<open>int\<close>.
\<close>

type_synonym u64 = "64 word"
type_synonym u32 = "32 word"
type_synonym time_t = "64 word"
type_synonym mode_t = "32 word"

definition U64_MAX :: u64 where
  "U64_MAX = - 1"

definition TIME_T_MIN :: time_t where
  "TIME_T_MIN = 0x8000000000000000"

lemma U64_MAX_top [simp]: "x \<le> U64_MAX"
  by (simp add: U64_MAX_def)

lemma sint_TIME_T_MIN: "sint TIME_T_MIN = - (2 ^ 63)"
  by (simp add: TIME_T_MIN_def)

lemma TIME_T_MIN_le [simp]: "sint TIME_T_MIN \<le> sint (t :: time_t)"
  using sint_ge [of t] by (simp add: sint_TIME_T_MIN)

lemma not_less_TIME_T_MIN [simp]: "\<not> sint (t :: time_t) < sint TIME_T_MIN"
  by (simp add: not_less)

section \<open>Error numbers\<close>

abbreviation EPERM :: int where "EPERM \<equiv> 1"
abbreviation ENOENT :: int where "ENOENT \<equiv> 2"
abbreviation EINTR :: int where "EINTR \<equiv> 4"
abbreviation EIO :: int where "EIO \<equiv> 5"
abbreviation ENOMEM :: int where "ENOMEM \<equiv> 12"
abbreviation EEXIST :: int where "EEXIST \<equiv> 17"
abbreviation EXDEV :: int where "EXDEV \<equiv> 18"
abbreviation ENOTDIR :: int where "ENOTDIR \<equiv> 20"
abbreviation EINVAL :: int where "EINVAL \<equiv> 22"
abbreviation ENOTTY :: int where "ENOTTY \<equiv> 25"
abbreviation ENOSPC :: int where "ENOSPC \<equiv> 28"
abbreviation EROFS :: int where "EROFS \<equiv> 30"
abbreviation ERANGE :: int where "ERANGE \<equiv> 34"
abbreviation ENOSYS :: int where "ENOSYS \<equiv> 38"
abbreviation ENODATA :: int where "ENODATA \<equiv> 61"
abbreviation ENOATTR :: int where "ENOATTR \<equiv> ENODATA"
abbreviation EOPNOTSUPP :: int where "EOPNOTSUPP \<equiv> 95"
abbreviation ENOTSUP :: int where "ENOTSUP \<equiv> EOPNOTSUPP"
abbreviation EDQUOT :: int where "EDQUOT \<equiv> 122"

section \<open>Loops\<close>

text \<open>
  A \<^verbatim>\<open>for\<close> loop over a vector. The loop variables that live across iterations are the
  accumulator, the program state is threaded; \<^verbatim>\<open>continue\<close> is returning the
  accumulator. In \<open>for_until\<close> the body may also \<^verbatim>\<open>return\<close> from the enclosing function (\<open>Inr\<close>).
\<close>

fun for_each :: "('b \<Rightarrow> 'a \<Rightarrow> 's \<Rightarrow> 'a \<times> 's) \<Rightarrow> 'b list \<Rightarrow> 'a \<Rightarrow> 's \<Rightarrow> 'a \<times> 's" where
  "for_each f [] a s = (a, s)"
| "for_each f (b # bs) a s = (case f b a s of (a', s') \<Rightarrow> for_each f bs a' s')"

fun for_until ::
  "('b \<Rightarrow> 'a \<Rightarrow> 's \<Rightarrow> ('a + 'r) \<times> 's) \<Rightarrow> 'b list \<Rightarrow> 'a \<Rightarrow> 's \<Rightarrow> ('a + 'r) \<times> 's" where
  "for_until f [] a s = (Inl a, s)"
| "for_until f (b # bs) a s =
     (case f b a s of
        (Inl a', s') \<Rightarrow> for_until f bs a' s'
      | (Inr r, s') \<Rightarrow> (Inr r, s'))"

text \<open>Invariants of loops: of the state alone, and of the accumulator and the state.\<close>

lemma for_each_inv:
  assumes step: "\<And>b a s. b \<in> set bs \<Longrightarrow> I a s \<Longrightarrow> (case f b a s of (a', s') \<Rightarrow> I a' s')"
    and init: "I a s"
  shows "case for_each f bs a s of (a', s') \<Rightarrow> I a' s'"
  using assms
proof (induction bs arbitrary: a s)
  case Nil
  then show ?case by simp
next
  case (Cons b bs)
  obtain a1 s1 where f: "f b a s = (a1, s1)" by fastforce
  have "I a1 s1" using Cons.prems(1) [of b a s] Cons.prems(2) f by simp
  then show ?case using Cons.IH [of a1 s1] Cons.prems(1) f by simp
qed

lemma for_each_append:
  "for_each f (bs @ cs) a s = (case for_each f bs a s of (a', s') \<Rightarrow> for_each f cs a' s')"
  by (induction bs arbitrary: a s) (auto split: prod.splits)

section \<open>Lists\<close>

lemma takeWhile_neq_sep [simp]: "d \<notin> set x \<Longrightarrow> takeWhile (\<lambda>c. c \<noteq> d) (x @ d # r) = x"
  by (induction x) auto

lemma dropWhile_neq_sep [simp]: "d \<notin> set x \<Longrightarrow> dropWhile (\<lambda>c. c \<noteq> d) (x @ d # r) = d # r"
  by (induction x) auto

lemma takeWhile_neq_all [simp]: "d \<notin> set x \<Longrightarrow> takeWhile (\<lambda>c. c \<noteq> d) x = x"
  by (induction x) auto

lemma dropWhile_neq_all [simp]: "d \<notin> set x \<Longrightarrow> dropWhile (\<lambda>c. c \<noteq> d) x = []"
  by (induction x) auto

section \<open>Words\<close>

lemma word_high_bits:
  fixes x :: "'a::len word"
  assumes "unat x < 2 ^ k" "k \<le> n"
  shows "\<not> bit x n"
proof -
  have "take_bit k (unat x) = unat x" using assms(1) by (simp add: take_bit_nat_eq_self_iff)
  then have "\<not> bit (unat x) n" using assms(2) by (metis bit_take_bit_iff linorder_not_less)
  then show ?thesis using bit_imp_le_length [of x n] by (auto simp: bit_unsigned_iff)
qed

end
