(* ===== verification/Machine.thy ===== *)
theory Machine
  imports Prelude
begin

text \<open>
  The boundary of the model. The Linux kernel and the C library calls that depend
  on it are not part of the repository: they are the fields of the record \<open>os\<close>, a parameter of
  every definition that reaches them, over an opaque kernel state \<open>'w\<close>. A call that
  only reads is a function of the kernel state, a call that may change it returns the new state. An
  error is \<open>Inl e\<close> with \<open>e\<close> the error number.

  The process state \<open>sys\<close> holds the kernel state and the variables of the program that outlive a
  call: \<^verbatim>\<open>errno\<close>, the statvfs cache of \<^verbatim>\<open>fs_statvfs_cache.cpp\<close> and the thread
  credentials of \<^verbatim>\<open>ugid_linux.hpp\<close> with the group cache of \<^verbatim>\<open>gidcache.hpp\<close>. One
  thread is modelled; nothing else changes the kernel state between two of its calls.
\<close>

section \<open>Structures of the system interface\<close>

record timespec =
  tv_sec :: time_t
  tv_nsec :: "64 word"

record stat =
  st_dev :: u64
  st_ino :: u64
  st_mode :: mode_t
  st_nlink :: u64
  st_uid :: u32
  st_gid :: u32
  st_rdev :: u64
  st_size :: "64 word"
  st_blksize :: "64 word"
  st_blocks :: "64 word"
  st_atim :: timespec
  st_mtim :: timespec
  st_ctim :: timespec

abbreviation st_mtime :: "stat \<Rightarrow> time_t" where "st_mtime st \<equiv> tv_sec (st_mtim st)"
abbreviation st_ctime :: "stat \<Rightarrow> time_t" where "st_ctime st \<equiv> tv_sec (st_ctim st)"

record statvfs =
  f_bsize :: u64
  f_frsize :: u64
  f_blocks :: u64
  f_bfree :: u64
  f_bavail :: u64
  f_files :: u64
  f_ffree :: u64
  f_favail :: u64
  f_fsid :: u64
  f_flag :: u64
  f_namemax :: u64

record dirent =
  d_name :: string
  d_ino :: u64
  d_type :: u32

section \<open>The kernel and the C library\<close>

type_synonym 'a ret = "int + 'a"

record 'w os =
  \<comment> \<open>clock, randomness, pattern matching\<close>
  k_time :: "'w \<Rightarrow> u64"
  k_rand :: "'w \<Rightarrow> nat \<times> 'w"
  k_glob :: "string \<Rightarrow> 'w \<Rightarrow> string list"
  k_realpath :: "string \<Rightarrow> 'w \<Rightarrow> string option"
  k_fnmatch :: "string \<Rightarrow> string \<Rightarrow> bool"
  \<comment> \<open>calls that read\<close>
  k_lstat :: "string \<Rightarrow> 'w \<Rightarrow> stat ret"
  k_stat :: "string \<Rightarrow> 'w \<Rightarrow> stat ret"
  k_fstat :: "int \<Rightarrow> 'w \<Rightarrow> stat ret"
  k_statvfs :: "string \<Rightarrow> 'w \<Rightarrow> statvfs ret"
  k_fstatvfs :: "int \<Rightarrow> 'w \<Rightarrow> statvfs ret"
  k_faccessat :: "string \<Rightarrow> int \<Rightarrow> 'w \<Rightarrow> unit ret"
  k_readlink :: "string \<Rightarrow> nat \<Rightarrow> 'w \<Rightarrow> string ret"
  k_lgetxattr :: "string \<Rightarrow> string \<Rightarrow> nat \<Rightarrow> 'w \<Rightarrow> string ret"
  k_llistxattr :: "string \<Rightarrow> nat \<Rightarrow> 'w \<Rightarrow> string ret"
  k_readdir :: "string \<Rightarrow> 'w \<Rightarrow> (u64 ret \<times> dirent list) ret"
  k_getfl :: "int \<Rightarrow> 'w \<Rightarrow> int ret"
  k_geteuid :: "'w \<Rightarrow> u32"
  k_getegid :: "'w \<Rightarrow> u32"
  k_getgrouplist :: "u32 \<Rightarrow> u32 \<Rightarrow> 'w \<Rightarrow> u32 list option"
  \<comment> \<open>calls that change the kernel state\<close>
  k_open :: "string \<Rightarrow> u32 \<Rightarrow> mode_t \<Rightarrow> 'w \<Rightarrow> int ret \<times> 'w"
  k_close :: "int \<Rightarrow> 'w \<Rightarrow> unit ret \<times> 'w"
  k_mkstemp :: "string \<Rightarrow> 'w \<Rightarrow> (string \<times> int) ret \<times> 'w"
  k_mkdir :: "string \<Rightarrow> mode_t \<Rightarrow> 'w \<Rightarrow> unit ret \<times> 'w"
  k_mknod :: "string \<Rightarrow> mode_t \<Rightarrow> u64 \<Rightarrow> 'w \<Rightarrow> unit ret \<times> 'w"
  k_symlink :: "string \<Rightarrow> string \<Rightarrow> 'w \<Rightarrow> unit ret \<times> 'w"
  k_link :: "string \<Rightarrow> string \<Rightarrow> 'w \<Rightarrow> unit ret \<times> 'w"
  k_rename :: "string \<Rightarrow> string \<Rightarrow> 'w \<Rightarrow> unit ret \<times> 'w"
  k_remove :: "string \<Rightarrow> 'w \<Rightarrow> unit ret \<times> 'w"
  k_unlink :: "string \<Rightarrow> 'w \<Rightarrow> unit ret \<times> 'w"
  k_rmdir :: "string \<Rightarrow> 'w \<Rightarrow> unit ret \<times> 'w"
  k_chmod :: "string \<Rightarrow> mode_t \<Rightarrow> 'w \<Rightarrow> unit ret \<times> 'w"
  k_fchmod :: "int \<Rightarrow> mode_t \<Rightarrow> 'w \<Rightarrow> unit ret \<times> 'w"
  k_lchown :: "string \<Rightarrow> u32 \<Rightarrow> u32 \<Rightarrow> 'w \<Rightarrow> unit ret \<times> 'w"
  k_fchown :: "int \<Rightarrow> u32 \<Rightarrow> u32 \<Rightarrow> 'w \<Rightarrow> unit ret \<times> 'w"
  k_truncate :: "string \<Rightarrow> 64 word \<Rightarrow> 'w \<Rightarrow> unit ret \<times> 'w"
  k_utimensat :: "string \<Rightarrow> timespec \<Rightarrow> timespec \<Rightarrow> bool \<Rightarrow> 'w \<Rightarrow> unit ret \<times> 'w"
  k_futimens :: "int \<Rightarrow> timespec \<Rightarrow> timespec \<Rightarrow> 'w \<Rightarrow> unit ret \<times> 'w"
  k_lsetxattr :: "string \<Rightarrow> string \<Rightarrow> string \<Rightarrow> u32 \<Rightarrow> 'w \<Rightarrow> unit ret \<times> 'w"
  k_lremovexattr :: "string \<Rightarrow> string \<Rightarrow> 'w \<Rightarrow> unit ret \<times> 'w"
  k_setfl :: "int \<Rightarrow> int \<Rightarrow> 'w \<Rightarrow> unit ret \<times> 'w"
  k_pwrite :: "int \<Rightarrow> string \<Rightarrow> 64 word \<Rightarrow> 'w \<Rightarrow> nat ret \<times> 'w"
  k_pread :: "int \<Rightarrow> nat \<Rightarrow> 64 word \<Rightarrow> 'w \<Rightarrow> string ret"
  k_read :: "int \<Rightarrow> nat \<Rightarrow> 'w \<Rightarrow> string ret \<times> 'w"
  k_write :: "int \<Rightarrow> string \<Rightarrow> 'w \<Rightarrow> nat ret \<times> 'w"
  k_lseek_start :: "int \<Rightarrow> 'w \<Rightarrow> unit ret \<times> 'w"
  k_ftruncate :: "int \<Rightarrow> 64 word \<Rightarrow> 'w \<Rightarrow> unit ret \<times> 'w"
  k_fallocate :: "int \<Rightarrow> u32 \<Rightarrow> 64 word \<Rightarrow> 64 word \<Rightarrow> 'w \<Rightarrow> unit ret \<times> 'w"
  k_fadvise :: "int \<Rightarrow> 64 word \<Rightarrow> 64 word \<Rightarrow> nat \<Rightarrow> 'w \<Rightarrow> unit ret \<times> 'w"
  k_fsync :: "int \<Rightarrow> 'w \<Rightarrow> unit ret \<times> 'w"
  k_fdatasync :: "int \<Rightarrow> 'w \<Rightarrow> unit ret \<times> 'w"
  k_flock :: "int \<Rightarrow> u32 \<Rightarrow> 'w \<Rightarrow> unit ret \<times> 'w"
  k_dup :: "int \<Rightarrow> 'w \<Rightarrow> int ret \<times> 'w"
  k_ioctl :: "int \<Rightarrow> u32 \<Rightarrow> string \<Rightarrow> 'w \<Rightarrow> (int \<times> string) ret \<times> 'w"
  k_ficlone :: "int \<Rightarrow> int \<Rightarrow> 'w \<Rightarrow> int ret \<times> 'w"
  k_copy_file_range :: "int \<Rightarrow> int \<Rightarrow> 64 word \<Rightarrow> 'w \<Rightarrow> int ret \<times> 'w"
  k_sendfile :: "int \<Rightarrow> int \<Rightarrow> 64 word \<Rightarrow> 'w \<Rightarrow> int ret \<times> 'w"
  k_getflags :: "int \<Rightarrow> 'w \<Rightarrow> u32 ret"
  k_setflags :: "int \<Rightarrow> u32 \<Rightarrow> 'w \<Rightarrow> unit ret \<times> 'w"
  k_flistxattr :: "int \<Rightarrow> nat \<Rightarrow> 'w \<Rightarrow> string ret"
  k_fgetxattr :: "int \<Rightarrow> string \<Rightarrow> nat \<Rightarrow> 'w \<Rightarrow> string ret"
  k_fsetxattr :: "int \<Rightarrow> string \<Rightarrow> string \<Rightarrow> u32 \<Rightarrow> 'w \<Rightarrow> unit ret \<times> 'w"
  k_setreuid :: "u32 \<Rightarrow> 'w \<Rightarrow> unit ret \<times> 'w"
  k_setregid :: "u32 \<Rightarrow> 'w \<Rightarrow> unit ret \<times> 'w"
  k_setgroups :: "u32 list \<Rightarrow> 'w \<Rightarrow> unit ret \<times> 'w"

section \<open>The process state\<close>

text \<open>
  An entry of the statvfs cache (\<^verbatim>\<open>struct Element\<close>) and of the group cache (\<^verbatim>\<open>struct gid_t_rec\<close>). Of the array in
  \<^verbatim>\<open>struct gid_t_cache\<close> the list holds the first \<^verbatim>\<open>size\<close> records; the ones after them are still
  zero, since \<^verbatim>\<open>size\<close> never decreases.
\<close>

record Element =
  el_time :: u64
  el_st :: statvfs

record gid_t_rec =
  gr_uid :: u32
  gr_size :: int
  gr_gids :: "u32 list"

record gid_t_cache =
  gc_recs :: "gid_t_rec list"

record 'w sys =
  world :: 'w
  errno :: int
  g_timeout :: u64
  g_cache :: "string \<rightharpoonup> Element"
  currentuid :: u32
  currentgid :: u32
  initialized :: bool
  gidcache :: gid_t_cache

section \<open>System calls as the code sees them\<close>

text \<open>
  A call returns \<open>-1\<close> and sets \<^verbatim>\<open>errno\<close> on failure. A call with an out parameter
  returns \<open>None\<close> for \<open>-1\<close> and \<open>Some v\<close> for \<open>0\<close> with the parameter filled with \<open>v\<close>.
\<close>

definition sys_unit :: "unit ret \<times> 'w \<Rightarrow> 'w sys \<Rightarrow> int \<times> 'w sys" where
  "sys_unit r s =
     (case r of
        (Inl e, w) \<Rightarrow> (- 1, s\<lparr>errno := e, world := w\<rparr>)
      | (Inr _, w) \<Rightarrow> (0, s\<lparr>world := w\<rparr>))"

definition sys_fd :: "int ret \<times> 'w \<Rightarrow> 'w sys \<Rightarrow> int \<times> 'w sys" where
  "sys_fd r s =
     (case r of
        (Inl e, w) \<Rightarrow> (- 1, s\<lparr>errno := e, world := w\<rparr>)
      | (Inr fd, w) \<Rightarrow> (fd, s\<lparr>world := w\<rparr>))"

definition sys_val :: "'a ret \<Rightarrow> 'w sys \<Rightarrow> 'a option \<times> 'w sys" where
  "sys_val r s =
     (case r of
        Inl e \<Rightarrow> (None, s\<lparr>errno := e\<rparr>)
      | Inr v \<Rightarrow> (Some v, s))"

definition sys_ret :: "'a ret \<times> 'w \<Rightarrow> 'w sys \<Rightarrow> 'a option \<times> 'w sys" where
  "sys_ret r s =
     (case r of
        (Inl e, w) \<Rightarrow> (None, s\<lparr>errno := e, world := w\<rparr>)
      | (Inr v, w) \<Rightarrow> (Some v, s\<lparr>world := w\<rparr>))"

definition fail_with :: "int \<Rightarrow> 'w sys \<Rightarrow> int \<times> 'w sys" where
  "fail_with e s = (- 1, s\<lparr>errno := e\<rparr>)"

definition fs_lstat :: "'w os \<Rightarrow> string \<Rightarrow> 'w sys \<Rightarrow> stat option \<times> 'w sys" where
  [fs_defs]: "fs_lstat os path s = sys_val (k_lstat os path (world s)) s"

definition fs_stat :: "'w os \<Rightarrow> string \<Rightarrow> 'w sys \<Rightarrow> stat option \<times> 'w sys" where
  [fs_defs]: "fs_stat os path s = sys_val (k_stat os path (world s)) s"

definition fs_fstat :: "'w os \<Rightarrow> int \<Rightarrow> 'w sys \<Rightarrow> stat option \<times> 'w sys" where
  [fs_defs]: "fs_fstat os fd s = sys_val (k_fstat os fd (world s)) s"

definition fs_statvfs :: "'w os \<Rightarrow> string \<Rightarrow> 'w sys \<Rightarrow> statvfs option \<times> 'w sys" where
  [fs_defs]: "fs_statvfs os path s = sys_val (k_statvfs os path (world s)) s"

definition fs_open :: "'w os \<Rightarrow> string \<Rightarrow> u32 \<Rightarrow> mode_t \<Rightarrow> 'w sys \<Rightarrow> int \<times> 'w sys" where
  [fs_defs]: "fs_open os path flags mode s = sys_fd (k_open os path flags mode (world s)) s"

definition fs_close :: "'w os \<Rightarrow> int \<Rightarrow> 'w sys \<Rightarrow> int \<times> 'w sys" where
  [fs_defs]: "fs_close os fd s = sys_unit (k_close os fd (world s)) s"

definition fs_eaccess :: "'w os \<Rightarrow> string \<Rightarrow> int \<Rightarrow> 'w sys \<Rightarrow> int \<times> 'w sys" where
  [fs_defs]: "fs_eaccess os path mode s =
     sys_unit (k_faccessat os path mode (world s), world s) s"

definition fs_mkdir :: "'w os \<Rightarrow> string \<Rightarrow> mode_t \<Rightarrow> 'w sys \<Rightarrow> int \<times> 'w sys" where
  [fs_defs]: "fs_mkdir os path mode s = sys_unit (k_mkdir os path mode (world s)) s"

definition fs_mknod :: "'w os \<Rightarrow> string \<Rightarrow> mode_t \<Rightarrow> u64 \<Rightarrow> 'w sys \<Rightarrow> int \<times> 'w sys" where
  [fs_defs]: "fs_mknod os path mode dev s = sys_unit (k_mknod os path mode dev (world s)) s"

definition fs_symlink :: "'w os \<Rightarrow> string \<Rightarrow> string \<Rightarrow> 'w sys \<Rightarrow> int \<times> 'w sys" where
  [fs_defs]: "fs_symlink os oldpath newpath s = sys_unit (k_symlink os oldpath newpath (world s)) s"

definition fs_link :: "'w os \<Rightarrow> string \<Rightarrow> string \<Rightarrow> 'w sys \<Rightarrow> int \<times> 'w sys" where
  [fs_defs]: "fs_link os oldpath newpath s = sys_unit (k_link os oldpath newpath (world s)) s"

definition fs_rename :: "'w os \<Rightarrow> string \<Rightarrow> string \<Rightarrow> 'w sys \<Rightarrow> int \<times> 'w sys" where
  [fs_defs]: "fs_rename os oldpath newpath s = sys_unit (k_rename os oldpath newpath (world s)) s"

definition fs_remove :: "'w os \<Rightarrow> string \<Rightarrow> 'w sys \<Rightarrow> int \<times> 'w sys" where
  [fs_defs]: "fs_remove os pathname s = sys_unit (k_remove os pathname (world s)) s"

definition fs_unlink :: "'w os \<Rightarrow> string \<Rightarrow> 'w sys \<Rightarrow> int \<times> 'w sys" where
  [fs_defs]: "fs_unlink os path s = sys_unit (k_unlink os path (world s)) s"

definition fs_rmdir :: "'w os \<Rightarrow> string \<Rightarrow> 'w sys \<Rightarrow> int \<times> 'w sys" where
  [fs_defs]: "fs_rmdir os path s = sys_unit (k_rmdir os path (world s)) s"

definition fs_chmod :: "'w os \<Rightarrow> string \<Rightarrow> mode_t \<Rightarrow> 'w sys \<Rightarrow> int \<times> 'w sys" where
  [fs_defs]: "fs_chmod os path mode s = sys_unit (k_chmod os path mode (world s)) s"

definition fs_lchown :: "'w os \<Rightarrow> string \<Rightarrow> u32 \<Rightarrow> u32 \<Rightarrow> 'w sys \<Rightarrow> int \<times> 'w sys" where
  [fs_defs]: "fs_lchown os path uid gid s = sys_unit (k_lchown os path uid gid (world s)) s"

definition fs_truncate :: "'w os \<Rightarrow> string \<Rightarrow> 64 word \<Rightarrow> 'w sys \<Rightarrow> int \<times> 'w sys" where
  [fs_defs]: "fs_truncate os path len s = sys_unit (k_truncate os path len (world s)) s"

definition fs_lutime :: "'w os \<Rightarrow> string \<Rightarrow> timespec \<times> timespec \<Rightarrow> 'w sys \<Rightarrow> int \<times> 'w sys" where
  [fs_defs]: "fs_lutime os path ts s =
     sys_unit (k_utimensat os path (fst ts) (snd ts) True (world s)) s"

definition fs_utime :: "'w os \<Rightarrow> string \<Rightarrow> stat \<Rightarrow> 'w sys \<Rightarrow> int \<times> 'w sys" where
  [fs_defs]: "fs_utime os path st s =
     sys_unit (k_utimensat os path (st_atim st) (st_mtim st) False (world s)) s"

definition fs_lsetxattr :: "'w os \<Rightarrow> string \<Rightarrow> string \<Rightarrow> string \<Rightarrow> u32 \<Rightarrow> 'w sys \<Rightarrow> int \<times> 'w sys" where
  [fs_defs]: "fs_lsetxattr os path name value flags s =
     sys_unit (k_lsetxattr os path name value flags (world s)) s"

definition fs_lremovexattr :: "'w os \<Rightarrow> string \<Rightarrow> string \<Rightarrow> 'w sys \<Rightarrow> int \<times> 'w sys" where
  [fs_defs]: "fs_lremovexattr os path attrname s =
     sys_unit (k_lremovexattr os path attrname (world s)) s"

definition fs_lgetxattr :: "'w os \<Rightarrow> string \<Rightarrow> string \<Rightarrow> nat \<Rightarrow> 'w sys \<Rightarrow> string option \<times> 'w sys" where
  [fs_defs]: "fs_lgetxattr os path attrname count s =
     sys_val (k_lgetxattr os path attrname count (world s)) s"

definition fs_llistxattr :: "'w os \<Rightarrow> string \<Rightarrow> nat \<Rightarrow> 'w sys \<Rightarrow> string option \<times> 'w sys" where
  [fs_defs]: "fs_llistxattr os path count s = sys_val (k_llistxattr os path count (world s)) s"

definition fs_readlink :: "'w os \<Rightarrow> string \<Rightarrow> nat \<Rightarrow> 'w sys \<Rightarrow> string option \<times> 'w sys" where
  [fs_defs]: "fs_readlink os path count s = sys_val (k_readlink os path count (world s)) s"

definition fs_read :: "'w os \<Rightarrow> int \<Rightarrow> nat \<Rightarrow> 'w sys \<Rightarrow> string option \<times> 'w sys" where
  [fs_defs]: "fs_read os fd count s = sys_ret (k_read os fd count (world s)) s"

definition fs_pread :: "'w os \<Rightarrow> int \<Rightarrow> nat \<Rightarrow> 64 word \<Rightarrow> 'w sys \<Rightarrow> string option \<times> 'w sys" where
  [fs_defs]: "fs_pread os fd count offset s = sys_val (k_pread os fd count offset (world s)) s"

definition fs_write :: "'w os \<Rightarrow> int \<Rightarrow> string \<Rightarrow> 'w sys \<Rightarrow> nat option \<times> 'w sys" where
  [fs_defs]: "fs_write os fd buf s = sys_ret (k_write os fd buf (world s)) s"

definition fs_pwrite :: "'w os \<Rightarrow> int \<Rightarrow> string \<Rightarrow> 64 word \<Rightarrow> 'w sys \<Rightarrow> nat option \<times> 'w sys" where
  [fs_defs]: "fs_pwrite os fd buf offset s = sys_ret (k_pwrite os fd buf offset (world s)) s"

definition fs_lseek_start :: "'w os \<Rightarrow> int \<Rightarrow> 'w sys \<Rightarrow> int \<times> 'w sys" where
  [fs_defs]: "fs_lseek_start os fd s = sys_unit (k_lseek_start os fd (world s)) s"

definition fs_ftruncate :: "'w os \<Rightarrow> int \<Rightarrow> 64 word \<Rightarrow> 'w sys \<Rightarrow> int \<times> 'w sys" where
  [fs_defs]: "fs_ftruncate os fd len s = sys_unit (k_ftruncate os fd len (world s)) s"

definition fs_fallocate :: "'w os \<Rightarrow> int \<Rightarrow> u32 \<Rightarrow> 64 word \<Rightarrow> 64 word \<Rightarrow> 'w sys \<Rightarrow> int \<times> 'w sys" where
  [fs_defs]: "fs_fallocate os fd mode offset len s = sys_unit (k_fallocate os fd mode offset len (world s)) s"

text \<open>\<^verbatim>\<open>posix_fadvise(2)\<close> returns the error number and leaves \<^verbatim>\<open>errno\<close> as it is.\<close>

definition fs_fadvise :: "'w os \<Rightarrow> int \<Rightarrow> 64 word \<Rightarrow> 64 word \<Rightarrow> nat \<Rightarrow> 'w sys \<Rightarrow> int \<times> 'w sys" where
  "fs_fadvise os fd offset len advice s =
     (case k_fadvise os fd offset len advice (world s) of
        (Inl e, w) \<Rightarrow> (e, s\<lparr>world := w\<rparr>)
      | (Inr _, w) \<Rightarrow> (0, s\<lparr>world := w\<rparr>))"

definition fs_fsync :: "'w os \<Rightarrow> int \<Rightarrow> 'w sys \<Rightarrow> int \<times> 'w sys" where
  [fs_defs]: "fs_fsync os fd s = sys_unit (k_fsync os fd (world s)) s"

definition fs_fdatasync :: "'w os \<Rightarrow> int \<Rightarrow> 'w sys \<Rightarrow> int \<times> 'w sys" where
  [fs_defs]: "fs_fdatasync os fd s = sys_unit (k_fdatasync os fd (world s)) s"

definition fs_flock :: "'w os \<Rightarrow> int \<Rightarrow> u32 \<Rightarrow> 'w sys \<Rightarrow> int \<times> 'w sys" where
  [fs_defs]: "fs_flock os fd operation s = sys_unit (k_flock os fd operation (world s)) s"

definition fs_dup :: "'w os \<Rightarrow> int \<Rightarrow> 'w sys \<Rightarrow> int \<times> 'w sys" where
  [fs_defs]: "fs_dup os fd s = sys_fd (k_dup os fd (world s)) s"

definition fs_ioctl :: "'w os \<Rightarrow> int \<Rightarrow> u32 \<Rightarrow> string \<Rightarrow> 'w sys \<Rightarrow> (int \<times> string) option \<times> 'w sys" where
  [fs_defs]: "fs_ioctl os fd request data s = sys_ret (k_ioctl os fd request data (world s)) s"

definition fs_ficlone :: "'w os \<Rightarrow> int \<Rightarrow> int \<Rightarrow> 'w sys \<Rightarrow> int \<times> 'w sys" where
  [fs_defs]: "fs_ficlone os src_fd dst_fd s = sys_fd (k_ficlone os src_fd dst_fd (world s)) s"

definition fs_copy_file_range :: "'w os \<Rightarrow> int \<Rightarrow> int \<Rightarrow> 64 word \<Rightarrow> 'w sys \<Rightarrow> int \<times> 'w sys" where
  [fs_defs]: "fs_copy_file_range os fd_in fd_out len s =
     sys_fd (k_copy_file_range os fd_in fd_out len (world s)) s"

definition fs_sendfile :: "'w os \<Rightarrow> int \<Rightarrow> int \<Rightarrow> 64 word \<Rightarrow> 'w sys \<Rightarrow> int \<times> 'w sys" where
  [fs_defs]: "fs_sendfile os fdin fdout count s = sys_fd (k_sendfile os fdin fdout count (world s)) s"

definition fs_flistxattr :: "'w os \<Rightarrow> int \<Rightarrow> nat \<Rightarrow> 'w sys \<Rightarrow> string option \<times> 'w sys" where
  [fs_defs]: "fs_flistxattr os fd count s = sys_val (k_flistxattr os fd count (world s)) s"

definition fs_fgetxattr :: "'w os \<Rightarrow> int \<Rightarrow> string \<Rightarrow> nat \<Rightarrow> 'w sys \<Rightarrow> string option \<times> 'w sys" where
  [fs_defs]: "fs_fgetxattr os fd attrname count s = sys_val (k_fgetxattr os fd attrname count (world s)) s"

definition fs_fsetxattr :: "'w os \<Rightarrow> int \<Rightarrow> string \<Rightarrow> string \<Rightarrow> u32 \<Rightarrow> 'w sys \<Rightarrow> int \<times> 'w sys" where
  [fs_defs]: "fs_fsetxattr os fd name value flags s = sys_unit (k_fsetxattr os fd name value flags (world s)) s"

definition fs_mkstemp :: "'w os \<Rightarrow> string \<Rightarrow> 'w sys \<Rightarrow> (string \<times> int) option \<times> 'w sys" where
  [fs_defs]: "fs_mkstemp os filepath s = sys_ret (k_mkstemp os (filepath @ ''.XXXXXX'') (world s)) s"

definition fs_fchmod :: "'w os \<Rightarrow> int \<Rightarrow> mode_t \<Rightarrow> 'w sys \<Rightarrow> int \<times> 'w sys" where
  [fs_defs]: "fs_fchmod os fd mode s = sys_unit (k_fchmod os fd mode (world s)) s"

definition fs_fchown :: "'w os \<Rightarrow> int \<Rightarrow> u32 \<Rightarrow> u32 \<Rightarrow> 'w sys \<Rightarrow> int \<times> 'w sys" where
  [fs_defs]: "fs_fchown os fd uid gid s = sys_unit (k_fchown os fd uid gid (world s)) s"

definition fs_futime :: "'w os \<Rightarrow> int \<Rightarrow> stat \<Rightarrow> 'w sys \<Rightarrow> int \<times> 'w sys" where
  [fs_defs]: "fs_futime os fd st s = sys_unit (k_futimens os fd (st_atim st) (st_mtim st) (world s)) s"

definition fs_futimens :: "'w os \<Rightarrow> int \<Rightarrow> timespec \<times> timespec \<Rightarrow> 'w sys \<Rightarrow> int \<times> 'w sys" where
  [fs_defs]: "fs_futimens os fd ts s = sys_unit (k_futimens os fd (fst ts) (snd ts) (world s)) s"

definition fs_getfl :: "'w os \<Rightarrow> int \<Rightarrow> 'w sys \<Rightarrow> int \<times> 'w sys" where
  [fs_defs]: "fs_getfl os fd s = sys_fd (k_getfl os fd (world s), world s) s"

definition fs_setfl :: "'w os \<Rightarrow> int \<Rightarrow> int \<Rightarrow> 'w sys \<Rightarrow> int \<times> 'w sys" where
  [fs_defs]: "fs_setfl os fd mode s = sys_unit (k_setfl os fd mode (world s)) s"

section \<open>What a call leaves alone\<close>

text \<open>The return code of a call is \<open>0\<close> or \<open>-1\<close>.\<close>

definition is_rc :: "int \<Rightarrow> bool" where
  "is_rc rv \<longleftrightarrow> rv = 0 \<or> rv = - 1"

lemma sys_unit_rc: "is_rc (fst (sys_unit r s))"
  by (cases r) (auto simp: sys_unit_def is_rc_def split: sum.splits)

lemma sys_unit_cases:
  obtains (ok) w where "r = (Inr (), w)" "sys_unit r s = (0, s\<lparr>world := w\<rparr>)"
  | (err) e w where "r = (Inl e, w)" "sys_unit r s = (- 1, s\<lparr>errno := e, world := w\<rparr>)"
  by (cases r; cases "fst r") (auto simp: sys_unit_def)

text \<open>
  A call changes the kernel state and \<^verbatim>\<open>errno\<close> only: the caches and the identity kept by the program stay.
\<close>

definition keeps :: "'w sys \<Rightarrow> 'w sys \<Rightarrow> bool" where
  "keeps s t \<longleftrightarrow>
     g_timeout t = g_timeout s \<and> g_cache t = g_cache s \<and> currentuid t = currentuid s
     \<and> currentgid t = currentgid s \<and> initialized t = initialized s \<and> gidcache t = gidcache s"

lemma keeps_refl [simp]: "keeps s s"
  by (simp add: keeps_def)

lemma keeps_trans [trans]: "keeps s t \<Longrightarrow> keeps t u \<Longrightarrow> keeps s u"
  by (simp add: keeps_def)

lemma keeps_update [simp]:
  "keeps s (t\<lparr>errno := e\<rparr>) = keeps s t" "keeps s (t\<lparr>world := w\<rparr>) = keeps s t"
  "keeps (s\<lparr>errno := e\<rparr>) t = keeps s t" "keeps (s\<lparr>world := w\<rparr>) t = keeps s t"
  by (simp_all add: keeps_def)

text \<open>
  Rules that follow the structure of a definition: the collection \<open>keeps_intros\<close> proves that an operation
  built from calls keeps the state of the program.
\<close>

lemma keeps_calls [keeps_intros]:
  "keeps s t \<Longrightarrow> keeps s (snd (sys_unit r t))" "keeps s t \<Longrightarrow> keeps s (snd (sys_fd q t))"
  "keeps s t \<Longrightarrow> keeps s (snd (sys_val v t))" "keeps s t \<Longrightarrow> keeps s (snd (sys_ret u t))"
  "keeps s t \<Longrightarrow> keeps s (snd (fail_with e t))"
  by (auto simp: keeps_def sys_unit_def sys_fd_def sys_val_def sys_ret_def fail_with_def
      split: prod.splits sum.splits)

lemma keeps_pair [keeps_intros]: "keeps s t \<Longrightarrow> keeps s (snd (x, t))"
  by simp

lemma keeps_bind [keeps_intros]:
  "keeps s (snd c) \<Longrightarrow> (\<And>x t. keeps s t \<Longrightarrow> keeps s (snd (f x t))) \<Longrightarrow> keeps s (snd (case c of (x, t) \<Rightarrow> f x t))"
  by (cases c) simp

lemma keeps_if [keeps_intros]:
  "(b \<Longrightarrow> keeps s (snd x)) \<Longrightarrow> (\<not> b \<Longrightarrow> keeps s (snd y)) \<Longrightarrow> keeps s (snd (if b then x else y))"
  by simp

lemma keeps_option [keeps_intros]:
  "(x = None \<Longrightarrow> keeps s (snd a)) \<Longrightarrow> (\<And>v. x = Some v \<Longrightarrow> keeps s (snd (f v))) \<Longrightarrow>
   keeps s (snd (case x of None \<Rightarrow> a | Some v \<Rightarrow> f v))"
  by (cases x) simp_all

lemma keeps_sum [keeps_intros]:
  "(\<And>v. x = Inl v \<Longrightarrow> keeps s (snd (f v))) \<Longrightarrow> (\<And>v. x = Inr v \<Longrightarrow> keeps s (snd (g v))) \<Longrightarrow>
   keeps s (snd (case x of Inl v \<Rightarrow> f v | Inr v \<Rightarrow> g v))"
  by (cases x) simp_all

lemma keeps_for_each [keeps_intros]:
  assumes "keeps s t" and "\<And>b a u. keeps s u \<Longrightarrow> keeps s (snd (f b a u))"
  shows "keeps s (snd (for_each f bs a t))"
  using assms(1)
proof (induction bs arbitrary: a t)
  case (Cons b bs)
  then show ?case using assms(2) [of t b a] by (auto split: prod.splits)
qed simp

lemma keeps_for_until [keeps_intros]:
  assumes "keeps s t" and "\<And>b a u. keeps s u \<Longrightarrow> keeps s (snd (f b a u))"
  shows "keeps s (snd (for_until f bs a t))"
  using assms(1)
proof (induction bs arbitrary: a t)
  case (Cons b bs)
  then show ?case using assms(2) [of t b a] by (auto split: prod.splits sum.splits)
qed simp

lemma sys_val_frame [simp]:
  "world (snd (sys_val r s)) = world s"
  "g_timeout (snd (sys_val r s)) = g_timeout s"
  "g_cache (snd (sys_val r s)) = g_cache s"
  by (auto simp: sys_val_def split: sum.splits)

section \<open>Invariants of the kernel state\<close>

text \<open>\<open>holds Q\<close> lifts a predicate of the kernel state; \<open>holds_intros\<close> follows the structure of a definition.\<close>

definition holds :: "('w \<Rightarrow> bool) \<Rightarrow> 'w sys \<Rightarrow> bool" where
  "holds Q s \<longleftrightarrow> Q (world s)"

lemma holds_update [simp]:
  "holds Q (s\<lparr>errno := e\<rparr>) = holds Q s" "holds Q (s\<lparr>world := w\<rparr>) = Q w"
  "holds Q (s\<lparr>currentuid := u\<rparr>) = holds Q s" "holds Q (s\<lparr>currentgid := u\<rparr>) = holds Q s"
  "holds Q (s\<lparr>initialized := b\<rparr>) = holds Q s" "holds Q (s\<lparr>gidcache := g\<rparr>) = holds Q s"
  by (simp_all add: holds_def)

lemma holds_calls [holds_intros]:
  "Q (snd r) \<Longrightarrow> holds Q (snd (sys_unit r t))" "Q (snd q) \<Longrightarrow> holds Q (snd (sys_fd q t))"
  "holds Q t \<Longrightarrow> holds Q (snd (sys_val v t))" "Q (snd u) \<Longrightarrow> holds Q (snd (sys_ret u t))"
  "holds Q t \<Longrightarrow> holds Q (snd (fail_with e t))"
  by (auto simp: holds_def sys_unit_def sys_fd_def sys_val_def sys_ret_def fail_with_def
      split: prod.splits sum.splits)

lemma holds_fadvise [holds_intros]:
  "Q (snd (k_fadvise os fd a b c (world t))) \<Longrightarrow> holds Q (snd (fs_fadvise os fd a b c t))"
  by (auto simp: holds_def fs_fadvise_def split: prod.splits sum.splits)

lemma holds_pair [holds_intros]: "holds Q t \<Longrightarrow> holds Q (snd (x, t))"
  by simp

lemma holds_bind [holds_intros]:
  "holds Q (snd c) \<Longrightarrow> (\<And>x t. holds Q t \<Longrightarrow> holds Q (snd (f x t))) \<Longrightarrow> holds Q (snd (case c of (x, t) \<Rightarrow> f x t))"
  by (cases c) simp

lemma holds_if [holds_intros]:
  "(b \<Longrightarrow> holds Q (snd x)) \<Longrightarrow> (\<not> b \<Longrightarrow> holds Q (snd y)) \<Longrightarrow> holds Q (snd (if b then x else y))"
  by simp

lemma holds_option [holds_intros]:
  "(x = None \<Longrightarrow> holds Q (snd a)) \<Longrightarrow> (\<And>v. x = Some v \<Longrightarrow> holds Q (snd (f v))) \<Longrightarrow>
   holds Q (snd (case x of None \<Rightarrow> a | Some v \<Rightarrow> f v))"
  by (cases x) simp_all

lemma holds_sum [holds_intros]:
  "(\<And>v. x = Inl v \<Longrightarrow> holds Q (snd (f v))) \<Longrightarrow> (\<And>v. x = Inr v \<Longrightarrow> holds Q (snd (g v))) \<Longrightarrow>
   holds Q (snd (case x of Inl v \<Rightarrow> f v | Inr v \<Rightarrow> g v))"
  by (cases x) simp_all

lemma holds_for_each [holds_intros]:
  assumes "holds Q t" and "\<And>b a u. holds Q u \<Longrightarrow> holds Q (snd (f b a u))"
  shows "holds Q (snd (for_each f bs a t))"
  using assms(1)
proof (induction bs arbitrary: a t)
  case (Cons b bs)
  then show ?case using assms(2) [of t b a] by (auto split: prod.splits)
qed simp

lemma holds_for_until [holds_intros]:
  assumes "holds Q t" and "\<And>b a u. holds Q u \<Longrightarrow> holds Q (snd (f b a u))"
  shows "holds Q (snd (for_until f bs a t))"
  using assms(1)
proof (induction bs arbitrary: a t)
  case (Cons b bs)
  then show ?case using assms(2) [of t b a] by (auto split: prod.splits sum.splits)
qed simp

end
