(* ===== verification/Str_Util.thy ===== *)
theory Str_Util
  imports Prelude "HOL-Library.Sublist"
begin

text \<open>
  The string helpers: \<^verbatim>\<open>str.cpp\<close> (splitting, joining, common prefixes), \<^verbatim>\<open>fs_path.cpp\<close> and
  \<^verbatim>\<open>fs_path.hpp\<close> (\<^verbatim>\<open>dirname\<close>, \<^verbatim>\<open>basename\<close>, \<^verbatim>\<open>make\<close>) and \<^verbatim>\<open>num.cpp\<close> (numbers with a unit suffix). A
  \<^verbatim>\<open>std::string\<close> is a \<^typ>\<open>string\<close> that may contain NUL; \<open>c_str\<close> is what a C function sees of
  it. \<^verbatim>\<open>string::npos\<close> is \<open>None\<close>, and an exception of \<^verbatim>\<open>substr\<close> is \<open>None\<close>.
\<close>

abbreviation NUL :: char where "NUL \<equiv> CHR 0x00"

definition c_str :: "string \<Rightarrow> string" where
  "c_str s = takeWhile (\<lambda>c. c \<noteq> NUL) s"

lemma c_str_id: "NUL \<notin> set s \<Longrightarrow> c_str s = s"
  by (auto simp: c_str_def takeWhile_eq_all_conv)

section \<open>Splitting and joining\<close>

text \<open>
  \<^verbatim>\<open>while(std::getline(ss,part,delimiter))\<close>: a call takes the characters up to the next
  delimiter, which it drops, and fails only at the end of the input. So an input ending in a
  delimiter does not give an empty last part.
\<close>

function getlines :: "char \<Rightarrow> string \<Rightarrow> string list" where
  "getlines delimiter str =
     (if str = [] then []
      else takeWhile (\<lambda>c. c \<noteq> delimiter) str
           # getlines delimiter (drop 1 (dropWhile (\<lambda>c. c \<noteq> delimiter) str)))"
  by pat_completeness auto
termination
proof (relation "measure (\<lambda>(d, str). length str)", goal_cases)
  case 1
  show ?case by simp
next
  case (2 d str)
  have "length (dropWhile (\<lambda>c. c \<noteq> d) str) \<le> length str" by (rule length_dropWhile_le)
  moreover have "dropWhile (\<lambda>c. c \<noteq> d) str \<noteq> [] \<or> str \<noteq> []" using 2 by simp
  ultimately show ?case using 2 by (cases "dropWhile (\<lambda>c. c \<noteq> d) str") auto
qed

declare getlines.simps [simp del]

definition split :: "string list \<Rightarrow> string \<Rightarrow> char \<Rightarrow> string list" where
  "split result str delimiter = result @ getlines delimiter (c_str str)"

definition substr :: "string \<Rightarrow> nat \<Rightarrow> string option" where
  "substr s pos = (if pos > length s then None else Some (drop pos s))"

fun join_rest :: "string \<Rightarrow> string list \<Rightarrow> nat \<Rightarrow> char \<Rightarrow> string option" where
  "join_rest rv [] substridx sep = Some rv"
| "join_rest rv (v # vec) substridx sep =
     (case substr v substridx of
        None \<Rightarrow> None
      | Some t \<Rightarrow> join_rest (rv @ sep # t) vec substridx sep)"

definition join_from :: "string list \<Rightarrow> nat \<Rightarrow> char \<Rightarrow> string option" where
  "join_from vec substridx sep =
     (case vec of
        [] \<Rightarrow> Some []
      | v # vs \<Rightarrow>
          (case substr v substridx of
             None \<Rightarrow> None
           | Some rv \<Rightarrow> join_rest rv vs substridx sep))"

definition join :: "string list \<Rightarrow> char \<Rightarrow> string option" where
  "join vec sep = join_from vec 0 sep"

lemma getlines_Nil [simp]: "getlines d [] = []"
  by (simp add: getlines.simps)

lemma getlines_part:
  "d \<notin> set x \<Longrightarrow> getlines d (x @ d # rest) = x # getlines d rest"
  by (subst getlines.simps) simp

lemma getlines_last:
  "d \<notin> set x \<Longrightarrow> x \<noteq> [] \<Longrightarrow> getlines d x = [x]"
  by (subst getlines.simps) simp

text \<open>The parts never contain the delimiter.\<close>

lemma getlines_no_delim: "p \<in> set (getlines d str) \<Longrightarrow> d \<notin> set p"
proof (induction d str rule: getlines.induct)
  case (1 d str)
  show ?case
  proof (cases "str = []")
    case False
    with 1 show ?thesis
      by (auto simp: getlines.simps [of d str] dest: set_takeWhileD)
  qed (use 1 in simp)
qed

text \<open>The plain concatenation with separators, which \<^verbatim>\<open>join\<close> computes at offset 0.\<close>

fun sep_concat :: "char \<Rightarrow> string list \<Rightarrow> string" where
  "sep_concat sep [] = []"
| "sep_concat sep [x] = x"
| "sep_concat sep (x # y # zs) = x @ sep # sep_concat sep (y # zs)"

lemma sep_concat_Cons:
  "zs \<noteq> [] \<Longrightarrow> sep_concat sep (x # zs) = x @ sep # sep_concat sep zs"
  by (cases zs) auto

lemma sep_concat_append_head:
  "sep_concat sep ((r @ sep # t) # zs) = r @ sep # sep_concat sep (t # zs)"
  by (cases zs) auto

lemma join_rest_from:
  "\<forall>v \<in> set vec. i \<le> length v \<Longrightarrow>
   join_rest rv vec i sep = Some (sep_concat sep (rv # map (drop i) vec))"
  by (induction vec arbitrary: rv) (auto simp: substr_def sep_concat_append_head)

lemma join_from_eq:
  "\<forall>v \<in> set vec. i \<le> length v \<Longrightarrow>
   join_from vec i sep = Some (sep_concat sep (map (drop i) vec))"
  by (cases vec) (auto simp: join_from_def substr_def join_rest_from)

lemma join_eq: "join vec sep = Some (sep_concat sep vec)"
  by (simp add: join_def join_from_eq)

lemma getlines_sep_concat:
  assumes "\<forall>x \<in> set xs. d \<notin> set x" and "xs = [] \<or> last xs \<noteq> []"
  shows "getlines d (sep_concat d xs) = xs"
  using assms
  by (induction d xs rule: sep_concat.induct)
    (auto simp: getlines_part getlines_last split: if_splits)

section \<open>Common prefixes and suffixes\<close>

definition prefix_mismatch :: "nat \<Rightarrow> char \<Rightarrow> string \<Rightarrow> bool" where
  "prefix_mismatch n chr v \<longleftrightarrow> n \<ge> length v \<or> v ! n \<noteq> chr"

function lcp_from :: "string \<Rightarrow> string list \<Rightarrow> nat \<Rightarrow> nat option" where
  "lcp_from v0 vs n =
     (if n < length v0
      then (if list_ex (prefix_mismatch n (v0 ! n)) vs then Some n else lcp_from v0 vs (Suc n))
      else None)"
  by pat_completeness auto
termination
  by (relation "measure (\<lambda>(v0, vs, n). length v0 - n)") auto

declare lcp_from.simps [simp del]

definition longest_common_prefix_index :: "string list \<Rightarrow> nat option" where
  "longest_common_prefix_index vec =
     (case vec of [] \<Rightarrow> None | v0 # vs \<Rightarrow> lcp_from v0 vs 0)"

definition longest_common_prefix :: "string list \<Rightarrow> string" where
  "longest_common_prefix vec =
     (case longest_common_prefix_index vec of
        Some idx \<Rightarrow> take idx (hd vec)
      | None \<Rightarrow> [])"

definition remove_common_prefix_and_join :: "string list \<Rightarrow> char \<Rightarrow> string option" where
  "remove_common_prefix_and_join vec sep =
     (let idx = (case longest_common_prefix_index vec of None \<Rightarrow> 0 | Some n \<Rightarrow> n)
      in join_from vec idx sep)"

definition isprefix :: "string \<Rightarrow> string \<Rightarrow> bool" where
  "isprefix s0 s1 \<longleftrightarrow> length s0 \<ge> length s1 \<and> take (length s1) s0 = s1"

definition ends_with :: "string \<Rightarrow> string \<Rightarrow> bool" where
  "ends_with str suff \<longleftrightarrow>
     (if length suff > length str then False
      else take (length suff) (rev str) = rev suff)"

fun erase_fnmatches :: "(string \<Rightarrow> string \<Rightarrow> bool) \<Rightarrow> string list \<Rightarrow> string list \<Rightarrow> string list" where
  "erase_fnmatches fnm patterns [] = []"
| "erase_fnmatches fnm patterns (s # strs) =
     (if list_ex (\<lambda>p. fnm p s) patterns
      then erase_fnmatches fnm patterns strs
      else s # erase_fnmatches fnm patterns strs)"

lemma isprefix_prefix: "isprefix s0 s1 \<longleftrightarrow> prefix s1 s0"
  by (auto simp: isprefix_def prefix_def) (metis append_take_drop_id)

lemma ends_with_suffix: "ends_with str suff \<longleftrightarrow> suffix suff str"
proof -
  have "ends_with str suff \<longleftrightarrow> isprefix (rev str) (rev suff)"
    by (auto simp: ends_with_def isprefix_def)
  then show ?thesis by (simp add: isprefix_prefix suffix_to_prefix)
qed

lemma lcp_from_Some:
  assumes "lcp_from v0 vs n = Some m" and "\<forall>v \<in> set vs. n \<le> length v \<and> take n v = take n v0"
    and "n \<le> length v0"
  shows "m < length v0 \<and> (\<forall>v \<in> set vs. m \<le> length v \<and> take m v = take m v0)
    \<and> (\<exists>v \<in> set vs. prefix_mismatch m (v0 ! m) v)"
  using assms
proof (induction v0 vs n rule: lcp_from.induct)
  case (1 v0 vs n)
  show ?case
  proof (cases "n < length v0 \<and> \<not> list_ex (prefix_mismatch n (v0 ! n)) vs")
    case True
    then have "\<forall>v \<in> set vs. n < length v \<and> v ! n = v0 ! n"
      by (auto simp: list_ex_iff prefix_mismatch_def not_le)
    then have "\<forall>v \<in> set vs. Suc n \<le> length v \<and> take (Suc n) v = take (Suc n) v0"
      using 1(3) True by (auto simp: take_Suc_conv_app_nth)
    then show ?thesis using 1 True by (simp add: lcp_from.simps [of v0 vs n])
  next
    case False
    then show ?thesis using 1
      by (auto simp: lcp_from.simps [of v0 vs n] list_ex_iff split: if_splits)
  qed
qed

lemma lcp_from_None:
  assumes "lcp_from v0 vs n = None" and "\<forall>v \<in> set vs. take n v = take n v0" and "n \<le> length v0"
  shows "\<forall>v \<in> set vs. prefix v0 v"
  using assms
proof (induction v0 vs n rule: lcp_from.induct)
  case (1 v0 vs n)
  show ?case
  proof (cases "n < length v0")
    case True
    then have mm: "\<forall>v \<in> set vs. n < length v \<and> v ! n = v0 ! n"
      using 1(2) by (auto simp: lcp_from.simps [of v0 vs n] list_ex_iff prefix_mismatch_def not_le
          split: if_splits)
    then have "\<forall>v \<in> set vs. take (Suc n) v = take (Suc n) v0"
      using 1(3) True by (auto simp: take_Suc_conv_app_nth)
    then show ?thesis using 1 True
      by (auto simp: lcp_from.simps [of v0 vs n] split: if_splits)
  next
    case False
    then have "n = length v0" using 1(4) by simp
    then have "\<forall>v \<in> set vs. take (length v0) v = v0" using 1(3) by simp
    then show ?thesis by (metis take_is_prefix)
  qed
qed

text \<open>The index it finds is the length of the longest prefix all strings share.\<close>

lemma longest_common_prefix_index_Some:
  assumes "longest_common_prefix_index vec = Some n"
  shows "(\<forall>v \<in> set vec. n \<le> length v \<and> take n v = take n (hd vec))
    \<and> \<not> (\<forall>v \<in> set vec. n < length v \<and> v ! n = hd vec ! n)"
proof (cases vec)
  case Nil
  with assms show ?thesis by (simp add: longest_common_prefix_index_def)
next
  case (Cons v0 vs)
  with assms have "lcp_from v0 vs 0 = Some n" by (simp add: longest_common_prefix_index_def)
  from lcp_from_Some [OF this] have
    "n < length v0" and all: "\<forall>v \<in> set vs. n \<le> length v \<and> take n v = take n v0"
    and ex: "\<exists>v \<in> set vs. prefix_mismatch n (v0 ! n) v" by simp_all
  have "\<not> (\<forall>v \<in> set vs. n < length v \<and> v ! n = v0 ! n)"
    using ex by (fastforce simp: prefix_mismatch_def not_less)
  with all \<open>n < length v0\<close> show ?thesis by (simp add: Cons)
qed

lemma longest_common_prefix_index_None:
  "longest_common_prefix_index vec = None \<Longrightarrow> v \<in> set vec \<Longrightarrow> prefix (hd vec) v"
  using lcp_from_None [of "hd vec" "tl vec" 0]
  by (cases vec) (auto simp: longest_common_prefix_index_def)

lemma remove_common_prefix_and_join_eq:
  "\<exists>n. remove_common_prefix_and_join vec sep = Some (sep_concat sep (map (drop n) vec))
     \<and> (\<forall>v \<in> set vec. n \<le> length v \<and> take n v = take n (hd vec))"
proof (cases "longest_common_prefix_index vec")
  case None
  then show ?thesis
    by (intro exI [of _ 0]) (simp add: remove_common_prefix_and_join_def join_from_eq)
next
  case (Some n)
  with longest_common_prefix_index_Some [OF Some] show ?thesis
    by (intro exI [of _ n]) (simp add: remove_common_prefix_and_join_def join_from_eq)
qed

lemma erase_fnmatches_eq:
  "erase_fnmatches fnm patterns strs = filter (\<lambda>s. \<not> list_ex (\<lambda>p. fnm p s) patterns) strs"
  by (induction strs) auto

end
