(* ===== verification/Path_Util.thy ===== *)
theory Path_Util
  imports Str_Util
begin

text \<open>
  \<^verbatim>\<open>fs_path.cpp\<close> and \<^verbatim>\<open>fs_path.hpp\<close>: paths are strings, a path on a branch is the branch's base path
  followed by the path within the pool. The backward scan of \<^verbatim>\<open>dirname\<close> runs over the
  reversed string; the code tests \<^verbatim>\<open>*i\<close> before \<^verbatim>\<open>i != ei\<close>, and a read at the end of the
  scan is modelled as a failed test.
\<close>

definition dirname :: "string \<Rightarrow> string" where
  "dirname pth =
     rev (dropWhile (\<lambda>c. c = CHR ''/'')
       (dropWhile (\<lambda>c. c \<noteq> CHR ''/'')
         (dropWhile (\<lambda>c. c = CHR ''/'') (rev pth))))"

definition basename :: "string \<Rightarrow> string" where
  "basename pth = rev (takeWhile (\<lambda>c. c \<noteq> CHR ''/'') (rev pth))"

definition path_make :: "string \<Rightarrow> string \<Rightarrow> string" where
  "path_make base suff = base @ c_str suff"

text \<open>\<^verbatim>\<open>dirname\<close> is a proper prefix of a non-empty path, so a walk up a path ends.\<close>

lemma dirname_prefix: "prefix (dirname pth) pth"
proof -
  have "suffix (rev (dirname pth)) (rev pth)"
    unfolding dirname_def rev_rev_ident
    by (meson suffix_dropWhile suffix_order.trans)
  then show ?thesis by (simp add: suffix_to_prefix)
qed

lemma dirname_shorter: "pth \<noteq> [] \<Longrightarrow> length (dirname pth) < length pth"
proof -
  assume "pth \<noteq> []"
  then obtain c cs where r: "rev pth = c # cs" by (metis list.exhaust rev_is_Nil_conv)
  define r1 where "r1 = dropWhile (\<lambda>c. c = CHR ''/'') (rev pth)"
  define r2 where "r2 = dropWhile (\<lambda>c. c \<noteq> CHR ''/'') r1"
  have len: "length (dirname pth) \<le> length r2" "length r2 \<le> length r1"
    by (simp_all add: dirname_def r1_def r2_def length_dropWhile_le)
  show ?thesis
  proof (cases "c = CHR ''/''")
    case True
    have "length r1 \<le> length cs"
      unfolding r1_def using True r by (simp add: length_dropWhile_le)
    then show ?thesis using len r by (metis length_Cons length_rev le_imp_less_Suc le_trans)
  next
    case False
    then have "r1 = c # cs" by (simp add: r1_def r)
    then have "length r2 \<le> length cs" using False by (simp add: r2_def length_dropWhile_le)
    then show ?thesis using len r by (metis length_Cons length_rev le_imp_less_Suc le_trans)
  qed
qed

text \<open>On a path of the pool, \<open>/dir/name\<close>, it is the directory part, without a slash at its end.\<close>

lemma dirname_snoc:
  assumes "CHR ''/'' \<notin> set n" and "n \<noteq> []" and "d = [] \<or> last d \<noteq> CHR ''/''"
  shows "dirname (d @ CHR ''/'' # n) = d"
proof -
  have 1: "dropWhile (\<lambda>c. c = CHR ''/'') (rev n @ CHR ''/'' # rev d) = rev n @ CHR ''/'' # rev d"
    using assms(1,2) by (cases n rule: rev_cases) auto
  have 2: "dropWhile (\<lambda>c. c = CHR ''/'') (rev d) = rev d"
    using assms(3) by (cases d rule: rev_cases) auto
  show ?thesis using assms(1) by (simp add: dirname_def 1 2)
qed

lemma dirname_no_trailing_slash: "dirname pth = [] \<or> last (dirname pth) \<noteq> CHR ''/''"
proof -
  have "xs \<noteq> [] \<Longrightarrow> xs = dropWhile (\<lambda>c. c = CHR ''/'') ys \<Longrightarrow> hd xs \<noteq> CHR ''/''" for xs ys
    using hd_dropWhile [of "\<lambda>c. c = CHR ''/''" ys] by simp
  then show ?thesis by (auto simp: dirname_def last_rev)
qed

lemma dirname_basename:
  assumes "CHR ''/'' \<notin> set n" and "n \<noteq> []" and "d = [] \<or> last d \<noteq> CHR ''/''"
  shows "dirname (d @ CHR ''/'' # n) @ CHR ''/'' # basename (d @ CHR ''/'' # n) = d @ CHR ''/'' # n"
  using assms by (simp add: dirname_snoc basename_def)

end
