(* ===== verification/Branches.thy ===== *)
theory Branches
  imports Machine Path_Util
begin

text \<open>
  \<^verbatim>\<open>branch.hpp\<close>, \<^verbatim>\<open>branch.cpp\<close>, with \<^verbatim>\<open>fs_glob.cpp\<close> and \<^verbatim>\<open>fs::realpathize\<close>: the ordered list of branches
  of the pool, its text form and the instructions that edit it at run time. An
  operation the C++ standard leaves undefined on an empty vector (\<^verbatim>\<open>*tmp.rbegin()\<close>,
  \<^verbatim>\<open>erase(begin())\<close>, \<^verbatim>\<open>pop_back()\<close>) returns \<open>None\<close> there.
\<close>

datatype Mode = Mode_INVALID | Mode_RO | Mode_RW | Mode_NC

record Branch =
  br_mode :: Mode
  br_path :: string

definition ro :: "Branch \<Rightarrow> bool" where
  "ro b \<longleftrightarrow> br_mode b = Mode_RO"

definition nc :: "Branch \<Rightarrow> bool" where
  "nc b \<longleftrightarrow> br_mode b = Mode_NC"

definition ro_or_nc :: "Branch \<Rightarrow> bool" where
  "ro_or_nc b \<longleftrightarrow> br_mode b = Mode_RO \<or> br_mode b = Mode_NC"

definition mode_str :: "Mode \<Rightarrow> string" where
  "mode_str m = (case m of Mode_RO \<Rightarrow> ''RO'' | Mode_NC \<Rightarrow> ''NC'' | _ \<Rightarrow> ''RW'')"

definition branch_str :: "bool \<Rightarrow> Branch \<Rightarrow> string" where
  "branch_str with_mode b =
     br_path b @ (if with_mode then CHR ''='' # mode_str (br_mode b) else []) @ '':''"

definition to_string :: "bool \<Rightarrow> Branch list \<Rightarrow> string option" where
  "to_string with_mode bs =
     (let tmp = concat (map (branch_str with_mode) bs)
      in if tmp = [] then None
         else Some (if last tmp = CHR '':'' then butlast tmp else tmp))"

definition to_paths :: "Branch list \<Rightarrow> string list" where
  "to_paths bs = map br_path bs"

definition realpathize :: "'w os \<Rightarrow> 'w \<Rightarrow> string list \<Rightarrow> string list" where
  "realpathize os w strs =
     map (\<lambda>p. case k_realpath os p w of None \<Rightarrow> p | Some r \<Rightarrow> r) strs"

definition parse :: "'w os \<Rightarrow> 'w \<Rightarrow> string \<Rightarrow> Branch list" where
  "parse os w str =
     (let m = (if ends_with str ''=RO'' then Mode_RO
               else if ends_with str ''=RW'' then Mode_RW
               else if ends_with str ''=NC'' then Mode_NC
               else Mode_INVALID);
          str' = (if m \<noteq> Mode_INVALID then take (length str - 3) str else str);
          m' = (if m \<noteq> Mode_INVALID then m else Mode_RW);
          globbed = realpathize os w (k_glob os str' w)
      in map (\<lambda>p. \<lparr>br_mode = m', br_path = p\<rparr>) globbed)"

fun add_end_paths :: "'w os \<Rightarrow> 'w \<Rightarrow> string list \<Rightarrow> Branch list \<Rightarrow> Branch list" where
  "add_end_paths os w [] bs = bs"
| "add_end_paths os w (p # ps) bs = add_end_paths os w ps (bs @ parse os w p)"

fun add_begin_paths :: "'w os \<Rightarrow> 'w \<Rightarrow> string list \<Rightarrow> Branch list \<Rightarrow> Branch list" where
  "add_begin_paths os w [] bs = bs"
| "add_begin_paths os w (p # ps) bs = add_begin_paths os w ps (parse os w p @ bs)"

definition branches_set :: "'w os \<Rightarrow> 'w \<Rightarrow> string \<Rightarrow> Branch list \<Rightarrow> Branch list" where
  "branches_set os w str bs = add_end_paths os w (split [] str CHR '':'') []"

definition add_begin :: "'w os \<Rightarrow> 'w \<Rightarrow> string \<Rightarrow> Branch list \<Rightarrow> Branch list" where
  "add_begin os w str bs = add_begin_paths os w (split [] str CHR '':'') bs"

definition add_end :: "'w os \<Rightarrow> 'w \<Rightarrow> string \<Rightarrow> Branch list \<Rightarrow> Branch list" where
  "add_end os w str bs = add_end_paths os w (split [] str CHR '':'') bs"

definition erase_begin :: "Branch list \<Rightarrow> Branch list option" where
  "erase_begin bs = (case bs of [] \<Rightarrow> None | _ # bs' \<Rightarrow> Some bs')"

definition erase_end :: "Branch list \<Rightarrow> Branch list option" where
  "erase_end bs = (if bs = [] then None else Some (butlast bs))"

fun erase_matching :: "'w os \<Rightarrow> string list \<Rightarrow> Branch list \<Rightarrow> Branch list" where
  "erase_matching os patterns [] = []"
| "erase_matching os patterns (b # bs) =
     (if list_ex (\<lambda>p. k_fnmatch os p (br_path b)) patterns
      then erase_matching os patterns bs
      else b # erase_matching os patterns bs)"

definition erase_fnmatch :: "'w os \<Rightarrow> string \<Rightarrow> Branch list \<Rightarrow> Branch list" where
  "erase_fnmatch os str bs = erase_matching os (split [] str CHR '':'') bs"

section \<open>The edits as list operations\<close>

lemma add_end_paths_eq: "add_end_paths os w ps bs = bs @ concat (map (parse os w) ps)"
  by (induction ps arbitrary: bs) auto

lemma add_begin_paths_eq: "add_begin_paths os w ps bs = concat (map (parse os w) (rev ps)) @ bs"
  by (induction ps arbitrary: bs) auto

lemma erase_matching_eq:
  "erase_matching os ps bs = filter (\<lambda>b. \<not> list_ex (\<lambda>p. k_fnmatch os p (br_path b)) ps) bs"
  by (induction bs) auto

text \<open>Every branch the parser makes has a real mode; the edits keep that.\<close>

definition modes_ok :: "Branch list \<Rightarrow> bool" where
  "modes_ok bs \<longleftrightarrow> (\<forall>b \<in> set bs. br_mode b \<noteq> Mode_INVALID)"

lemma parse_modes_ok [simp]: "modes_ok (parse os w str)"
  by (auto simp: parse_def modes_ok_def Let_def)

lemma modes_ok_Nil [simp]: "modes_ok []"
  by (simp add: modes_ok_def)

lemma modes_ok_append [simp]: "modes_ok (bs @ cs) \<longleftrightarrow> modes_ok bs \<and> modes_ok cs"
  by (auto simp: modes_ok_def)

lemma modes_ok_concat [simp]: "modes_ok (concat bss) \<longleftrightarrow> (\<forall>bs \<in> set bss. modes_ok bs)"
  by (induction bss) auto

lemma modes_ok_subset: "modes_ok bs \<Longrightarrow> set cs \<subseteq> set bs \<Longrightarrow> modes_ok cs"
  by (auto simp: modes_ok_def)

lemma edits_keep_modes:
  assumes "modes_ok bs"
  shows "modes_ok (branches_set os w str bs)" "modes_ok (add_begin os w str bs)"
    "modes_ok (add_end os w str bs)" "modes_ok (erase_fnmatch os str bs)"
    "erase_begin bs = Some cs \<Longrightarrow> modes_ok cs" "erase_end bs = Some cs \<Longrightarrow> modes_ok cs"
  using assms
  by (auto simp: branches_set_def add_begin_def add_end_def add_end_paths_eq add_begin_paths_eq
      erase_fnmatch_def erase_matching_eq erase_begin_def erase_end_def
      split: list.splits if_splits elim!: modes_ok_subset dest: in_set_butlastD)

section \<open>Reading back the text form\<close>

lemma mode_suffix:
  assumes "m \<noteq> Mode_INVALID"
  shows "(if ends_with (p @ CHR ''='' # mode_str m) ''=RO'' then Mode_RO
          else if ends_with (p @ CHR ''='' # mode_str m) ''=RW'' then Mode_RW
          else if ends_with (p @ CHR ''='' # mode_str m) ''=NC'' then Mode_NC
          else Mode_INVALID) = m"
  using assms by (cases m) (simp_all add: mode_str_def ends_with_def)

text \<open>A path the C library finds as it is: no glob expands it and it is already resolved.\<close>

definition plain_path :: "'w os \<Rightarrow> 'w \<Rightarrow> string \<Rightarrow> bool" where
  "plain_path os w p \<longleftrightarrow>
     k_glob os p w = [p] \<and> (k_realpath os p w = None \<or> k_realpath os p w = Some p)
     \<and> CHR '':'' \<notin> set p \<and> NUL \<notin> set p"

lemma parse_with_mode:
  assumes "br_mode b \<noteq> Mode_INVALID" and "plain_path os w (br_path b)"
  shows "parse os w (br_path b @ CHR ''='' # mode_str (br_mode b)) = [b]"
proof -
  have len: "length (br_path b @ CHR ''='' # mode_str (br_mode b)) - 3 = length (br_path b)"
    by (cases "br_mode b") (simp_all add: mode_str_def)
  have rp: "realpathize os w (k_glob os (br_path b) w) = [br_path b]"
    using assms(2) by (auto simp: realpathize_def plain_path_def split: option.splits)
  show ?thesis
    unfolding parse_def Let_def mode_suffix [OF assms(1)] len
    using assms rp by simp
qed

lemma concat_branch_str:
  "bs \<noteq> [] \<Longrightarrow> concat (map (branch_str True) bs) =
   sep_concat CHR '':'' (map (\<lambda>b. br_path b @ CHR ''='' # mode_str (br_mode b)) bs) @ '':''"
  by (induction bs rule: list_nonempty_induct) (auto simp: branch_str_def sep_concat_Cons)

lemma to_string_True:
  "bs \<noteq> [] \<Longrightarrow> to_string True bs =
   Some (sep_concat CHR '':'' (map (\<lambda>b. br_path b @ CHR ''='' # mode_str (br_mode b)) bs))"
  by (simp add: to_string_def Let_def concat_branch_str)

lemma sep_concat_set: "c \<in> set (sep_concat d xs) \<Longrightarrow> c = d \<or> (\<exists>x \<in> set xs. c \<in> set x)"
  by (induction d xs rule: sep_concat.induct) auto

lemma branches_set_to_string:
  assumes "bs \<noteq> []" and "modes_ok bs" and "\<forall>b \<in> set bs. plain_path os w (br_path b)"
  shows "branches_set os w (the (to_string True bs)) old = bs"
proof -
  define f where "f = (\<lambda>b :: Branch. br_path b @ CHR ''='' # mode_str (br_mode b))"
  have f_chars: "NUL \<notin> set (f b) \<and> CHR '':'' \<notin> set (f b)" if "b \<in> set bs" for b
    using assms(3) that by (cases "br_mode b") (auto simp: f_def plain_path_def mode_str_def)
  have "NUL \<notin> set (sep_concat CHR '':'' (map f bs))"
    using f_chars by (auto dest!: sep_concat_set)
  moreover have "getlines CHR '':'' (sep_concat CHR '':'' (map f bs)) = map f bs"
    using f_chars assms(1) by (intro getlines_sep_concat) (auto simp: last_map f_def)
  ultimately have "split [] (the (to_string True bs)) CHR '':'' = map f bs"
    using assms(1) by (simp add: to_string_True split_def c_str_id f_def)
  moreover have "parse os w (f b) = [b]" if "b \<in> set bs" for b
    using parse_with_mode [of b os w] assms(2,3) that by (simp add: f_def modes_ok_def)
  then have "concat (map (parse os w) (map f bs)) = bs"
    by (induction bs) auto
  ultimately show ?thesis by (simp add: branches_set_def add_end_paths_eq)
qed

end
