(* ===== verification/Statvfs_Cache.thy ===== *)
theory Statvfs_Cache
  imports Branches
begin

text \<open>
  What the policies know of a branch: \<^verbatim>\<open>statvfs_util.hpp\<close>, the timed cache of \<^verbatim>\<open>statvfs\<close> results
  in \<^verbatim>\<open>fs_statvfs_cache.cpp\<close>, \<^verbatim>\<open>fs_info.cpp\<close> and \<^verbatim>\<open>fs_exists.hpp\<close>. Sizes are computed in 64-bit
  arithmetic with wrap-around, as is the age of a cache entry. A new entry of the cache
  is zero-initialised, as \<^verbatim>\<open>std::map::operator[]\<close> does it.
\<close>

unbundle bit_operations_syntax

abbreviation ST_RDONLY :: u64 where "ST_RDONLY \<equiv> 1"

definition StatVFS_readonly :: "statvfs \<Rightarrow> bool" where
  "StatVFS_readonly st \<longleftrightarrow> f_flag st AND ST_RDONLY \<noteq> 0"

definition StatVFS_spaceavail :: "statvfs \<Rightarrow> u64" where
  "StatVFS_spaceavail st = f_frsize st * f_bavail st"

definition StatVFS_spaceused :: "statvfs \<Rightarrow> u64" where
  "StatVFS_spaceused st = f_frsize st * (f_blocks st - f_bavail st)"

definition zero_statvfs :: statvfs where
  "zero_statvfs = \<lparr>f_bsize = 0, f_frsize = 0, f_blocks = 0, f_bfree = 0, f_bavail = 0,
     f_files = 0, f_ffree = 0, f_favail = 0, f_fsid = 0, f_flag = 0, f_namemax = 0\<rparr>"

definition zero_Element :: Element where
  "zero_Element = \<lparr>el_time = 0, el_st = zero_statvfs\<rparr>"

definition statvfs_cache :: "'w os \<Rightarrow> string \<Rightarrow> 'w sys \<Rightarrow> statvfs option \<times> 'w sys" where
  "statvfs_cache os pth s =
     (if g_timeout s = 0 then fs_statvfs os pth s
      else
        let now = k_time os (world s);
            e = (case g_cache s pth of None \<Rightarrow> zero_Element | Some e \<Rightarrow> e)
        in if now - el_time e > g_timeout s
           then (let e' = e\<lparr>el_time := now\<rparr>
                 in case fs_statvfs os pth s of
                      (None, s') \<Rightarrow> (None, s'\<lparr>g_cache := (g_cache s')(pth \<mapsto> e')\<rparr>)
                    | (Some st, s') \<Rightarrow>
                        (Some st, s'\<lparr>g_cache := (g_cache s')(pth \<mapsto> e'\<lparr>el_st := st\<rparr>)\<rparr>))
           else (Some (el_st e), s\<lparr>g_cache := (g_cache s)(pth \<mapsto> e)\<rparr>))"

definition statvfs_cache_readonly :: "'w os \<Rightarrow> string \<Rightarrow> 'w sys \<Rightarrow> bool option \<times> 'w sys" where
  "statvfs_cache_readonly os pth s =
     (case statvfs_cache os pth s of
        (None, s') \<Rightarrow> (None, s')
      | (Some st, s') \<Rightarrow> (Some (StatVFS_readonly st), s'))"

definition statvfs_cache_spaceavail :: "'w os \<Rightarrow> string \<Rightarrow> 'w sys \<Rightarrow> u64 option \<times> 'w sys" where
  "statvfs_cache_spaceavail os pth s =
     (case statvfs_cache os pth s of
        (None, s') \<Rightarrow> (None, s')
      | (Some st, s') \<Rightarrow> (Some (StatVFS_spaceavail st), s'))"

definition statvfs_cache_spaceused :: "'w os \<Rightarrow> string \<Rightarrow> 'w sys \<Rightarrow> u64 option \<times> 'w sys" where
  "statvfs_cache_spaceused os pth s =
     (case statvfs_cache os pth s of
        (None, s') \<Rightarrow> (None, s')
      | (Some st, s') \<Rightarrow> (Some (StatVFS_spaceused st), s'))"

record info_t =
  readonly :: bool
  spaceavail :: u64
  spaceused :: u64

definition fs_info :: "'w os \<Rightarrow> string \<Rightarrow> 'w sys \<Rightarrow> info_t option \<times> 'w sys" where
  "fs_info os pth s =
     (case statvfs_cache os pth s of
        (None, s') \<Rightarrow> (None, s')
      | (Some st, s') \<Rightarrow>
          (Some \<lparr>readonly = StatVFS_readonly st,
                 spaceavail = StatVFS_spaceavail st,
                 spaceused = StatVFS_spaceused st\<rparr>, s'))"

definition fs_exists_st :: "'w os \<Rightarrow> string \<Rightarrow> string \<Rightarrow> 'w sys \<Rightarrow> stat option \<times> 'w sys" where
  "fs_exists_st os basepath relpath s = fs_lstat os (path_make basepath relpath) s"

definition fs_exists :: "'w os \<Rightarrow> string \<Rightarrow> string \<Rightarrow> 'w sys \<Rightarrow> bool \<times> 'w sys" where
  "fs_exists os basepath relpath s =
     (case fs_exists_st os basepath relpath s of
        (None, s') \<Rightarrow> (False, s')
      | (Some _, s') \<Rightarrow> (True, s'))"

section \<open>What a query changes\<close>

text \<open>
  A query of one branch leaves the kernel state and the timeout alone and changes the
  cache at that branch's path only.
\<close>

definition ids :: "'w sys \<Rightarrow> u32 \<times> u32 \<times> bool \<times> gid_t_cache" where
  "ids s = (currentuid s, currentgid s, initialized s, gidcache s)"

lemma ids_update [simp]:
  "ids (s\<lparr>errno := e\<rparr>) = ids s" "ids (s\<lparr>world := w\<rparr>) = ids s" "ids (s\<lparr>g_cache := c\<rparr>) = ids s"
  by (simp_all add: ids_def)

lemma ids_sys_val [simp]: "ids (snd (sys_val r s)) = ids s"
  by (auto simp: sys_val_def split: sum.splits)

definition only_at :: "string \<Rightarrow> 'w sys \<Rightarrow> 'w sys \<Rightarrow> bool" where
  "only_at pth s t \<longleftrightarrow>
     world t = world s \<and> g_timeout t = g_timeout s \<and> ids t = ids s
     \<and> (g_timeout s = 0 \<longrightarrow> g_cache t = g_cache s)
     \<and> (\<forall>q. q \<noteq> pth \<longrightarrow> g_cache t q = g_cache s q)"

lemma only_at_refl [simp]: "only_at pth s s"
  by (simp add: only_at_def)

lemma only_at_trans: "only_at pth s t \<Longrightarrow> only_at pth t u \<Longrightarrow> only_at pth s u"
  by (auto simp: only_at_def)

lemma only_at_errno [simp]: "only_at pth s (t\<lparr>errno := e\<rparr>) = only_at pth s t"
  by (simp add: only_at_def)

lemma only_at_sys_val [simp]: "only_at pth s (snd (sys_val r s))"
  by (simp add: only_at_def)

lemma only_at_statvfs_cache: "only_at pth s (snd (statvfs_cache os pth s))"
  by (auto simp: statvfs_cache_def only_at_def fs_statvfs_def sys_val_def Let_def
      split: prod.splits option.splits sum.splits)

text \<open>The answer of a query is a function of the kernel state, the timeout and the entry.\<close>

lemma statvfs_cache_local:
  assumes "world t = world s" "g_timeout t = g_timeout s" "g_cache t pth = g_cache s pth"
  shows "fst (statvfs_cache os pth t) = fst (statvfs_cache os pth s)"
  using assms
  by (auto simp: statvfs_cache_def fs_statvfs_def sys_val_def Let_def
      split: prod.splits option.splits sum.splits)

lemma statvfs_cache_local_timeout0:
  assumes "world t = world s" "g_timeout t = 0" "g_timeout s = 0"
  shows "fst (statvfs_cache os pth t) = fst (statvfs_cache os pth s)"
  using assms by (simp add: statvfs_cache_def fs_statvfs_def sys_val_def split: sum.splits)

lemma fst_fs_info:
  "fst (fs_info os pth s) =
   map_option (\<lambda>st. \<lparr>readonly = StatVFS_readonly st, spaceavail = StatVFS_spaceavail st,
     spaceused = StatVFS_spaceused st\<rparr>) (fst (statvfs_cache os pth s))"
  by (auto simp: fs_info_def split: prod.splits option.splits)

lemma fst_statvfs_cache_projections:
  "fst (statvfs_cache_readonly os pth s) = map_option StatVFS_readonly (fst (statvfs_cache os pth s))"
  "fst (statvfs_cache_spaceavail os pth s) = map_option StatVFS_spaceavail (fst (statvfs_cache os pth s))"
  "fst (statvfs_cache_spaceused os pth s) = map_option StatVFS_spaceused (fst (statvfs_cache os pth s))"
  by (auto simp: statvfs_cache_readonly_def statvfs_cache_spaceavail_def
      statvfs_cache_spaceused_def split: prod.splits option.splits)

lemma snd_queries [simp]:
  "snd (fs_info os pth s) = snd (statvfs_cache os pth s)"
  "snd (statvfs_cache_readonly os pth s) = snd (statvfs_cache os pth s)"
  "snd (statvfs_cache_spaceavail os pth s) = snd (statvfs_cache os pth s)"
  "snd (statvfs_cache_spaceused os pth s) = snd (statvfs_cache os pth s)"
  by (auto simp: fs_info_def statvfs_cache_readonly_def statvfs_cache_spaceavail_def
      statvfs_cache_spaceused_def split: prod.splits option.splits)

lemma fst_fs_exists:
  "fst (fs_exists_st os b p s) =
     (case k_lstat os (path_make b p) (world s) of Inl _ \<Rightarrow> None | Inr st \<Rightarrow> Some st)"
  "fst (fs_exists os b p s) \<longleftrightarrow> fst (fs_exists_st os b p s) \<noteq> None"
  by (auto simp: fs_exists_def fs_exists_st_def fs_lstat_def sys_val_def
      split: prod.splits option.splits sum.splits)

lemma only_at_fs_exists [simp]:
  "only_at q s (snd (fs_exists_st os b p s))"
  "only_at q s (snd (fs_exists os b p s))"
  by (auto simp: fs_exists_def fs_exists_st_def fs_lstat_def only_at_def sys_val_def
      split: prod.splits option.splits sum.splits)

section \<open>Caching\<close>

text \<open>Within the timeout a branch's figures are the ones of the call that filled the entry.\<close>

lemma statvfs_cache_hit:
  assumes "g_timeout s \<noteq> 0" "g_cache s pth = Some e"
    and "k_time os (world s) - el_time e \<le> g_timeout s"
  shows "fst (statvfs_cache os pth s) = Some (el_st e)"
  using assms by (simp add: statvfs_cache_def Let_def not_less [symmetric])

lemma statvfs_cache_miss:
  assumes "g_timeout s \<noteq> 0" "g_cache s pth = Some e"
    and "g_timeout s < k_time os (world s) - el_time e"
  shows "fst (statvfs_cache os pth s) =
    (case k_statvfs os pth (world s) of Inl _ \<Rightarrow> None | Inr st \<Rightarrow> Some st)"
  using assms by (auto simp: statvfs_cache_def fs_statvfs_def sys_val_def Let_def split: sum.splits)

text \<open>
  A failed \<^verbatim>\<open>statvfs\<close> also renews the entry's time, so the next call within the timeout
  reports success with the old figures, or with zeros when there were none.
\<close>

lemma statvfs_cache_failure_then_success:
  assumes "g_timeout s \<noteq> 0" "k_statvfs os pth (world s) = Inl e"
    and "g_timeout s < k_time os (world s) - el_time (case g_cache s pth of None \<Rightarrow> zero_Element | Some x \<Rightarrow> x)"
  shows "fst (statvfs_cache os pth s) = None
    \<and> fst (statvfs_cache os pth (snd (statvfs_cache os pth s))) =
        Some (el_st (case g_cache s pth of None \<Rightarrow> zero_Element | Some x \<Rightarrow> x))"
  using assms by (auto simp: statvfs_cache_def fs_statvfs_def sys_val_def Let_def split: option.splits)

end
