(* ===== verification/Policy_Base.thy ===== *)
theory Policy_Base
  imports Statvfs_Cache
begin

text \<open>
  The tables of \<^verbatim>\<open>category.cpp\<close>, \<^verbatim>\<open>policy.cpp\<close> and \<^verbatim>\<open>fusefunc.cpp\<close> with their lookups, and the error
  ranking of \<^verbatim>\<open>policy_error.hpp\<close>. Each class of the code carries an enumerator and its name; the
  table is a vector sorted by enumerator whose first element is the \<^verbatim>\<open>invalid\<close>
  entry, and \<^verbatim>\<open>policies[i]\<close> counts from the element after it, so the index \<open>-1\<close> is
  the invalid entry.
\<close>

section \<open>Categories\<close>

datatype Category_Type = Cat_invalid | Cat_action | Cat_create | Cat_search

fun cat_index :: "Category_Type \<Rightarrow> int" where
  "cat_index Cat_invalid = - 1"
| "cat_index Cat_action = 0"
| "cat_index Cat_create = 1"
| "cat_index Cat_search = 2"

abbreviation CAT_END :: nat where "CAT_END \<equiv> 3"

record Category =
  cat_enum :: Category_Type
  cat_str :: string

definition categories_vec :: "Category list" where
  "categories_vec = sort_key (\<lambda>c. cat_index (cat_enum c))
     [\<lparr>cat_enum = Cat_invalid, cat_str = ''invalid''\<rparr>,
      \<lparr>cat_enum = Cat_action, cat_str = ''action''\<rparr>,
      \<lparr>cat_enum = Cat_create, cat_str = ''create''\<rparr>,
      \<lparr>cat_enum = Cat_search, cat_str = ''search''\<rparr>]"

definition categories :: "int \<Rightarrow> Category" where
  "categories i = categories_vec ! nat (i + 1)"

definition Category_find :: "string \<Rightarrow> Category" where
  "Category_find str =
     (case find (\<lambda>i. cat_str (categories i) = str) (map int [0 ..< CAT_END]) of
        Some i \<Rightarrow> categories i
      | None \<Rightarrow> categories (- 1))"

section \<open>Policies\<close>

datatype Policy_Type =
  Pol_invalid | Pol_all | Pol_epall | Pol_epff | Pol_eplfs | Pol_eplus | Pol_epmfs | Pol_eprand
| Pol_erofs | Pol_ff | Pol_lfs | Pol_lus | Pol_mfs | Pol_newest | Pol_rand

fun pol_index :: "Policy_Type \<Rightarrow> int" where
  "pol_index Pol_invalid = - 1"
| "pol_index Pol_all = 0"
| "pol_index Pol_epall = 1"
| "pol_index Pol_epff = 2"
| "pol_index Pol_eplfs = 3"
| "pol_index Pol_eplus = 4"
| "pol_index Pol_epmfs = 5"
| "pol_index Pol_eprand = 6"
| "pol_index Pol_erofs = 7"
| "pol_index Pol_ff = 8"
| "pol_index Pol_lfs = 9"
| "pol_index Pol_lus = 10"
| "pol_index Pol_mfs = 11"
| "pol_index Pol_newest = 12"
| "pol_index Pol_rand = 13"

abbreviation POL_END :: nat where "POL_END \<equiv> 14"

record Policy =
  pol_enum :: Policy_Type
  pol_str :: string
  path_preserving :: bool

definition policies_vec :: "Policy list" where
  "policies_vec = sort_key (\<lambda>p. pol_index (pol_enum p))
     [\<lparr>pol_enum = Pol_invalid, pol_str = ''invalid'', path_preserving = False\<rparr>,
      \<lparr>pol_enum = Pol_all, pol_str = ''all'', path_preserving = False\<rparr>,
      \<lparr>pol_enum = Pol_epall, pol_str = ''epall'', path_preserving = True\<rparr>,
      \<lparr>pol_enum = Pol_epff, pol_str = ''epff'', path_preserving = True\<rparr>,
      \<lparr>pol_enum = Pol_eplfs, pol_str = ''eplfs'', path_preserving = True\<rparr>,
      \<lparr>pol_enum = Pol_eplus, pol_str = ''eplus'', path_preserving = True\<rparr>,
      \<lparr>pol_enum = Pol_epmfs, pol_str = ''epmfs'', path_preserving = True\<rparr>,
      \<lparr>pol_enum = Pol_eprand, pol_str = ''eprand'', path_preserving = True\<rparr>,
      \<lparr>pol_enum = Pol_erofs, pol_str = ''erofs'', path_preserving = False\<rparr>,
      \<lparr>pol_enum = Pol_ff, pol_str = ''ff'', path_preserving = False\<rparr>,
      \<lparr>pol_enum = Pol_lfs, pol_str = ''lfs'', path_preserving = False\<rparr>,
      \<lparr>pol_enum = Pol_lus, pol_str = ''lus'', path_preserving = False\<rparr>,
      \<lparr>pol_enum = Pol_mfs, pol_str = ''mfs'', path_preserving = False\<rparr>,
      \<lparr>pol_enum = Pol_newest, pol_str = ''newest'', path_preserving = False\<rparr>,
      \<lparr>pol_enum = Pol_rand, pol_str = ''rand'', path_preserving = False\<rparr>]"

definition policies :: "int \<Rightarrow> Policy" where
  "policies i = policies_vec ! nat (i + 1)"

definition Policy_find :: "string \<Rightarrow> Policy" where
  "Policy_find str =
     (case find (\<lambda>i. pol_str (policies i) = str) (map int [0 ..< POL_END]) of
        Some i \<Rightarrow> policies i
      | None \<Rightarrow> policies (- 1))"

section \<open>FUSE functions\<close>

datatype FuseFunc_Type =
  FF_invalid | FF_access | FF_chmod | FF_chown | FF_create | FF_getattr | FF_getxattr | FF_link
| FF_listxattr | FF_mkdir | FF_mknod | FF_open | FF_readlink | FF_removexattr | FF_rename
| FF_rmdir | FF_setxattr | FF_symlink | FF_truncate | FF_unlink | FF_utimens

fun ff_index :: "FuseFunc_Type \<Rightarrow> int" where
  "ff_index FF_invalid = - 1"
| "ff_index FF_access = 0"
| "ff_index FF_chmod = 1"
| "ff_index FF_chown = 2"
| "ff_index FF_create = 3"
| "ff_index FF_getattr = 4"
| "ff_index FF_getxattr = 5"
| "ff_index FF_link = 6"
| "ff_index FF_listxattr = 7"
| "ff_index FF_mkdir = 8"
| "ff_index FF_mknod = 9"
| "ff_index FF_open = 10"
| "ff_index FF_readlink = 11"
| "ff_index FF_removexattr = 12"
| "ff_index FF_rename = 13"
| "ff_index FF_rmdir = 14"
| "ff_index FF_setxattr = 15"
| "ff_index FF_symlink = 16"
| "ff_index FF_truncate = 17"
| "ff_index FF_unlink = 18"
| "ff_index FF_utimens = 19"

abbreviation FF_END :: nat where "FF_END \<equiv> 20"

record FuseFunc =
  ff_enum :: FuseFunc_Type
  ff_str :: string
  ff_category :: Category_Type

definition fusefuncs_vec :: "FuseFunc list" where
  "fusefuncs_vec = sort_key (\<lambda>f. ff_index (ff_enum f))
     [\<lparr>ff_enum = FF_invalid, ff_str = ''invalid'', ff_category = Cat_invalid\<rparr>,
      \<lparr>ff_enum = FF_access, ff_str = ''access'', ff_category = Cat_search\<rparr>,
      \<lparr>ff_enum = FF_chmod, ff_str = ''chmod'', ff_category = Cat_action\<rparr>,
      \<lparr>ff_enum = FF_chown, ff_str = ''chown'', ff_category = Cat_action\<rparr>,
      \<lparr>ff_enum = FF_create, ff_str = ''create'', ff_category = Cat_create\<rparr>,
      \<lparr>ff_enum = FF_getattr, ff_str = ''getattr'', ff_category = Cat_search\<rparr>,
      \<lparr>ff_enum = FF_getxattr, ff_str = ''getxattr'', ff_category = Cat_search\<rparr>,
      \<lparr>ff_enum = FF_link, ff_str = ''link'', ff_category = Cat_action\<rparr>,
      \<lparr>ff_enum = FF_listxattr, ff_str = ''listxattr'', ff_category = Cat_search\<rparr>,
      \<lparr>ff_enum = FF_mkdir, ff_str = ''mkdir'', ff_category = Cat_create\<rparr>,
      \<lparr>ff_enum = FF_mknod, ff_str = ''mknod'', ff_category = Cat_create\<rparr>,
      \<lparr>ff_enum = FF_open, ff_str = ''open'', ff_category = Cat_search\<rparr>,
      \<lparr>ff_enum = FF_readlink, ff_str = ''readlink'', ff_category = Cat_search\<rparr>,
      \<lparr>ff_enum = FF_removexattr, ff_str = ''removexattr'', ff_category = Cat_action\<rparr>,
      \<lparr>ff_enum = FF_rename, ff_str = ''rename'', ff_category = Cat_action\<rparr>,
      \<lparr>ff_enum = FF_rmdir, ff_str = ''rmdir'', ff_category = Cat_action\<rparr>,
      \<lparr>ff_enum = FF_setxattr, ff_str = ''setxattr'', ff_category = Cat_action\<rparr>,
      \<lparr>ff_enum = FF_symlink, ff_str = ''symlink'', ff_category = Cat_create\<rparr>,
      \<lparr>ff_enum = FF_truncate, ff_str = ''truncate'', ff_category = Cat_action\<rparr>,
      \<lparr>ff_enum = FF_unlink, ff_str = ''unlink'', ff_category = Cat_action\<rparr>,
      \<lparr>ff_enum = FF_utimens, ff_str = ''utimens'', ff_category = Cat_action\<rparr>]"

definition fusefuncs :: "int \<Rightarrow> FuseFunc" where
  "fusefuncs i = fusefuncs_vec ! nat (i + 1)"

definition FuseFunc_find :: "string \<Rightarrow> FuseFunc" where
  "FuseFunc_find str =
     (case find (\<lambda>i. ff_str (fusefuncs i) = str) (map int [0 ..< FF_END]) of
        Some i \<Rightarrow> fusefuncs i
      | None \<Rightarrow> fusefuncs (- 1))"

section \<open>The tables agree with the enumerations\<close>

lemma categories_enum: "cat_enum (categories (cat_index c)) = c"
  by (cases c) (simp_all add: categories_def categories_vec_def)

lemma policies_enum: "pol_enum (policies (pol_index p)) = p"
  by (cases p) (simp_all add: policies_def policies_vec_def)

lemma fusefuncs_enum: "ff_enum (fusefuncs (ff_index f)) = f"
  by (cases f) (simp_all add: fusefuncs_def fusefuncs_vec_def)

section \<open>Lookup by name\<close>

lemma find_unique:
  "i \<in> set xs \<Longrightarrow> P i \<Longrightarrow> (\<And>j. j \<in> set xs \<Longrightarrow> P j \<Longrightarrow> j = i) \<Longrightarrow> find P xs = Some i"
proof (induction xs)
  case (Cons x xs)
  show ?case
  proof (cases "P x")
    case True
    then have "x = i" by (intro Cons.prems(3)) simp_all
    then show ?thesis using True by simp
  next
    case False
    then have "i \<in> set xs" using Cons.prems(1,2) by auto
    then have "find P xs = Some i"
      by (rule Cons.IH) (use Cons.prems(2,3) in \<open>simp_all\<close>)
    then show ?thesis using False by simp
  qed
qed simp

lemma table_names_distinct:
  "distinct (map cat_str categories_vec)"
  "distinct (map pol_str policies_vec)"
  "distinct (map ff_str fusefuncs_vec)"
  by (simp_all add: categories_vec_def policies_vec_def fusefuncs_vec_def)

lemma table_lengths:
  "length categories_vec = Suc CAT_END" "length policies_vec = Suc POL_END"
  "length fusefuncs_vec = Suc FF_END"
  by (simp_all add: categories_vec_def policies_vec_def fusefuncs_vec_def)

lemma vec_name_unique:
  assumes "distinct (map name xs)" "length xs = Suc n" "i < n" "j < n"
    and "name (xs ! nat (int j + 1)) = name (xs ! nat (int i + 1))"
  shows "j = i"
proof -
  have "map name xs ! (j + 1) = map name xs ! (i + 1)"
    using assms by (simp add: nat_add_distrib)
  then show ?thesis
    using assms nth_eq_iff_index_eq [OF assms(1), of "j + 1" "i + 1"] by simp
qed

lemma find_index:
  fixes n :: nat
  assumes "i < n" "\<And>k. k < n \<Longrightarrow> f (int k) = f (int i) \<Longrightarrow> k = i"
  shows "find (\<lambda>j. f j = f (int i)) (map int [0 ..< n]) = Some (int i)"
  by (rule find_unique) (use assms in \<open>auto intro: assms(2)\<close>)

lemma find_no_index:
  fixes n :: nat
  shows "(\<And>i. i < n \<Longrightarrow> f (int i) \<noteq> str) \<Longrightarrow> find (\<lambda>j. f j = str) (map int [0 ..< n]) = None"
  unfolding find_None_iff by force

lemma Category_find_found:
  assumes "i < CAT_END"
  shows "Category_find (cat_str (categories (int i))) = categories (int i)"
proof -
  have "find (\<lambda>j. cat_str (categories j) = cat_str (categories (int i))) (map int [0 ..< CAT_END]) = Some (int i)"
    by (rule find_index [OF assms],
        rule vec_name_unique [OF table_names_distinct(1) table_lengths(1) assms])
      (simp_all only: categories_def)
  then show ?thesis by (simp only: Category_find_def option.case)
qed

lemma Category_find_not_found:
  assumes "\<And>i. i < CAT_END \<Longrightarrow> cat_str (categories (int i)) \<noteq> str"
  shows "Category_find str = categories (- 1)"
proof -
  have "find (\<lambda>i. cat_str (categories i) = str) (map int [0 ..< CAT_END]) = None"
    by (rule find_no_index) (rule assms)
  then show ?thesis by (simp only: Category_find_def option.case)
qed

lemma Policy_find_found:
  assumes "i < POL_END"
  shows "Policy_find (pol_str (policies (int i))) = policies (int i)"
proof -
  have "find (\<lambda>j. pol_str (policies j) = pol_str (policies (int i))) (map int [0 ..< POL_END]) = Some (int i)"
    by (rule find_index [OF assms],
        rule vec_name_unique [OF table_names_distinct(2) table_lengths(2) assms])
      (simp_all only: policies_def)
  then show ?thesis by (simp only: Policy_find_def option.case)
qed

lemma Policy_find_not_found:
  assumes "\<And>i. i < POL_END \<Longrightarrow> pol_str (policies (int i)) \<noteq> str"
  shows "Policy_find str = policies (- 1)"
proof -
  have "find (\<lambda>i. pol_str (policies i) = str) (map int [0 ..< POL_END]) = None"
    by (rule find_no_index) (rule assms)
  then show ?thesis by (simp only: Policy_find_def option.case)
qed

lemma FuseFunc_find_found:
  assumes "i < FF_END"
  shows "FuseFunc_find (ff_str (fusefuncs (int i))) = fusefuncs (int i)"
proof -
  have "find (\<lambda>j. ff_str (fusefuncs j) = ff_str (fusefuncs (int i))) (map int [0 ..< FF_END]) = Some (int i)"
    by (rule find_index [OF assms],
        rule vec_name_unique [OF table_names_distinct(3) table_lengths(3) assms])
      (simp_all only: fusefuncs_def)
  then show ?thesis by (simp only: FuseFunc_find_def option.case)
qed

lemma FuseFunc_find_not_found:
  assumes "\<And>i. i < FF_END \<Longrightarrow> ff_str (fusefuncs (int i)) \<noteq> str"
  shows "FuseFunc_find str = fusefuncs (- 1)"
proof -
  have "find (\<lambda>i. ff_str (fusefuncs i) = str) (map int [0 ..< FF_END]) = None"
    by (rule find_no_index) (rule assms)
  then show ?thesis by (simp only: FuseFunc_find_def option.case)
qed

text \<open>The entry of an enumerator, and every enumerator but \<^verbatim>\<open>invalid\<close> as an index.\<close>

definition policy_of :: "Policy_Type \<Rightarrow> Policy" where
  "policy_of p = policies (pol_index p)"

lemma pol_index_nat: "p \<noteq> Pol_invalid \<Longrightarrow> \<exists>i < POL_END. pol_index p = int i"
proof -
  assume "p \<noteq> Pol_invalid"
  then have "0 \<le> pol_index p \<and> pol_index p < int POL_END" by (cases p) simp_all
  then show ?thesis by (intro exI [of _ "nat (pol_index p)"]) (simp add: nat_less_iff)
qed

lemma pol_index_onto: "i < POL_END \<Longrightarrow> \<exists>p. pol_index p = int i"
proof -
  assume "i < POL_END"
  then have "i = 0 \<or> i = 1 \<or> i = 2 \<or> i = 3 \<or> i = 4 \<or> i = 5 \<or> i = 6 \<or> i = 7 \<or> i = 8 \<or> i = 9 \<or> i = 10
    \<or> i = 11 \<or> i = 12 \<or> i = 13" by presburger
  moreover have "\<exists>p. pol_index p = 0" "\<exists>p. pol_index p = 1" "\<exists>p. pol_index p = 2" "\<exists>p. pol_index p = 3"
    "\<exists>p. pol_index p = 4" "\<exists>p. pol_index p = 5" "\<exists>p. pol_index p = 6" "\<exists>p. pol_index p = 7"
    "\<exists>p. pol_index p = 8" "\<exists>p. pol_index p = 9" "\<exists>p. pol_index p = 10" "\<exists>p. pol_index p = 11"
    "\<exists>p. pol_index p = 12" "\<exists>p. pol_index p = 13"
    by (rule exI, rule pol_index.simps)+
  ultimately show ?thesis by (elim disjE) simp_all
qed

end
