(* ===== verification/Policy_Loops.thy ===== *)
theory Policy_Loops
  imports Policy_Base
begin

text \<open>
  The common shape of the policy loops. Every policy walks the branches in order, asks each
  whether it qualifies and, if so, for a figure to compare; a branch that does not
  qualify contributes an error number, and \<^verbatim>\<open>policy::calc_error\<close> keeps the most telling one. The
  answers come from system calls and from the statvfs cache, whose entry the query
  may renew, so a query is a state transformer.

  The locale \<open>observer\<close> is the contract between the loops and such a query: the query of one
  branch does not change the answer of an independent one. Inside it each
  loop is proved equal to a list function of the answers at the start of the loop.
\<close>

section \<open>The error ranking\<close>

definition calc_error :: "int \<Rightarrow> int \<Rightarrow> int" where
  "calc_error cur err =
     (if cur = ENOENT then err
      else if cur = ENOSPC then (if err \<noteq> ENOENT then err else cur)
      else if cur = EROFS then (if err \<noteq> ENOENT \<and> err \<noteq> ENOSPC then err else cur)
      else err)"

definition policy_errno :: "int \<Rightarrow> bool" where
  "policy_errno e \<longleftrightarrow> e = ENOENT \<or> e = ENOSPC \<or> e = EROFS"

definition worst_error :: "int list \<Rightarrow> int" where
  "worst_error es =
     (if EROFS \<in> set es then EROFS else if ENOSPC \<in> set es then ENOSPC else ENOENT)"

lemma calc_error_rank:
  "policy_errno cur \<Longrightarrow> policy_errno err \<Longrightarrow> calc_error cur err = worst_error [cur, err]"
  by (auto simp: policy_errno_def calc_error_def worst_error_def)

lemma foldl_calc_error:
  assumes "policy_errno cur" and "\<forall>e \<in> set es. policy_errno e"
  shows "foldl calc_error cur es = worst_error (cur # es)"
  using assms
proof (induction es arbitrary: cur)
  case Nil
  then show ?case by (auto simp: worst_error_def policy_errno_def)
next
  case (Cons e es)
  then have "policy_errno (calc_error cur e)"
    by (simp add: calc_error_rank) (simp add: worst_error_def policy_errno_def)
  then show ?case using Cons
    by (auto simp: calc_error_rank worst_error_def policy_errno_def)
qed

section \<open>Loop bodies over a query\<close>

type_synonym ('s, 'i) query = "Branch \<Rightarrow> 's \<Rightarrow> (int + 'i) \<times> 's"

definition collect_body ::
  "('s, 'i) query \<Rightarrow> Branch \<Rightarrow> int \<times> string list \<Rightarrow> 's \<Rightarrow> (int \<times> string list) \<times> 's" where
  "collect_body obs b acc s =
     (case acc of (error, paths) \<Rightarrow>
        (case obs b s of
           (Inl e, s') \<Rightarrow> ((calc_error error e, paths), s')
         | (Inr i, s') \<Rightarrow> ((error, paths @ [br_path b]), s')))"

definition first_body ::
  "('s, 'i) query \<Rightarrow> Branch \<Rightarrow> int \<Rightarrow> 's \<Rightarrow> (int + string) \<times> 's" where
  "first_body obs b error s =
     (case obs b s of
        (Inl e, s') \<Rightarrow> (Inl (calc_error error e), s')
      | (Inr i, s') \<Rightarrow> (Inr (br_path b), s'))"

definition best_body ::
  "('k \<Rightarrow> 'k \<Rightarrow> bool) \<Rightarrow> ('s, 'k) query \<Rightarrow> Branch \<Rightarrow> int \<times> 'k \<times> string option \<Rightarrow> 's \<Rightarrow>
   (int \<times> 'k \<times> string option) \<times> 's" where
  "best_body worse obs b acc s =
     (case acc of (error, best, basepath) \<Rightarrow>
        (case obs b s of
           (Inl e, s') \<Rightarrow> ((calc_error error e, best, basepath), s')
         | (Inr k, s') \<Rightarrow>
             if worse k best then ((error, best, basepath), s')
             else ((error, k, Some (br_path b)), s')))"

section \<open>The same loops on the answers\<close>

definition errors_of :: "(Branch \<Rightarrow> int + 'i) \<Rightarrow> Branch list \<Rightarrow> int list" where
  "errors_of v bs = concat (map (\<lambda>b. case v b of Inl e \<Rightarrow> [e] | Inr _ \<Rightarrow> []) bs)"

definition qualifies :: "(Branch \<Rightarrow> int + 'i) \<Rightarrow> Branch \<Rightarrow> bool" where
  "qualifies v b \<longleftrightarrow> (case v b of Inl _ \<Rightarrow> False | Inr _ \<Rightarrow> True)"

fun best_of :: "('k \<Rightarrow> 'k \<Rightarrow> bool) \<Rightarrow> (Branch \<Rightarrow> int + 'k) \<Rightarrow> Branch list \<Rightarrow> 'k \<times> string option \<Rightarrow> 'k \<times> string option" where
  "best_of worse v [] acc = acc"
| "best_of worse v (b # bs) acc =
     best_of worse v bs
       (case v b of
          Inl _ \<Rightarrow> acc
        | Inr k \<Rightarrow> if worse k (fst acc) then acc else (k, Some (br_path b)))"

lemma qualifies_answer [simp]:
  "v b = Inl e \<Longrightarrow> \<not> qualifies v b"
  "v b = Inr i \<Longrightarrow> qualifies v b"
  by (simp_all add: qualifies_def)

lemma body_answers:
  "obs b s = (Inl e, s') \<Longrightarrow> collect_body obs b (error, paths) s = ((calc_error error e, paths), s')"
  "obs b s = (Inr i, s') \<Longrightarrow> collect_body obs b (error, paths) s = ((error, paths @ [br_path b]), s')"
  "obs b s = (Inl e, s') \<Longrightarrow> first_body obs b error s = (Inl (calc_error error e), s')"
  "obs b s = (Inr i, s') \<Longrightarrow> first_body obs b error s = (Inr (br_path b), s')"
  "obs b s = (Inl e, s') \<Longrightarrow>
     best_body worse obs b (error, best, basepath) s = ((calc_error error e, best, basepath), s')"
  "obs b s = (Inr k, s') \<Longrightarrow>
     best_body worse obs b (error, best, basepath) s =
       (if worse k best then ((error, best, basepath), s') else ((error, k, Some (br_path b)), s'))"
  by (simp_all add: collect_body_def first_body_def best_body_def)

lemma errors_of_simps [simp]:
  "errors_of v [] = []"
  "errors_of v (b # bs) = (case v b of Inl e \<Rightarrow> e # errors_of v bs | Inr _ \<Rightarrow> errors_of v bs)"
  by (auto simp: errors_of_def split: sum.splits)

lemma errors_of_cong: "(\<And>b. b \<in> set bs \<Longrightarrow> v b = v' b) \<Longrightarrow> errors_of v bs = errors_of v' bs"
  by (induction bs) (auto split: sum.splits)

lemma best_of_cong:
  "(\<And>b. b \<in> set bs \<Longrightarrow> v b = v' b) \<Longrightarrow> best_of worse v bs acc = best_of worse v' bs acc"
proof (induction bs arbitrary: acc)
  case (Cons b bs)
  then have "v b = v' b" by simp
  then show ?case using Cons by (simp del: sum.case_cong split: sum.splits)
qed simp

section \<open>The contract\<close>

locale observer =
  fixes obs :: "('s, 'i) query"
    and indep :: "'s \<Rightarrow> Branch \<Rightarrow> Branch \<Rightarrow> bool"
  assumes obs_frame: "indep s b c \<Longrightarrow> fst (obs c (snd (obs b s))) = fst (obs c s)"
    and indep_frame: "indep (snd (obs d s)) = indep s"
begin

lemma view_after:
  "\<forall>c \<in> set bs. indep s b c \<Longrightarrow> c \<in> set bs \<Longrightarrow> obs b s = (r, s') \<Longrightarrow> fst (obs c s') = fst (obs c s)"
  using obs_frame [of s b c] by simp

lemma indep_after: "obs b s = (r, s') \<Longrightarrow> indep s' = indep s"
  using indep_frame [of b s] by simp

lemma collect_loop:
  "sorted_wrt (indep s) bs \<Longrightarrow>
   fst (for_each (collect_body obs) bs (error, paths) s) =
     (foldl calc_error error (errors_of (\<lambda>b. fst (obs b s)) bs),
      paths @ map br_path (filter (qualifies (\<lambda>b. fst (obs b s))) bs))"
proof (induction bs arbitrary: error paths s)
  case Nil
  then show ?case by simp
next
  case (Cons b bs)
  obtain r s' where o: "obs b s = (r, s')" by fastforce
  have after: "fst (obs c s') = fst (obs c s)" if "c \<in> set bs" for c
    using Cons.prems that o by (auto intro: view_after)
  have errs: "errors_of (\<lambda>c. fst (obs c s')) bs = errors_of (\<lambda>c. fst (obs c s)) bs"
    by (rule errors_of_cong) (rule after)
  have quals: "filter (qualifies (\<lambda>c. fst (obs c s'))) bs = filter (qualifies (\<lambda>c. fst (obs c s))) bs"
    using after by (intro filter_cong) (auto simp: qualifies_def)
  have sorted: "sorted_wrt (indep s') bs" using Cons.prems indep_after [OF o] by simp
  show ?case
    using Cons.IH [OF sorted] errs quals o
    by (cases r) (simp_all add: body_answers)
qed

lemma first_loop:
  "sorted_wrt (indep s) bs \<Longrightarrow>
   fst (for_until (first_body obs) bs error s) =
     (case find (qualifies (\<lambda>b. fst (obs b s))) bs of
        None \<Rightarrow> Inl (foldl calc_error error (errors_of (\<lambda>b. fst (obs b s)) bs))
      | Some b \<Rightarrow> Inr (br_path b))"
proof (induction bs arbitrary: error s)
  case Nil
  then show ?case by simp
next
  case (Cons b bs)
  obtain r s' where o: "obs b s = (r, s')" by fastforce
  have after: "fst (obs c s') = fst (obs c s)" if "c \<in> set bs" for c
    using Cons.prems that o by (auto intro: view_after)
  have errs: "errors_of (\<lambda>c. fst (obs c s')) bs = errors_of (\<lambda>c. fst (obs c s)) bs"
    by (rule errors_of_cong) (rule after)
  have fnd: "find (qualifies (\<lambda>c. fst (obs c s'))) bs = find (qualifies (\<lambda>c. fst (obs c s))) bs"
    using after by (intro find_cong) (auto simp: qualifies_def)
  have sorted: "sorted_wrt (indep s') bs" using Cons.prems indep_after [OF o] by simp
  show ?case
    using Cons.IH [OF sorted] errs fnd o
    by (cases r) (simp_all add: body_answers split: option.splits)
qed

lemma best_loop:
  "sorted_wrt (indep s) bs \<Longrightarrow>
   fst (for_each (best_body worse obs) bs (error, best, basepath) s) =
     (foldl calc_error error (errors_of (\<lambda>b. fst (obs b s)) bs),
      best_of worse (\<lambda>b. fst (obs b s)) bs (best, basepath))"
proof (induction bs arbitrary: error best basepath s)
  case Nil
  then show ?case by simp
next
  case (Cons b bs)
  obtain r s' where o: "obs b s = (r, s')" by fastforce
  have after: "fst (obs c s') = fst (obs c s)" if "c \<in> set bs" for c
    using Cons.prems that o by (auto intro: view_after)
  have errs: "errors_of (\<lambda>c. fst (obs c s')) bs = errors_of (\<lambda>c. fst (obs c s)) bs"
    by (rule errors_of_cong) (rule after)
  have bst: "best_of worse (\<lambda>c. fst (obs c s')) bs acc = best_of worse (\<lambda>c. fst (obs c s)) bs acc" for acc
    by (rule best_of_cong) (rule after)
  have sorted: "sorted_wrt (indep s') bs" using Cons.prems indep_after [OF o] by simp
  show ?case
    using Cons.IH [OF sorted] errs bst o
    by (cases r) (simp_all add: body_answers)
qed

end

section \<open>Choosing by a figure\<close>

text \<open>
  \<open>worse k best\<close> is the test on which the code skips a branch, \<open>le\<close> the order it
  stands for and \<open>start\<close> the value the running best begins with.
\<close>

locale ranking =
  fixes worse :: "'k \<Rightarrow> 'k \<Rightarrow> bool" and le :: "'k \<Rightarrow> 'k \<Rightarrow> bool" and start :: 'k
  assumes le_refl: "le k k"
    and le_trans: "le i j \<Longrightarrow> le j k \<Longrightarrow> le i k"
    and worse_le: "worse k m \<Longrightarrow> le k m"
    and better_le: "\<not> worse k m \<Longrightarrow> le m k"
    and start_le: "le start k"
    and worse_mono: "worse k m \<Longrightarrow> le m n \<Longrightarrow> worse k n"
begin

lemma best_of_mono: "le (fst acc) (fst (best_of worse v bs acc))"
proof (induction bs arbitrary: acc)
  case (Cons b bs)
  then show ?case
    by (auto split: sum.splits intro: le_trans better_le)
qed (simp add: le_refl)

lemma best_of_upper: "b \<in> set bs \<Longrightarrow> v b = Inr k \<Longrightarrow> le k (fst (best_of worse v bs acc))"
proof (induction bs arbitrary: acc)
  case (Cons c bs)
  show ?case
  proof (cases "b = c")
    case True
    then show ?thesis
      using Cons.prems best_of_mono [of acc v bs] best_of_mono [of "(k, Some (br_path c))" v bs]
      by (auto intro: le_trans worse_le)
  next
    case False
    then show ?thesis using Cons by simp
  qed
qed simp

lemma best_of_chosen:
  "best_of worse v bs acc = (k, p) \<Longrightarrow>
   (k, p) = acc \<or> (\<exists>b \<in> set bs. v b = Inr k \<and> p = Some (br_path b))"
proof (induction bs arbitrary: acc)
  case (Cons c bs)
  show ?case
  proof (cases "v c")
    case (Inl e)
    then show ?thesis using Cons.IH [of acc] Cons.prems by auto
  next
    case (Inr j)
    then show ?thesis
      using Cons.IH [of acc] Cons.IH [of "(j, Some (br_path c))"] Cons.prems
      by (auto split: if_splits)
  qed
qed simp

lemma best_of_some:
  "b \<in> set bs \<Longrightarrow> v b = Inr k \<Longrightarrow> \<not> worse k start \<Longrightarrow>
   snd (best_of worse v bs (start, None)) \<noteq> None"
proof -
  have keep: "\<exists>y. snd (best_of worse v cs (m, Some p)) = Some y" for cs m p
    by (induction cs arbitrary: m p) (auto split: sum.splits)
  show "b \<in> set bs \<Longrightarrow> v b = Inr k \<Longrightarrow> \<not> worse k start \<Longrightarrow>
   snd (best_of worse v bs (start, None)) \<noteq> None"
    by (induction bs) (auto simp: keep split: sum.splits)
qed

lemma best_of_not_worse:
  "best_of worse v bs acc = (k, Some q) \<Longrightarrow> le start (fst acc) \<Longrightarrow>
   (snd acc \<noteq> None \<longrightarrow> \<not> worse (fst acc) start) \<Longrightarrow> \<not> worse k start"
proof (induction bs arbitrary: acc)
  case (Cons c bs)
  show ?case
  proof (cases "v c")
    case (Inl e)
    then show ?thesis using Cons.IH [of acc] Cons.prems by auto
  next
    case (Inr j)
    have "\<not> worse j start" if "\<not> worse j (fst acc)"
      using that Cons.prems(2) worse_mono by blast
    then show ?thesis
      using Cons.IH [of acc] Cons.IH [of "(j, Some (br_path c))"] Cons.prems Inr start_le
      by (auto split: if_splits)
  qed
qed auto

text \<open>The chosen branch qualifies and no qualifying branch ranks above it.\<close>

lemma best_of_best:
  assumes "snd (best_of worse v bs (start, None)) = Some p"
  obtains b k where "b \<in> set bs" "br_path b = p" "v b = Inr k" "\<not> worse k start"
    "\<And>c j. c \<in> set bs \<Longrightarrow> v c = Inr j \<Longrightarrow> le j k"
proof -
  obtain k where k: "best_of worse v bs (start, None) = (k, Some p)"
    using assms by (cases "best_of worse v bs (start, None)") auto
  then obtain b where "b \<in> set bs" "v b = Inr k" "br_path b = p"
    using best_of_chosen [OF k] by auto
  moreover have "le j k" if "c \<in> set bs" "v c = Inr j" for c j
    using best_of_upper [of c bs v j "(start, None)"] that k by simp
  moreover have "\<not> worse k start"
    using best_of_not_worse [OF k] by (simp add: le_refl)
  ultimately show thesis using that by blast
qed

lemma best_of_none:
  assumes "snd (best_of worse v bs (start, None)) = None" and "b \<in> set bs" "v b = Inr k"
  shows "worse k start"
  using best_of_some assms by blast

end

interpretation most_space: ranking "(<) :: u64 \<Rightarrow> u64 \<Rightarrow> bool" "(\<le>)" 0
  by unfold_locales auto

interpretation least_space: ranking "(>) :: u64 \<Rightarrow> u64 \<Rightarrow> bool" "(\<ge>)" U64_MAX
  by unfold_locales auto

interpretation least_used: ranking "(\<ge>) :: u64 \<Rightarrow> u64 \<Rightarrow> bool" "(\<ge>)" U64_MAX
  by unfold_locales auto

interpretation newest: ranking "\<lambda>t m :: time_t. sint t < sint m" "\<lambda>t m. sint t \<le> sint m" TIME_T_MIN
  by unfold_locales auto

end
