(* ===== verification/Policy_Queries.thy ===== *)
theory Policy_Queries
  imports Policy_Loops
begin

text \<open>
  The chains of tests the policies put to a branch, as queries in the sense of \<open>observer\<close>, and
  the proofs that they meet its contract: two branches are independent when their
  paths differ, or when the statvfs cache is off. The predicates \<open>can_create\<close>, \<open>can_act\<close> and
  \<open>has_path\<close> say what passing each chain means.
\<close>

section \<open>The queries\<close>

definition create_query :: "'w os \<Rightarrow> u64 \<Rightarrow> ('w sys, info_t) query" where
  "create_query os minfreespace b s =
     (if ro_or_nc b then (Inl EROFS, s)
      else case fs_info os (br_path b) s of
             (None, s') \<Rightarrow> (Inl ENOENT, s')
           | (Some i, s') \<Rightarrow>
               if readonly i then (Inl EROFS, s')
               else if spaceavail i < minfreespace then (Inl ENOSPC, s')
               else (Inr i, s'))"

definition action_query :: "'w os \<Rightarrow> ('w sys, info_t) query" where
  "action_query os b s =
     (if ro b then (Inl EROFS, s)
      else case fs_info os (br_path b) s of
             (None, s') \<Rightarrow> (Inl ENOENT, s')
           | (Some i, s') \<Rightarrow> if readonly i then (Inl EROFS, s') else (Inr i, s'))"

definition action_ro_query :: "'w os \<Rightarrow> ('w sys, unit) query" where
  "action_ro_query os b s =
     (if ro b then (Inl EROFS, s)
      else case statvfs_cache_readonly os (br_path b) s of
             (None, s') \<Rightarrow> (Inl ENOENT, s')
           | (Some r, s') \<Rightarrow> if r then (Inl EROFS, s') else (Inr (), s'))"

definition any_query :: "('w sys, unit) query" where
  "any_query b s = (Inr (), s)"

definition avail_query :: "'w os \<Rightarrow> ('w sys, u64) query" where
  "avail_query os b s =
     (case statvfs_cache_spaceavail os (br_path b) s of
        (None, s') \<Rightarrow> (Inl ENOENT, s')
      | (Some x, s') \<Rightarrow> (Inr x, s'))"

definition used_query :: "'w os \<Rightarrow> ('w sys, u64) query" where
  "used_query os b s =
     (case statvfs_cache_spaceused os (br_path b) s of
        (None, s') \<Rightarrow> (Inl ENOENT, s')
      | (Some x, s') \<Rightarrow> (Inr x, s'))"

text \<open>A chain that first asks for the path on the branch, and a chain reduced to one figure.\<close>

definition at_path :: "'w os \<Rightarrow> string \<Rightarrow> ('w sys, 'i) query \<Rightarrow> ('w sys, 'i) query" where
  "at_path os fusepath q b s =
     (case fs_exists os (br_path b) fusepath s of
        (False, s') \<Rightarrow> (Inl ENOENT, s')
      | (True, s') \<Rightarrow> q b s')"

definition figure :: "('i \<Rightarrow> 'k) \<Rightarrow> ('w sys, 'i) query \<Rightarrow> ('w sys, 'k) query" where
  "figure f q b s =
     (case q b s of (Inl e, s') \<Rightarrow> (Inl e, s') | (Inr i, s') \<Rightarrow> (Inr (f i), s'))"

section \<open>They are local\<close>

definition branch_indep :: "'w sys \<Rightarrow> Branch \<Rightarrow> Branch \<Rightarrow> bool" where
  "branch_indep s b c \<longleftrightarrow> g_timeout s = 0 \<or> br_path b \<noteq> br_path c"

definition same_view :: "string \<Rightarrow> 'w sys \<Rightarrow> 'w sys \<Rightarrow> bool" where
  "same_view pth s t \<longleftrightarrow>
     world t = world s \<and> g_timeout t = g_timeout s
     \<and> (g_timeout s = 0 \<or> g_cache t pth = g_cache s pth)"

definition local_query :: "('w sys, 'i) query \<Rightarrow> bool" where
  "local_query q \<longleftrightarrow>
     (\<forall>b s. only_at (br_path b) s (snd (q b s)))
     \<and> (\<forall>b s t. same_view (br_path b) s t \<longrightarrow> fst (q b t) = fst (q b s))"

lemma same_view_statvfs_cache:
  "same_view pth s t \<Longrightarrow> fst (statvfs_cache os pth t) = fst (statvfs_cache os pth s)"
  using statvfs_cache_local [of t s pth os] statvfs_cache_local_timeout0 [of t s os pth]
  by (auto simp: same_view_def)

lemma same_view_fs_exists:
  "same_view pth s t \<Longrightarrow> fst (fs_exists os b p t) = fst (fs_exists os b p s)"
  "same_view pth s t \<Longrightarrow> fst (fs_exists_st os b p t) = fst (fs_exists_st os b p s)"
  by (auto simp: same_view_def fst_fs_exists)

lemma same_view_trans_only_at:
  "same_view pth s t \<Longrightarrow> only_at q s s' \<Longrightarrow> only_at q t t' \<Longrightarrow>
   g_cache s' pth = g_cache s pth \<Longrightarrow> g_cache t' pth = g_cache t pth \<Longrightarrow> same_view pth s' t'"
  by (auto simp: same_view_def only_at_def)

text \<open>How each query reads: its answer and the state it leaves.\<close>

lemma create_query_eq:
  "fst (create_query os m b s) =
     (if ro_or_nc b then Inl EROFS
      else case fst (fs_info os (br_path b) s) of
             None \<Rightarrow> Inl ENOENT
           | Some i \<Rightarrow> if readonly i then Inl EROFS
                       else if spaceavail i < m then Inl ENOSPC else Inr i)"
  "snd (create_query os m b s) = (if ro_or_nc b then s else snd (statvfs_cache os (br_path b) s))"
  unfolding snd_queries(1) [symmetric]
  by (auto simp: create_query_def simp del: snd_queries split: prod.splits option.splits)

lemma action_query_eq:
  "fst (action_query os b s) =
     (if ro b then Inl EROFS
      else case fst (fs_info os (br_path b) s) of
             None \<Rightarrow> Inl ENOENT
           | Some i \<Rightarrow> if readonly i then Inl EROFS else Inr i)"
  "snd (action_query os b s) = (if ro b then s else snd (statvfs_cache os (br_path b) s))"
  unfolding snd_queries(1) [symmetric]
  by (auto simp: action_query_def simp del: snd_queries split: prod.splits option.splits)

lemma action_ro_query_eq:
  "fst (action_ro_query os b s) =
     (if ro b then Inl EROFS
      else case fst (statvfs_cache_readonly os (br_path b) s) of
             None \<Rightarrow> Inl ENOENT
           | Some r \<Rightarrow> if r then Inl EROFS else Inr ())"
  "snd (action_ro_query os b s) = (if ro b then s else snd (statvfs_cache os (br_path b) s))"
  unfolding snd_queries(2) [symmetric]
  by (auto simp: action_ro_query_def simp del: snd_queries split: prod.splits option.splits)

lemma avail_query_eq:
  "fst (avail_query os b s) =
     (case fst (statvfs_cache_spaceavail os (br_path b) s) of None \<Rightarrow> Inl ENOENT | Some x \<Rightarrow> Inr x)"
  "snd (avail_query os b s) = snd (statvfs_cache os (br_path b) s)"
  unfolding snd_queries(3) [symmetric]
  by (auto simp: avail_query_def simp del: snd_queries split: prod.splits option.splits)

lemma used_query_eq:
  "fst (used_query os b s) =
     (case fst (statvfs_cache_spaceused os (br_path b) s) of None \<Rightarrow> Inl ENOENT | Some x \<Rightarrow> Inr x)"
  "snd (used_query os b s) = snd (statvfs_cache os (br_path b) s)"
  unfolding snd_queries(4) [symmetric]
  by (auto simp: used_query_def simp del: snd_queries split: prod.splits option.splits)

lemma at_path_eq:
  "at_path os p q b s =
     (if fst (fs_exists os (br_path b) p s) then q b (snd (fs_exists os (br_path b) p s))
      else (Inl ENOENT, snd (fs_exists os (br_path b) p s)))"
  by (auto simp: at_path_def split: prod.splits bool.splits)

lemma figure_eq:
  "fst (figure f q b s) = map_sum id f (fst (q b s))"
  "snd (figure f q b s) = snd (q b s)"
  by (auto simp: figure_def split: prod.splits sum.splits)

lemmas query_eqs = create_query_eq action_query_eq action_ro_query_eq avail_query_eq used_query_eq

lemma local_queries [simp]:
  "local_query (create_query os m)" "local_query (action_query os)"
  "local_query (action_ro_query os)" "local_query any_query"
  "local_query (avail_query os)" "local_query (used_query os)"
  using only_at_statvfs_cache
  by (auto simp: local_query_def query_eqs any_query_def fst_fs_info fst_statvfs_cache_projections
      dest: same_view_statvfs_cache [where os = os])

lemma local_figure [simp]: "local_query q \<Longrightarrow> local_query (figure f q)"
  by (auto simp: local_query_def figure_eq)

lemma fs_exists_cache: "g_cache (snd (fs_exists os b p s)) = g_cache s"
  by (auto simp: fs_exists_def fs_exists_st_def fs_lstat_def sys_val_def
      split: prod.splits option.splits sum.splits)

lemma local_at_path [simp]:
  fixes q :: "('w sys, 'i) query"
  assumes "local_query q"
  shows "local_query (at_path os p q)"
  unfolding local_query_def
proof (intro conjI allI impI)
  fix b :: Branch and s :: "'w sys"
  show "only_at (br_path b) s (snd (at_path os p q b s))"
    using assms
    by (auto simp: at_path_eq local_query_def intro: only_at_trans [OF only_at_fs_exists(2)])
next
  fix b :: Branch and s t :: "'w sys"
  assume v: "same_view (br_path b) s t"
  let ?s = "snd (fs_exists os (br_path b) p s)" and ?t = "snd (fs_exists os (br_path b) p t)"
  have "same_view (br_path b) ?s ?t"
    by (rule same_view_trans_only_at [OF v only_at_fs_exists(2) only_at_fs_exists(2)])
      (simp_all add: fs_exists_cache)
  then show "fst (at_path os p q b t) = fst (at_path os p q b s)"
    using assms same_view_fs_exists(1) [OF v] by (simp add: at_path_eq local_query_def)
qed

lemma observer_local:
  assumes "local_query q"
  shows "observer q branch_indep"
proof
  fix s b c d
  have at: "only_at (br_path b) s (snd (q b s))" for b s
    using assms by (simp add: local_query_def)
  show "branch_indep (snd (q d s)) = branch_indep s"
    using at [of d s] by (auto simp: branch_indep_def only_at_def fun_eq_iff)
  assume "branch_indep s b c"
  then have "same_view (br_path c) s (snd (q b s))"
    using at [of b s] by (auto simp: branch_indep_def only_at_def same_view_def)
  then show "fst (q c (snd (q b s))) = fst (q c s)"
    using assms by (simp add: local_query_def)
qed

section \<open>The contract holds for every query of a policy\<close>

interpretation create_q: observer "create_query os m" branch_indep for os m
  by (rule observer_local) simp

interpretation create_fig_q: observer "figure f (create_query os m)" branch_indep for f os m
  by (rule observer_local) simp

interpretation ep_create_q: observer "at_path os p (create_query os m)" branch_indep for os p m
  by (rule observer_local) simp

interpretation ep_create_fig_q: observer "at_path os p (figure f (create_query os m))" branch_indep
  for os p f m
  by (rule observer_local) simp

interpretation ep_action_q: observer "at_path os p (action_ro_query os)" branch_indep for os p
  by (rule observer_local) simp

interpretation ep_action_fig_q: observer "at_path os p (figure f (action_query os))" branch_indep
  for os p f
  by (rule observer_local) simp

interpretation search_q: observer "at_path os p any_query" branch_indep for os p
  by (rule observer_local) simp

interpretation search_avail_q: observer "at_path os p (avail_query os)" branch_indep for os p
  by (rule observer_local) simp

interpretation search_used_q: observer "at_path os p (used_query os)" branch_indep for os p
  by (rule observer_local) simp

section \<open>What passing a chain means\<close>

definition can_create :: "'w os \<Rightarrow> u64 \<Rightarrow> 'w sys \<Rightarrow> Branch \<Rightarrow> bool" where
  "can_create os minfreespace s b \<longleftrightarrow>
     \<not> ro_or_nc b
     \<and> (case fst (fs_info os (br_path b) s) of
          None \<Rightarrow> False
        | Some i \<Rightarrow> \<not> readonly i \<and> minfreespace \<le> spaceavail i)"

definition can_act :: "'w os \<Rightarrow> 'w sys \<Rightarrow> Branch \<Rightarrow> bool" where
  "can_act os s b \<longleftrightarrow>
     \<not> ro b
     \<and> (case fst (fs_info os (br_path b) s) of None \<Rightarrow> False | Some i \<Rightarrow> \<not> readonly i)"

definition has_path :: "'w os \<Rightarrow> string \<Rightarrow> 'w sys \<Rightarrow> Branch \<Rightarrow> bool" where
  "has_path os fusepath s b \<longleftrightarrow> fst (fs_exists os (br_path b) fusepath s)"

text \<open>The branches of a pool whose queries do not disturb each other.\<close>

definition steady :: "'w sys \<Rightarrow> Branch list \<Rightarrow> bool" where
  "steady s bs \<longleftrightarrow> g_timeout s = 0 \<or> distinct (map br_path bs)"

lemma steady_sorted: "steady s bs \<Longrightarrow> sorted_wrt (branch_indep s) bs"
proof -
  assume "steady s bs"
  moreover have "distinct (map br_path bs) \<Longrightarrow> sorted_wrt (branch_indep s) bs"
    by (induction bs) (auto simp: branch_indep_def)
  moreover have "g_timeout s = 0 \<Longrightarrow> sorted_wrt (branch_indep s) bs"
    by (induction bs) (auto simp: branch_indep_def)
  ultimately show ?thesis by (auto simp: steady_def)
qed

lemma exists_then_info:
  "fst (fs_info os (br_path b) (snd (fs_exists os x p s))) = fst (fs_info os (br_path b) s)"
  using only_at_fs_exists(2) [of "br_path b" s os x p] fs_exists_cache [of os x p s]
  by (auto simp: fst_fs_info only_at_def intro!: arg_cong [where f = "map_option _"]
      same_view_statvfs_cache simp: same_view_def)

lemma exists_then_statvfs:
  "fst (statvfs_cache os q (snd (fs_exists os x p s))) = fst (statvfs_cache os q s)"
  using only_at_fs_exists(2) [of q s os x p] fs_exists_cache [of os x p s]
  by (auto simp: only_at_def intro!: same_view_statvfs_cache simp: same_view_def)

lemma create_query_Inr:
  "fst (create_query os m b s) = Inr i \<longleftrightarrow>
     can_create os m s b \<and> fst (fs_info os (br_path b) s) = Some i"
  by (auto simp: create_query_eq can_create_def not_less split: option.splits)

lemma action_query_Inr:
  "fst (action_query os b s) = Inr i \<longleftrightarrow>
     can_act os s b \<and> fst (fs_info os (br_path b) s) = Some i"
  by (auto simp: action_query_eq can_act_def split: option.splits)

lemma action_ro_query_Inr: "fst (action_ro_query os b s) = Inr u \<longleftrightarrow> can_act os s b"
  by (auto simp: action_ro_query_eq can_act_def fst_fs_info fst_statvfs_cache_projections
      split: option.splits)

lemma at_path_Inr:
  assumes "local_query q"
  shows "fst (at_path os p q b s) = Inr i \<longleftrightarrow> has_path os p s b \<and> fst (q b s) = Inr i"
proof -
  have "same_view (br_path b) s (snd (fs_exists os (br_path b) p s))"
    using only_at_fs_exists(2) [of "br_path b" s os "br_path b" p] fs_exists_cache [of os "br_path b" p s]
    by (simp add: same_view_def only_at_def)
  then have "fst (q b (snd (fs_exists os (br_path b) p s))) = fst (q b s)"
    using assms by (simp add: local_query_def)
  then show ?thesis by (simp add: at_path_eq has_path_def)
qed

lemma figure_Inr: "fst (figure f q b s) = Inr k \<longleftrightarrow> (\<exists>i. fst (q b s) = Inr i \<and> k = f i)"
  by (cases "fst (q b s)") (auto simp: figure_eq)

lemma qualifies_iff: "qualifies v b \<longleftrightarrow> (\<exists>i. v b = Inr i)"
  by (auto simp: qualifies_def split: sum.splits)

lemma query_errnos:
  "fst (create_query os m b s) = Inl e \<Longrightarrow> policy_errno e"
  "fst (action_query os b s) = Inl e \<Longrightarrow> policy_errno e"
  "fst (action_ro_query os b s) = Inl e \<Longrightarrow> policy_errno e"
  "fst (avail_query os b s) = Inl e \<Longrightarrow> policy_errno e"
  "fst (used_query os b s) = Inl e \<Longrightarrow> policy_errno e"
  "fst (any_query b s) = Inl e \<Longrightarrow> policy_errno e"
  by (auto simp: query_eqs any_query_def policy_errno_def split: if_splits option.splits)

end
