(* ===== verification/Policies.thy ===== *)
theory Policies
  imports Policy_Queries "HOL-Library.Multiset"
begin

text \<open>
  The policy functions, \<^verbatim>\<open>policy_*.cpp\<close>. A policy appends the base paths it selects to the
  vector \<^verbatim>\<open>paths\<close> it is given and returns \<open>0\<close>, or sets \<^verbatim>\<open>errno\<close> and returns \<open>-1\<close>. Each \<open>_body\<close> is the
  body of one \<^verbatim>\<open>for\<close> loop, with the tests in the order of the code; the search
  loops keep no error.
\<close>

type_synonym 'w policy_result = "int \<times> string list \<times> 'w sys"

text \<open>The three ways a policy ends.\<close>

definition return_collected :: "(int \<times> string list) \<times> 'w sys \<Rightarrow> 'w policy_result" where
  "return_collected r =
     (case r of ((error, paths), s) \<Rightarrow>
        if paths = [] then (- 1, paths, s\<lparr>errno := error\<rparr>) else (0, paths, s))"

definition return_first :: "string list \<Rightarrow> (int + string) \<times> 'w sys \<Rightarrow> 'w policy_result" where
  "return_first paths r =
     (case r of
        (Inl error, s) \<Rightarrow> (- 1, paths, s\<lparr>errno := error\<rparr>)
      | (Inr p, s) \<Rightarrow> (0, paths @ [p], s))"

definition return_best :: "string list \<Rightarrow> (int \<times> 'k \<times> string option) \<times> 'w sys \<Rightarrow> 'w policy_result" where
  "return_best paths r =
     (case r of
        ((error, best, None), s) \<Rightarrow> (- 1, paths, s\<lparr>errno := error\<rparr>)
      | ((error, best, Some p), s) \<Rightarrow> (0, paths @ [p], s))"

section \<open>all and epall\<close>

definition epall_create_body ::
  "'w os \<Rightarrow> string \<Rightarrow> u64 \<Rightarrow> Branch \<Rightarrow> int \<times> string list \<Rightarrow> 'w sys \<Rightarrow> (int \<times> string list) \<times> 'w sys" where
  "epall_create_body os fusepath minfreespace branch acc s =
     (case acc of (error, paths) \<Rightarrow>
     (case fs_exists os (br_path branch) fusepath s of
        (False, s) \<Rightarrow> ((calc_error error ENOENT, paths), s)
      | (True, s) \<Rightarrow>
     if ro_or_nc branch then ((calc_error error EROFS, paths), s) else
     (case fs_info os (br_path branch) s of
        (None, s) \<Rightarrow> ((calc_error error ENOENT, paths), s)
      | (Some info, s) \<Rightarrow>
     if readonly info then ((calc_error error EROFS, paths), s) else
     if spaceavail info < minfreespace then ((calc_error error ENOSPC, paths), s) else
     ((error, paths @ [br_path branch]), s))))"

definition epall_create ::
  "'w os \<Rightarrow> Branch list \<Rightarrow> string \<Rightarrow> u64 \<Rightarrow> string list \<Rightarrow> 'w sys \<Rightarrow> 'w policy_result" where
  "epall_create os branches fusepath minfreespace paths s =
     return_collected (for_each (epall_create_body os fusepath minfreespace) branches (ENOENT, paths) s)"

definition epall_action_body ::
  "'w os \<Rightarrow> string \<Rightarrow> Branch \<Rightarrow> int \<times> string list \<Rightarrow> 'w sys \<Rightarrow> (int \<times> string list) \<times> 'w sys" where
  "epall_action_body os fusepath branch acc s =
     (case acc of (error, paths) \<Rightarrow>
     (case fs_exists os (br_path branch) fusepath s of
        (False, s) \<Rightarrow> ((calc_error error ENOENT, paths), s)
      | (True, s) \<Rightarrow>
     if ro branch then ((calc_error error EROFS, paths), s) else
     (case statvfs_cache_readonly os (br_path branch) s of
        (None, s) \<Rightarrow> ((calc_error error ENOENT, paths), s)
      | (Some rdonly, s) \<Rightarrow>
     if rdonly then ((calc_error error EROFS, paths), s) else
     ((error, paths @ [br_path branch]), s))))"

definition epall_action ::
  "'w os \<Rightarrow> Branch list \<Rightarrow> string \<Rightarrow> string list \<Rightarrow> 'w sys \<Rightarrow> 'w policy_result" where
  "epall_action os branches fusepath paths s =
     return_collected (for_each (epall_action_body os fusepath) branches (ENOENT, paths) s)"

definition epall_search_body ::
  "'w os \<Rightarrow> string \<Rightarrow> Branch \<Rightarrow> string list \<Rightarrow> 'w sys \<Rightarrow> string list \<times> 'w sys" where
  "epall_search_body os fusepath branch paths s =
     (case fs_exists os (br_path branch) fusepath s of
        (False, s) \<Rightarrow> (paths, s)
      | (True, s) \<Rightarrow>
     (paths @ [br_path branch], s))"

definition epall_search ::
  "'w os \<Rightarrow> Branch list \<Rightarrow> string \<Rightarrow> string list \<Rightarrow> 'w sys \<Rightarrow> 'w policy_result" where
  "epall_search os branches fusepath paths s =
     (case for_each (epall_search_body os fusepath) branches paths s of
        (paths, s) \<Rightarrow> return_collected ((ENOENT, paths), s))"

definition Func_epall ::
  "'w os \<Rightarrow> Category_Type \<Rightarrow> Branch list \<Rightarrow> string \<Rightarrow> u64 \<Rightarrow> string list \<Rightarrow> 'w sys \<Rightarrow> 'w policy_result" where
  "Func_epall os type branches fusepath minfreespace paths s =
     (case type of
        Cat_create \<Rightarrow> epall_create os branches fusepath minfreespace paths s
      | Cat_action \<Rightarrow> epall_action os branches fusepath paths s
      | _ \<Rightarrow> epall_search os branches fusepath paths s)"

definition all_create_body ::
  "'w os \<Rightarrow> u64 \<Rightarrow> Branch \<Rightarrow> int \<times> string list \<Rightarrow> 'w sys \<Rightarrow> (int \<times> string list) \<times> 'w sys" where
  "all_create_body os minfreespace branch acc s =
     (case acc of (error, paths) \<Rightarrow>
     if ro_or_nc branch then ((calc_error error EROFS, paths), s) else
     (case fs_info os (br_path branch) s of
        (None, s) \<Rightarrow> ((calc_error error ENOENT, paths), s)
      | (Some info, s) \<Rightarrow>
     if readonly info then ((calc_error error EROFS, paths), s) else
     if spaceavail info < minfreespace then ((calc_error error ENOSPC, paths), s) else
     ((error, paths @ [br_path branch]), s)))"

definition all_create ::
  "'w os \<Rightarrow> Branch list \<Rightarrow> u64 \<Rightarrow> string list \<Rightarrow> 'w sys \<Rightarrow> 'w policy_result" where
  "all_create os branches minfreespace paths s =
     return_collected (for_each (all_create_body os minfreespace) branches (ENOENT, paths) s)"

definition Func_all ::
  "'w os \<Rightarrow> Category_Type \<Rightarrow> Branch list \<Rightarrow> string \<Rightarrow> u64 \<Rightarrow> string list \<Rightarrow> 'w sys \<Rightarrow> 'w policy_result" where
  "Func_all os type branches fusepath minfreespace paths s =
     (if type = Cat_create then all_create os branches minfreespace paths s
      else Func_epall os type branches fusepath minfreespace paths s)"

section \<open>ff and epff\<close>

definition epff_create_body ::
  "'w os \<Rightarrow> string \<Rightarrow> u64 \<Rightarrow> Branch \<Rightarrow> int \<Rightarrow> 'w sys \<Rightarrow> (int + string) \<times> 'w sys" where
  "epff_create_body os fusepath minfreespace branch error s =
     (case fs_exists os (br_path branch) fusepath s of
        (False, s) \<Rightarrow> (Inl (calc_error error ENOENT), s)
      | (True, s) \<Rightarrow>
     if ro_or_nc branch then (Inl (calc_error error EROFS), s) else
     (case fs_info os (br_path branch) s of
        (None, s) \<Rightarrow> (Inl (calc_error error ENOENT), s)
      | (Some info, s) \<Rightarrow>
     if readonly info then (Inl (calc_error error EROFS), s) else
     if spaceavail info < minfreespace then (Inl (calc_error error ENOSPC), s) else
     (Inr (br_path branch), s)))"

definition epff_create ::
  "'w os \<Rightarrow> Branch list \<Rightarrow> string \<Rightarrow> u64 \<Rightarrow> string list \<Rightarrow> 'w sys \<Rightarrow> 'w policy_result" where
  "epff_create os branches fusepath minfreespace paths s =
     return_first paths (for_until (epff_create_body os fusepath minfreespace) branches ENOENT s)"

definition epff_action_body ::
  "'w os \<Rightarrow> string \<Rightarrow> Branch \<Rightarrow> int \<Rightarrow> 'w sys \<Rightarrow> (int + string) \<times> 'w sys" where
  "epff_action_body os fusepath branch error s =
     (case fs_exists os (br_path branch) fusepath s of
        (False, s) \<Rightarrow> (Inl (calc_error error ENOENT), s)
      | (True, s) \<Rightarrow>
     if ro branch then (Inl (calc_error error EROFS), s) else
     (case statvfs_cache_readonly os (br_path branch) s of
        (None, s) \<Rightarrow> (Inl (calc_error error ENOENT), s)
      | (Some rdonly, s) \<Rightarrow>
     if rdonly then (Inl (calc_error error EROFS), s) else
     (Inr (br_path branch), s)))"

definition epff_action ::
  "'w os \<Rightarrow> Branch list \<Rightarrow> string \<Rightarrow> string list \<Rightarrow> 'w sys \<Rightarrow> 'w policy_result" where
  "epff_action os branches fusepath paths s =
     return_first paths (for_until (epff_action_body os fusepath) branches ENOENT s)"

definition epff_search_body ::
  "'w os \<Rightarrow> string \<Rightarrow> Branch \<Rightarrow> unit \<Rightarrow> 'w sys \<Rightarrow> (unit + string) \<times> 'w sys" where
  "epff_search_body os fusepath branch u s =
     (case fs_exists os (br_path branch) fusepath s of
        (False, s) \<Rightarrow> (Inl (), s)
      | (True, s) \<Rightarrow>
     (Inr (br_path branch), s))"

definition epff_search ::
  "'w os \<Rightarrow> Branch list \<Rightarrow> string \<Rightarrow> string list \<Rightarrow> 'w sys \<Rightarrow> 'w policy_result" where
  "epff_search os branches fusepath paths s =
     (case for_until (epff_search_body os fusepath) branches () s of
        (Inl _, s) \<Rightarrow> return_first paths (Inl ENOENT, s)
      | (Inr p, s) \<Rightarrow> return_first paths (Inr p, s))"

definition Func_epff ::
  "'w os \<Rightarrow> Category_Type \<Rightarrow> Branch list \<Rightarrow> string \<Rightarrow> u64 \<Rightarrow> string list \<Rightarrow> 'w sys \<Rightarrow> 'w policy_result" where
  "Func_epff os type branches fusepath minfreespace paths s =
     (case type of
        Cat_create \<Rightarrow> epff_create os branches fusepath minfreespace paths s
      | Cat_action \<Rightarrow> epff_action os branches fusepath paths s
      | _ \<Rightarrow> epff_search os branches fusepath paths s)"

definition ff_create_body ::
  "'w os \<Rightarrow> u64 \<Rightarrow> Branch \<Rightarrow> int \<Rightarrow> 'w sys \<Rightarrow> (int + string) \<times> 'w sys" where
  "ff_create_body os minfreespace branch error s =
     (if ro_or_nc branch then (Inl (calc_error error EROFS), s) else
     (case fs_info os (br_path branch) s of
        (None, s) \<Rightarrow> (Inl (calc_error error ENOENT), s)
      | (Some info, s) \<Rightarrow>
     if readonly info then (Inl (calc_error error EROFS), s) else
     if spaceavail info < minfreespace then (Inl (calc_error error ENOSPC), s) else
     (Inr (br_path branch), s)))"

definition ff_create ::
  "'w os \<Rightarrow> Branch list \<Rightarrow> u64 \<Rightarrow> string list \<Rightarrow> 'w sys \<Rightarrow> 'w policy_result" where
  "ff_create os branches minfreespace paths s =
     return_first paths (for_until (ff_create_body os minfreespace) branches ENOENT s)"

definition Func_ff ::
  "'w os \<Rightarrow> Category_Type \<Rightarrow> Branch list \<Rightarrow> string \<Rightarrow> u64 \<Rightarrow> string list \<Rightarrow> 'w sys \<Rightarrow> 'w policy_result" where
  "Func_ff os type branches fusepath minfreespace paths s =
     (if type = Cat_create then ff_create os branches minfreespace paths s
      else Func_epff os type branches fusepath minfreespace paths s)"

section \<open>mfs and epmfs\<close>

definition epmfs_create_body ::
  "'w os \<Rightarrow> string \<Rightarrow> u64 \<Rightarrow> Branch \<Rightarrow> int \<times> u64 \<times> string option \<Rightarrow> 'w sys \<Rightarrow>
   (int \<times> u64 \<times> string option) \<times> 'w sys" where
  "epmfs_create_body os fusepath minfreespace branch acc s =
     (case acc of (error, epmfs, epmfsbasepath) \<Rightarrow>
     (case fs_exists os (br_path branch) fusepath s of
        (False, s) \<Rightarrow> ((calc_error error ENOENT, epmfs, epmfsbasepath), s)
      | (True, s) \<Rightarrow>
     if ro_or_nc branch then ((calc_error error EROFS, epmfs, epmfsbasepath), s) else
     (case fs_info os (br_path branch) s of
        (None, s) \<Rightarrow> ((calc_error error ENOENT, epmfs, epmfsbasepath), s)
      | (Some info, s) \<Rightarrow>
     if readonly info then ((calc_error error EROFS, epmfs, epmfsbasepath), s) else
     if spaceavail info < minfreespace then ((calc_error error ENOSPC, epmfs, epmfsbasepath), s) else
     if spaceavail info < epmfs then ((error, epmfs, epmfsbasepath), s) else
     ((error, spaceavail info, Some (br_path branch)), s))))"

definition epmfs_create ::
  "'w os \<Rightarrow> Branch list \<Rightarrow> string \<Rightarrow> u64 \<Rightarrow> string list \<Rightarrow> 'w sys \<Rightarrow> 'w policy_result" where
  "epmfs_create os branches fusepath minfreespace paths s =
     return_best paths (for_each (epmfs_create_body os fusepath minfreespace) branches (ENOENT, 0, None) s)"

definition epmfs_action_body ::
  "'w os \<Rightarrow> string \<Rightarrow> Branch \<Rightarrow> int \<times> u64 \<times> string option \<Rightarrow> 'w sys \<Rightarrow>
   (int \<times> u64 \<times> string option) \<times> 'w sys" where
  "epmfs_action_body os fusepath branch acc s =
     (case acc of (error, epmfs, epmfsbasepath) \<Rightarrow>
     (case fs_exists os (br_path branch) fusepath s of
        (False, s) \<Rightarrow> ((calc_error error ENOENT, epmfs, epmfsbasepath), s)
      | (True, s) \<Rightarrow>
     if ro branch then ((calc_error error EROFS, epmfs, epmfsbasepath), s) else
     (case fs_info os (br_path branch) s of
        (None, s) \<Rightarrow> ((calc_error error ENOENT, epmfs, epmfsbasepath), s)
      | (Some info, s) \<Rightarrow>
     if readonly info then ((calc_error error EROFS, epmfs, epmfsbasepath), s) else
     if spaceavail info < epmfs then ((error, epmfs, epmfsbasepath), s) else
     ((error, spaceavail info, Some (br_path branch)), s))))"

definition epmfs_action ::
  "'w os \<Rightarrow> Branch list \<Rightarrow> string \<Rightarrow> string list \<Rightarrow> 'w sys \<Rightarrow> 'w policy_result" where
  "epmfs_action os branches fusepath paths s =
     return_best paths (for_each (epmfs_action_body os fusepath) branches (ENOENT, 0, None) s)"

definition epmfs_search_body ::
  "'w os \<Rightarrow> string \<Rightarrow> Branch \<Rightarrow> u64 \<times> string option \<Rightarrow> 'w sys \<Rightarrow> (u64 \<times> string option) \<times> 'w sys" where
  "epmfs_search_body os fusepath branch acc s =
     (case acc of (epmfs, epmfsbasepath) \<Rightarrow>
     (case fs_exists os (br_path branch) fusepath s of
        (False, s) \<Rightarrow> ((epmfs, epmfsbasepath), s)
      | (True, s) \<Rightarrow>
     (case statvfs_cache_spaceavail os (br_path branch) s of
        (None, s) \<Rightarrow> ((epmfs, epmfsbasepath), s)
      | (Some avail, s) \<Rightarrow>
     if avail < epmfs then ((epmfs, epmfsbasepath), s) else
     ((avail, Some (br_path branch)), s))))"

definition epmfs_search ::
  "'w os \<Rightarrow> Branch list \<Rightarrow> string \<Rightarrow> string list \<Rightarrow> 'w sys \<Rightarrow> 'w policy_result" where
  "epmfs_search os branches fusepath paths s =
     (case for_each (epmfs_search_body os fusepath) branches (0, None) s of
        ((epmfs, epmfsbasepath), s) \<Rightarrow> return_best paths ((ENOENT, epmfs, epmfsbasepath), s))"

definition Func_epmfs ::
  "'w os \<Rightarrow> Category_Type \<Rightarrow> Branch list \<Rightarrow> string \<Rightarrow> u64 \<Rightarrow> string list \<Rightarrow> 'w sys \<Rightarrow> 'w policy_result" where
  "Func_epmfs os type branches fusepath minfreespace paths s =
     (case type of
        Cat_create \<Rightarrow> epmfs_create os branches fusepath minfreespace paths s
      | Cat_action \<Rightarrow> epmfs_action os branches fusepath paths s
      | _ \<Rightarrow> epmfs_search os branches fusepath paths s)"

definition mfs_create_body ::
  "'w os \<Rightarrow> u64 \<Rightarrow> Branch \<Rightarrow> int \<times> u64 \<times> string option \<Rightarrow> 'w sys \<Rightarrow>
   (int \<times> u64 \<times> string option) \<times> 'w sys" where
  "mfs_create_body os minfreespace branch acc s =
     (case acc of (error, mfs, mfsbasepath) \<Rightarrow>
     if ro_or_nc branch then ((calc_error error EROFS, mfs, mfsbasepath), s) else
     (case fs_info os (br_path branch) s of
        (None, s) \<Rightarrow> ((calc_error error ENOENT, mfs, mfsbasepath), s)
      | (Some info, s) \<Rightarrow>
     if readonly info then ((calc_error error EROFS, mfs, mfsbasepath), s) else
     if spaceavail info < minfreespace then ((calc_error error ENOSPC, mfs, mfsbasepath), s) else
     if spaceavail info < mfs then ((error, mfs, mfsbasepath), s) else
     ((error, spaceavail info, Some (br_path branch)), s)))"

definition mfs_create ::
  "'w os \<Rightarrow> Branch list \<Rightarrow> u64 \<Rightarrow> string list \<Rightarrow> 'w sys \<Rightarrow> 'w policy_result" where
  "mfs_create os branches minfreespace paths s =
     return_best paths (for_each (mfs_create_body os minfreespace) branches (ENOENT, 0, None) s)"

definition Func_mfs ::
  "'w os \<Rightarrow> Category_Type \<Rightarrow> Branch list \<Rightarrow> string \<Rightarrow> u64 \<Rightarrow> string list \<Rightarrow> 'w sys \<Rightarrow> 'w policy_result" where
  "Func_mfs os type branches fusepath minfreespace paths s =
     (if type = Cat_create then mfs_create os branches minfreespace paths s
      else Func_epmfs os type branches fusepath minfreespace paths s)"

section \<open>lfs and eplfs\<close>

definition eplfs_create_body ::
  "'w os \<Rightarrow> string \<Rightarrow> u64 \<Rightarrow> Branch \<Rightarrow> int \<times> u64 \<times> string option \<Rightarrow> 'w sys \<Rightarrow>
   (int \<times> u64 \<times> string option) \<times> 'w sys" where
  "eplfs_create_body os fusepath minfreespace branch acc s =
     (case acc of (error, eplfs, eplfsbasepath) \<Rightarrow>
     (case fs_exists os (br_path branch) fusepath s of
        (False, s) \<Rightarrow> ((calc_error error ENOENT, eplfs, eplfsbasepath), s)
      | (True, s) \<Rightarrow>
     if ro_or_nc branch then ((calc_error error EROFS, eplfs, eplfsbasepath), s) else
     (case fs_info os (br_path branch) s of
        (None, s) \<Rightarrow> ((calc_error error ENOENT, eplfs, eplfsbasepath), s)
      | (Some info, s) \<Rightarrow>
     if readonly info then ((calc_error error EROFS, eplfs, eplfsbasepath), s) else
     if spaceavail info < minfreespace then ((calc_error error ENOSPC, eplfs, eplfsbasepath), s) else
     if spaceavail info > eplfs then ((error, eplfs, eplfsbasepath), s) else
     ((error, spaceavail info, Some (br_path branch)), s))))"

definition eplfs_create ::
  "'w os \<Rightarrow> Branch list \<Rightarrow> string \<Rightarrow> u64 \<Rightarrow> string list \<Rightarrow> 'w sys \<Rightarrow> 'w policy_result" where
  "eplfs_create os branches fusepath minfreespace paths s =
     return_best paths (for_each (eplfs_create_body os fusepath minfreespace) branches (ENOENT, U64_MAX, None) s)"

definition eplfs_action_body ::
  "'w os \<Rightarrow> string \<Rightarrow> Branch \<Rightarrow> int \<times> u64 \<times> string option \<Rightarrow> 'w sys \<Rightarrow>
   (int \<times> u64 \<times> string option) \<times> 'w sys" where
  "eplfs_action_body os fusepath branch acc s =
     (case acc of (error, eplfs, eplfsbasepath) \<Rightarrow>
     (case fs_exists os (br_path branch) fusepath s of
        (False, s) \<Rightarrow> ((calc_error error ENOENT, eplfs, eplfsbasepath), s)
      | (True, s) \<Rightarrow>
     if ro branch then ((calc_error error EROFS, eplfs, eplfsbasepath), s) else
     (case fs_info os (br_path branch) s of
        (None, s) \<Rightarrow> ((calc_error error ENOENT, eplfs, eplfsbasepath), s)
      | (Some info, s) \<Rightarrow>
     if readonly info then ((calc_error error EROFS, eplfs, eplfsbasepath), s) else
     if spaceavail info > eplfs then ((error, eplfs, eplfsbasepath), s) else
     ((error, spaceavail info, Some (br_path branch)), s))))"

definition eplfs_action ::
  "'w os \<Rightarrow> Branch list \<Rightarrow> string \<Rightarrow> string list \<Rightarrow> 'w sys \<Rightarrow> 'w policy_result" where
  "eplfs_action os branches fusepath paths s =
     return_best paths (for_each (eplfs_action_body os fusepath) branches (ENOENT, U64_MAX, None) s)"

definition eplfs_search_body ::
  "'w os \<Rightarrow> string \<Rightarrow> Branch \<Rightarrow> u64 \<times> string option \<Rightarrow> 'w sys \<Rightarrow> (u64 \<times> string option) \<times> 'w sys" where
  "eplfs_search_body os fusepath branch acc s =
     (case acc of (eplfs, eplfsbasepath) \<Rightarrow>
     (case fs_exists os (br_path branch) fusepath s of
        (False, s) \<Rightarrow> ((eplfs, eplfsbasepath), s)
      | (True, s) \<Rightarrow>
     (case statvfs_cache_spaceavail os (br_path branch) s of
        (None, s) \<Rightarrow> ((eplfs, eplfsbasepath), s)
      | (Some avail, s) \<Rightarrow>
     if avail > eplfs then ((eplfs, eplfsbasepath), s) else
     ((avail, Some (br_path branch)), s))))"

definition eplfs_search ::
  "'w os \<Rightarrow> Branch list \<Rightarrow> string \<Rightarrow> string list \<Rightarrow> 'w sys \<Rightarrow> 'w policy_result" where
  "eplfs_search os branches fusepath paths s =
     (case for_each (eplfs_search_body os fusepath) branches (U64_MAX, None) s of
        ((eplfs, eplfsbasepath), s) \<Rightarrow> return_best paths ((ENOENT, eplfs, eplfsbasepath), s))"

definition Func_eplfs ::
  "'w os \<Rightarrow> Category_Type \<Rightarrow> Branch list \<Rightarrow> string \<Rightarrow> u64 \<Rightarrow> string list \<Rightarrow> 'w sys \<Rightarrow> 'w policy_result" where
  "Func_eplfs os type branches fusepath minfreespace paths s =
     (case type of
        Cat_create \<Rightarrow> eplfs_create os branches fusepath minfreespace paths s
      | Cat_action \<Rightarrow> eplfs_action os branches fusepath paths s
      | _ \<Rightarrow> eplfs_search os branches fusepath paths s)"

definition lfs_create_body ::
  "'w os \<Rightarrow> u64 \<Rightarrow> Branch \<Rightarrow> int \<times> u64 \<times> string option \<Rightarrow> 'w sys \<Rightarrow>
   (int \<times> u64 \<times> string option) \<times> 'w sys" where
  "lfs_create_body os minfreespace branch acc s =
     (case acc of (error, lfs, lfsbasepath) \<Rightarrow>
     if ro_or_nc branch then ((calc_error error EROFS, lfs, lfsbasepath), s) else
     (case fs_info os (br_path branch) s of
        (None, s) \<Rightarrow> ((calc_error error ENOENT, lfs, lfsbasepath), s)
      | (Some info, s) \<Rightarrow>
     if readonly info then ((calc_error error EROFS, lfs, lfsbasepath), s) else
     if spaceavail info < minfreespace then ((calc_error error ENOSPC, lfs, lfsbasepath), s) else
     if spaceavail info > lfs then ((error, lfs, lfsbasepath), s) else
     ((error, spaceavail info, Some (br_path branch)), s)))"

definition lfs_create ::
  "'w os \<Rightarrow> Branch list \<Rightarrow> u64 \<Rightarrow> string list \<Rightarrow> 'w sys \<Rightarrow> 'w policy_result" where
  "lfs_create os branches minfreespace paths s =
     return_best paths (for_each (lfs_create_body os minfreespace) branches (ENOENT, U64_MAX, None) s)"

definition Func_lfs ::
  "'w os \<Rightarrow> Category_Type \<Rightarrow> Branch list \<Rightarrow> string \<Rightarrow> u64 \<Rightarrow> string list \<Rightarrow> 'w sys \<Rightarrow> 'w policy_result" where
  "Func_lfs os type branches fusepath minfreespace paths s =
     (if type = Cat_create then lfs_create os branches minfreespace paths s
      else Func_eplfs os type branches fusepath minfreespace paths s)"

section \<open>lus and eplus\<close>

definition eplus_create_body ::
  "'w os \<Rightarrow> string \<Rightarrow> u64 \<Rightarrow> Branch \<Rightarrow> int \<times> u64 \<times> string option \<Rightarrow> 'w sys \<Rightarrow>
   (int \<times> u64 \<times> string option) \<times> 'w sys" where
  "eplus_create_body os fusepath minfreespace branch acc s =
     (case acc of (error, eplus, eplusbasepath) \<Rightarrow>
     (case fs_exists os (br_path branch) fusepath s of
        (False, s) \<Rightarrow> ((calc_error error ENOENT, eplus, eplusbasepath), s)
      | (True, s) \<Rightarrow>
     if ro_or_nc branch then ((calc_error error EROFS, eplus, eplusbasepath), s) else
     (case fs_info os (br_path branch) s of
        (None, s) \<Rightarrow> ((calc_error error ENOENT, eplus, eplusbasepath), s)
      | (Some info, s) \<Rightarrow>
     if readonly info then ((calc_error error EROFS, eplus, eplusbasepath), s) else
     if spaceavail info < minfreespace then ((calc_error error ENOSPC, eplus, eplusbasepath), s) else
     if spaceused info \<ge> eplus then ((error, eplus, eplusbasepath), s) else
     ((error, spaceused info, Some (br_path branch)), s))))"

definition eplus_create ::
  "'w os \<Rightarrow> Branch list \<Rightarrow> string \<Rightarrow> u64 \<Rightarrow> string list \<Rightarrow> 'w sys \<Rightarrow> 'w policy_result" where
  "eplus_create os branches fusepath minfreespace paths s =
     return_best paths (for_each (eplus_create_body os fusepath minfreespace) branches (ENOENT, U64_MAX, None) s)"

definition eplus_action_body ::
  "'w os \<Rightarrow> string \<Rightarrow> Branch \<Rightarrow> int \<times> u64 \<times> string option \<Rightarrow> 'w sys \<Rightarrow>
   (int \<times> u64 \<times> string option) \<times> 'w sys" where
  "eplus_action_body os fusepath branch acc s =
     (case acc of (error, eplus, eplusbasepath) \<Rightarrow>
     (case fs_exists os (br_path branch) fusepath s of
        (False, s) \<Rightarrow> ((calc_error error ENOENT, eplus, eplusbasepath), s)
      | (True, s) \<Rightarrow>
     if ro branch then ((calc_error error EROFS, eplus, eplusbasepath), s) else
     (case fs_info os (br_path branch) s of
        (None, s) \<Rightarrow> ((calc_error error ENOENT, eplus, eplusbasepath), s)
      | (Some info, s) \<Rightarrow>
     if readonly info then ((calc_error error EROFS, eplus, eplusbasepath), s) else
     if spaceused info \<ge> eplus then ((error, eplus, eplusbasepath), s) else
     ((error, spaceused info, Some (br_path branch)), s))))"

definition eplus_action ::
  "'w os \<Rightarrow> Branch list \<Rightarrow> string \<Rightarrow> string list \<Rightarrow> 'w sys \<Rightarrow> 'w policy_result" where
  "eplus_action os branches fusepath paths s =
     return_best paths (for_each (eplus_action_body os fusepath) branches (ENOENT, U64_MAX, None) s)"

definition eplus_search_body ::
  "'w os \<Rightarrow> string \<Rightarrow> Branch \<Rightarrow> u64 \<times> string option \<Rightarrow> 'w sys \<Rightarrow> (u64 \<times> string option) \<times> 'w sys" where
  "eplus_search_body os fusepath branch acc s =
     (case acc of (eplus, eplusbasepath) \<Rightarrow>
     (case fs_exists os (br_path branch) fusepath s of
        (False, s) \<Rightarrow> ((eplus, eplusbasepath), s)
      | (True, s) \<Rightarrow>
     (case statvfs_cache_spaceused os (br_path branch) s of
        (None, s) \<Rightarrow> ((eplus, eplusbasepath), s)
      | (Some used, s) \<Rightarrow>
     if used \<ge> eplus then ((eplus, eplusbasepath), s) else
     ((used, Some (br_path branch)), s))))"

definition eplus_search ::
  "'w os \<Rightarrow> Branch list \<Rightarrow> string \<Rightarrow> string list \<Rightarrow> 'w sys \<Rightarrow> 'w policy_result" where
  "eplus_search os branches fusepath paths s =
     (case for_each (eplus_search_body os fusepath) branches (0, None) s of
        ((eplus, eplusbasepath), s) \<Rightarrow> return_best paths ((ENOENT, eplus, eplusbasepath), s))"

definition Func_eplus ::
  "'w os \<Rightarrow> Category_Type \<Rightarrow> Branch list \<Rightarrow> string \<Rightarrow> u64 \<Rightarrow> string list \<Rightarrow> 'w sys \<Rightarrow> 'w policy_result" where
  "Func_eplus os type branches fusepath minfreespace paths s =
     (case type of
        Cat_create \<Rightarrow> eplus_create os branches fusepath minfreespace paths s
      | Cat_action \<Rightarrow> eplus_action os branches fusepath paths s
      | _ \<Rightarrow> eplus_search os branches fusepath paths s)"

definition lus_create_body ::
  "'w os \<Rightarrow> u64 \<Rightarrow> Branch \<Rightarrow> int \<times> u64 \<times> string option \<Rightarrow> 'w sys \<Rightarrow>
   (int \<times> u64 \<times> string option) \<times> 'w sys" where
  "lus_create_body os minfreespace branch acc s =
     (case acc of (error, lus, lusbasepath) \<Rightarrow>
     if ro_or_nc branch then ((calc_error error EROFS, lus, lusbasepath), s) else
     (case fs_info os (br_path branch) s of
        (None, s) \<Rightarrow> ((calc_error error ENOENT, lus, lusbasepath), s)
      | (Some info, s) \<Rightarrow>
     if readonly info then ((calc_error error EROFS, lus, lusbasepath), s) else
     if spaceavail info < minfreespace then ((calc_error error ENOSPC, lus, lusbasepath), s) else
     if spaceused info \<ge> lus then ((error, lus, lusbasepath), s) else
     ((error, spaceused info, Some (br_path branch)), s)))"

definition lus_create ::
  "'w os \<Rightarrow> Branch list \<Rightarrow> u64 \<Rightarrow> string list \<Rightarrow> 'w sys \<Rightarrow> 'w policy_result" where
  "lus_create os branches minfreespace paths s =
     return_best paths (for_each (lus_create_body os minfreespace) branches (ENOENT, U64_MAX, None) s)"

definition Func_lus ::
  "'w os \<Rightarrow> Category_Type \<Rightarrow> Branch list \<Rightarrow> string \<Rightarrow> u64 \<Rightarrow> string list \<Rightarrow> 'w sys \<Rightarrow> 'w policy_result" where
  "Func_lus os type branches fusepath minfreespace paths s =
     (if type = Cat_create then lus_create os branches minfreespace paths s
      else Func_eplus os type branches fusepath minfreespace paths s)"

section \<open>newest\<close>

definition newest_create_body ::
  "'w os \<Rightarrow> string \<Rightarrow> u64 \<Rightarrow> Branch \<Rightarrow> int \<times> time_t \<times> string option \<Rightarrow> 'w sys \<Rightarrow>
   (int \<times> time_t \<times> string option) \<times> 'w sys" where
  "newest_create_body os fusepath minfreespace branch acc s =
     (case acc of (error, newest, newestbasepath) \<Rightarrow>
(case fs_exists_st os (br_path branch) fusepath s of
   (None, s) \<Rightarrow> ((calc_error error ENOENT, newest, newestbasepath), s)
 | (Some st, s) \<Rightarrow>
if ro_or_nc branch then ((calc_error error EROFS, newest, newestbasepath), s) else
if sint (st_mtime st) < sint newest then ((error, newest, newestbasepath), s) else
(case fs_info os (br_path branch) s of
   (None, s) \<Rightarrow> ((calc_error error ENOENT, newest, newestbasepath), s)
 | (Some info, s) \<Rightarrow>
if readonly info then ((calc_error error EROFS, newest, newestbasepath), s) else
if spaceavail info < minfreespace then ((calc_error error ENOSPC, newest, newestbasepath), s) else
((error, st_mtime st, Some (br_path branch)), s))))"

definition newest_create ::
  "'w os \<Rightarrow> Branch list \<Rightarrow> string \<Rightarrow> u64 \<Rightarrow> string list \<Rightarrow> 'w sys \<Rightarrow> 'w policy_result" where
  "newest_create os branches fusepath minfreespace paths s =
     return_best paths
       (for_each (newest_create_body os fusepath minfreespace) branches (ENOENT, TIME_T_MIN, None) s)"

definition newest_action_body ::
  "'w os \<Rightarrow> string \<Rightarrow> Branch \<Rightarrow> int \<times> time_t \<times> string option \<Rightarrow> 'w sys \<Rightarrow>
   (int \<times> time_t \<times> string option) \<times> 'w sys" where
  "newest_action_body os fusepath branch acc s =
     (case acc of (error, newest, newestbasepath) \<Rightarrow>
(case fs_exists_st os (br_path branch) fusepath s of
   (None, s) \<Rightarrow> ((calc_error error ENOENT, newest, newestbasepath), s)
 | (Some st, s) \<Rightarrow>
if ro branch then ((calc_error error EROFS, newest, newestbasepath), s) else
if sint (st_mtime st) < sint newest then ((error, newest, newestbasepath), s) else
(case statvfs_cache_readonly os (br_path branch) s of
   (None, s) \<Rightarrow> ((calc_error error ENOENT, newest, newestbasepath), s)
 | (Some rdonly, s) \<Rightarrow>
if rdonly then ((calc_error error EROFS, newest, newestbasepath), s) else
((error, st_mtime st, Some (br_path branch)), s))))"

definition newest_action ::
  "'w os \<Rightarrow> Branch list \<Rightarrow> string \<Rightarrow> string list \<Rightarrow> 'w sys \<Rightarrow> 'w policy_result" where
  "newest_action os branches fusepath paths s =
     return_best paths
       (for_each (newest_action_body os fusepath) branches (ENOENT, TIME_T_MIN, None) s)"

definition newest_search_body ::
  "'w os \<Rightarrow> string \<Rightarrow> Branch \<Rightarrow> time_t \<times> string option \<Rightarrow> 'w sys \<Rightarrow>
   (time_t \<times> string option) \<times> 'w sys" where
  "newest_search_body os fusepath branch acc s =
     (case acc of (newest, newestbasepath) \<Rightarrow>
(case fs_exists_st os (br_path branch) fusepath s of
   (None, s) \<Rightarrow> ((newest, newestbasepath), s)
 | (Some st, s) \<Rightarrow>
if sint (st_mtime st) < sint newest then ((newest, newestbasepath), s) else
((st_mtime st, Some (br_path branch)), s)))"

definition newest_search ::
  "'w os \<Rightarrow> Branch list \<Rightarrow> string \<Rightarrow> string list \<Rightarrow> 'w sys \<Rightarrow> 'w policy_result" where
  "newest_search os branches fusepath paths s =
     (case for_each (newest_search_body os fusepath) branches (TIME_T_MIN, None) s of
        ((newest, newestbasepath), s) \<Rightarrow> return_best paths ((ENOENT, newest, newestbasepath), s))"

definition Func_newest ::
  "'w os \<Rightarrow> Category_Type \<Rightarrow> Branch list \<Rightarrow> string \<Rightarrow> u64 \<Rightarrow> string list \<Rightarrow> 'w sys \<Rightarrow> 'w policy_result" where
  "Func_newest os type branches fusepath minfreespace paths s =
     (case type of
        Cat_create \<Rightarrow> newest_create os branches fusepath minfreespace paths s
      | Cat_action \<Rightarrow> newest_action os branches fusepath paths s
      | _ \<Rightarrow> newest_search os branches fusepath paths s)"

section \<open>rand, eprand, erofs and invalid\<close>

text \<open>
  \<^verbatim>\<open>std::random_shuffle\<close> of libstdc++: for each position from the second on, an exchange with a
  random position not after it.
\<close>

definition swap_at :: "'a list \<Rightarrow> nat \<Rightarrow> nat \<Rightarrow> 'a list" where
  "swap_at xs i j = xs[i := xs ! j, j := xs ! i]"

definition shuffle_step :: "'w os \<Rightarrow> nat \<Rightarrow> 'a list \<Rightarrow> 'w sys \<Rightarrow> 'a list \<times> 'w sys" where
  "shuffle_step os i xs s =
     (case k_rand os (world s) of (r, w) \<Rightarrow> (swap_at xs i (r mod (i + 1)), s\<lparr>world := w\<rparr>))"

definition random_shuffle :: "'w os \<Rightarrow> 'a list \<Rightarrow> 'w sys \<Rightarrow> 'a list \<times> 'w sys" where
  "random_shuffle os xs s = for_each (shuffle_step os) [1 ..< length xs] xs s"

definition Func_rand ::
  "'w os \<Rightarrow> Category_Type \<Rightarrow> Branch list \<Rightarrow> string \<Rightarrow> u64 \<Rightarrow> string list \<Rightarrow> 'w sys \<Rightarrow> 'w policy_result" where
  "Func_rand os type branches fusepath minfreespace paths s =
     (case Func_all os type branches fusepath minfreespace paths s of
        (rv, paths, s) \<Rightarrow>
          if rv = 0 then (case random_shuffle os paths s of (paths, s) \<Rightarrow> (rv, paths, s))
          else (rv, paths, s))"

definition Func_eprand ::
  "'w os \<Rightarrow> Category_Type \<Rightarrow> Branch list \<Rightarrow> string \<Rightarrow> u64 \<Rightarrow> string list \<Rightarrow> 'w sys \<Rightarrow> 'w policy_result" where
  "Func_eprand os type branches fusepath minfreespace paths s =
     (case Func_epall os type branches fusepath minfreespace paths s of
        (rv, paths, s) \<Rightarrow>
          if rv = 0 then (case random_shuffle os paths s of (paths, s) \<Rightarrow> (rv, paths, s))
          else (rv, paths, s))"

definition Func_erofs ::
  "'w os \<Rightarrow> Category_Type \<Rightarrow> Branch list \<Rightarrow> string \<Rightarrow> u64 \<Rightarrow> string list \<Rightarrow> 'w sys \<Rightarrow> 'w policy_result" where
  "Func_erofs os type branches fusepath minfreespace paths s = (- 1, paths, s\<lparr>errno := EROFS\<rparr>)"

definition Func_invalid ::
  "'w os \<Rightarrow> Category_Type \<Rightarrow> Branch list \<Rightarrow> string \<Rightarrow> u64 \<Rightarrow> string list \<Rightarrow> 'w sys \<Rightarrow> 'w policy_result" where
  "Func_invalid os type branches fusepath minfreespace paths s = (- 1, paths, s\<lparr>errno := EINVAL\<rparr>)"

section \<open>Calling a policy\<close>

text \<open>
  \<open>policy_func p\<close> is the function pointer stored in the table entry of policy \<open>p\<close>. The class
  \<^verbatim>\<open>Policy::Func::Base<T>\<close> calls it with the category \<^verbatim>\<open>T\<close> of the caller.
\<close>

definition policy_func ::
  "'w os \<Rightarrow> Policy_Type \<Rightarrow> Category_Type \<Rightarrow> Branch list \<Rightarrow> string \<Rightarrow> u64 \<Rightarrow> string list \<Rightarrow> 'w sys \<Rightarrow>
   'w policy_result" where
  "policy_func os p =
     (case p of
        Pol_invalid \<Rightarrow> Func_invalid os
      | Pol_all \<Rightarrow> Func_all os
      | Pol_epall \<Rightarrow> Func_epall os
      | Pol_epff \<Rightarrow> Func_epff os
      | Pol_eplfs \<Rightarrow> Func_eplfs os
      | Pol_eplus \<Rightarrow> Func_eplus os
      | Pol_epmfs \<Rightarrow> Func_epmfs os
      | Pol_eprand \<Rightarrow> Func_eprand os
      | Pol_erofs \<Rightarrow> Func_erofs os
      | Pol_ff \<Rightarrow> Func_ff os
      | Pol_lfs \<Rightarrow> Func_lfs os
      | Pol_lus \<Rightarrow> Func_lus os
      | Pol_mfs \<Rightarrow> Func_mfs os
      | Pol_newest \<Rightarrow> Func_newest os
      | Pol_rand \<Rightarrow> Func_rand os)"

definition Func_Base ::
  "'w os \<Rightarrow> Category_Type \<Rightarrow> Policy \<Rightarrow> Branch list \<Rightarrow> string \<Rightarrow> u64 \<Rightarrow> string list \<Rightarrow> 'w sys \<Rightarrow>
   'w policy_result" where
  "Func_Base os T p b c d e s = policy_func os (pol_enum p) T b c d e s"

definition Func_Base_string ::
  "'w os \<Rightarrow> Category_Type \<Rightarrow> Policy \<Rightarrow> Branch list \<Rightarrow> string \<Rightarrow> u64 \<Rightarrow> string \<Rightarrow> 'w sys \<Rightarrow>
   int \<times> string \<times> 'w sys" where
  "Func_Base_string os T p b c d e s =
     (case policy_func os (pol_enum p) T b c d [] s of
        (rv, v, s) \<Rightarrow> (rv, (if v \<noteq> [] then hd v else e), s))"

end
