(* ===== verification/Policy_Facts.thy ===== *)
theory Policy_Facts
  imports Policies
begin

text \<open>
  What the policies choose. Each loop body of \<^verbatim>\<open>Policies\<close> is first shown to be one of the
  generic bodies of \<^verbatim>\<open>Policy_Loops\<close> over a query of \<^verbatim>\<open>Policy_Queries\<close>; the interpretations
  of the \<open>observer\<close> and \<open>ranking\<close> contracts then give what the policy returns as a function
  of the branches. The results hold for a \<open>steady\<close> pool: branches with distinct paths, or
  the statvfs cache switched off.
\<close>

section \<open>The bodies as queries\<close>

lemmas chain_defs = collect_body_def first_body_def best_body_def at_path_def figure_def
  create_query_def action_query_def action_ro_query_def any_query_def avail_query_def used_query_def

lemma epall_create_body_eq [policy_defs]:
  "epall_create_body os p m = collect_body (at_path os p (create_query os m))"
  by (intro ext) (auto simp: epall_create_body_def chain_defs split: prod.splits option.splits bool.splits sum.splits)

lemma epall_action_body_eq [policy_defs]:
  "epall_action_body os p = collect_body (at_path os p (action_ro_query os))"
  by (intro ext) (auto simp: epall_action_body_def chain_defs split: prod.splits option.splits bool.splits sum.splits)

lemma all_create_body_eq [policy_defs]:
  "all_create_body os m = collect_body (create_query os m)"
  by (intro ext) (auto simp: all_create_body_def chain_defs split: prod.splits option.splits bool.splits sum.splits)

lemma epff_create_body_eq [policy_defs]:
  "epff_create_body os p m = first_body (at_path os p (create_query os m))"
  by (intro ext) (auto simp: epff_create_body_def chain_defs split: prod.splits option.splits bool.splits sum.splits)

lemma epff_action_body_eq [policy_defs]:
  "epff_action_body os p = first_body (at_path os p (action_ro_query os))"
  by (intro ext) (auto simp: epff_action_body_def chain_defs split: prod.splits option.splits bool.splits sum.splits)

lemma ff_create_body_eq [policy_defs]:
  "ff_create_body os m = first_body (create_query os m)"
  by (intro ext) (auto simp: ff_create_body_def chain_defs split: prod.splits option.splits bool.splits sum.splits)

lemma epmfs_create_body_eq [policy_defs]:
  "epmfs_create_body os p m = best_body (<) (at_path os p (figure spaceavail (create_query os m)))"
  by (intro ext) (auto simp: epmfs_create_body_def chain_defs split: prod.splits option.splits bool.splits sum.splits)

lemma epmfs_action_body_eq [policy_defs]:
  "epmfs_action_body os p = best_body (<) (at_path os p (figure spaceavail (action_query os)))"
  by (intro ext) (auto simp: epmfs_action_body_def chain_defs split: prod.splits option.splits bool.splits sum.splits)

lemma mfs_create_body_eq [policy_defs]:
  "mfs_create_body os m = best_body (<) (figure spaceavail (create_query os m))"
  by (intro ext) (auto simp: mfs_create_body_def chain_defs split: prod.splits option.splits bool.splits sum.splits)

lemma eplfs_create_body_eq [policy_defs]:
  "eplfs_create_body os p m = best_body (>) (at_path os p (figure spaceavail (create_query os m)))"
  by (intro ext) (auto simp: eplfs_create_body_def chain_defs split: prod.splits option.splits bool.splits sum.splits)

lemma eplfs_action_body_eq [policy_defs]:
  "eplfs_action_body os p = best_body (>) (at_path os p (figure spaceavail (action_query os)))"
  by (intro ext) (auto simp: eplfs_action_body_def chain_defs split: prod.splits option.splits bool.splits sum.splits)

lemma lfs_create_body_eq [policy_defs]:
  "lfs_create_body os m = best_body (>) (figure spaceavail (create_query os m))"
  by (intro ext) (auto simp: lfs_create_body_def chain_defs split: prod.splits option.splits bool.splits sum.splits)

lemma eplus_create_body_eq [policy_defs]:
  "eplus_create_body os p m = best_body (\<ge>) (at_path os p (figure spaceused (create_query os m)))"
  by (intro ext) (auto simp: eplus_create_body_def chain_defs split: prod.splits option.splits bool.splits sum.splits)

lemma eplus_action_body_eq [policy_defs]:
  "eplus_action_body os p = best_body (\<ge>) (at_path os p (figure spaceused (action_query os)))"
  by (intro ext) (auto simp: eplus_action_body_def chain_defs split: prod.splits option.splits bool.splits sum.splits)

lemma lus_create_body_eq [policy_defs]:
  "lus_create_body os m = best_body (\<ge>) (figure spaceused (create_query os m))"
  by (intro ext) (auto simp: lus_create_body_def chain_defs split: prod.splits option.splits bool.splits sum.splits)

text \<open>The search loops keep no error; they are the loops over the query with the error dropped.\<close>

lemma for_each_project:
  assumes "\<And>b a s. f b (g a) s = map_prod g id (h b a s)"
  shows "for_each f bs (g a) s = map_prod g id (for_each h bs a s)"
  by (induction bs arbitrary: a s) (auto simp: assms split: prod.splits)

lemma for_until_project:
  assumes "\<And>b a s. f b (g a) s = map_prod (map_sum g id) id (h b a s)"
  shows "for_until f bs (g a) s = map_prod (map_sum g id) id (for_until h bs a s)"
  by (induction bs arbitrary: a s) (auto simp: assms split: prod.splits sum.splits)

lemma epall_search_loop:
  "for_each (epall_search_body os p) bs paths s =
     map_prod snd id (for_each (collect_body (at_path os p any_query)) bs (ENOENT, paths) s)"
  using for_each_project [of "epall_search_body os p" snd "collect_body (at_path os p any_query)" bs "(ENOENT, paths)" s]
  by (auto simp: epall_search_body_def chain_defs split: prod.splits bool.splits)

lemma epff_search_loop:
  "for_until (epff_search_body os p) bs () s =
     map_prod (map_sum (\<lambda>_. ()) id) id (for_until (first_body (at_path os p any_query)) bs ENOENT s)"
  using for_until_project [of "epff_search_body os p" "\<lambda>_. ()" "first_body (at_path os p any_query)" bs ENOENT s]
  by (auto simp: epff_search_body_def chain_defs split: prod.splits bool.splits)

lemma epmfs_search_loop:
  "for_each (epmfs_search_body os p) bs (k, c) s =
     map_prod snd id (for_each (best_body (<) (at_path os p (avail_query os))) bs (ENOENT, k, c) s)"
  using for_each_project [of "epmfs_search_body os p" snd "best_body (<) (at_path os p (avail_query os))"
      bs "(ENOENT, k, c)" s]
  by (auto simp: epmfs_search_body_def chain_defs split: prod.splits bool.splits option.splits)

lemma eplfs_search_loop:
  "for_each (eplfs_search_body os p) bs (k, c) s =
     map_prod snd id (for_each (best_body (>) (at_path os p (avail_query os))) bs (ENOENT, k, c) s)"
  using for_each_project [of "eplfs_search_body os p" snd "best_body (>) (at_path os p (avail_query os))"
      bs "(ENOENT, k, c)" s]
  by (auto simp: eplfs_search_body_def chain_defs split: prod.splits bool.splits option.splits)

lemma eplus_search_loop:
  "for_each (eplus_search_body os p) bs (k, c) s =
     map_prod snd id (for_each (best_body (\<ge>) (at_path os p (used_query os))) bs (ENOENT, k, c) s)"
  using for_each_project [of "eplus_search_body os p" snd "best_body (\<ge>) (at_path os p (used_query os))"
      bs "(ENOENT, k, c)" s]
  by (auto simp: eplus_search_body_def chain_defs split: prod.splits bool.splits option.splits)

section \<open>The newest policy\<close>

text \<open>
  \<^verbatim>\<open>newest\<close> compares modification times before it asks for the figures of the file system, so
  a branch older than the best so far is neither queried nor reported. The choice is nevertheless
  the one made with every branch queried, and the error matters only when no branch was chosen,
  in which case nothing has been skipped.
\<close>

definition older :: "time_t \<Rightarrow> time_t \<Rightarrow> bool" where
  "older t m \<longleftrightarrow> sint t < sint m"

definition newest_body ::
  "'w os \<Rightarrow> string \<Rightarrow> (Branch \<Rightarrow> bool) \<Rightarrow> ('w sys, 'i) query \<Rightarrow> Branch \<Rightarrow> int \<times> time_t \<times> string option \<Rightarrow>
   'w sys \<Rightarrow> (int \<times> time_t \<times> string option) \<times> 'w sys" where
  "newest_body os p refuse q b acc s =
     (case acc of (error, newest, base) \<Rightarrow>
     (case fs_exists_st os (br_path b) p s of
        (None, s) \<Rightarrow> ((calc_error error ENOENT, newest, base), s)
      | (Some st, s) \<Rightarrow>
     if refuse b then ((calc_error error EROFS, newest, base), s) else
     if older (st_mtime st) newest then ((error, newest, base), s) else
     (case q b s of
        (Inl e, s) \<Rightarrow> ((calc_error error e, newest, base), s)
      | (Inr i, s) \<Rightarrow> ((error, st_mtime st, Some (br_path b)), s))))"

definition newest_view ::
  "'w os \<Rightarrow> string \<Rightarrow> (Branch \<Rightarrow> bool) \<Rightarrow> ('w sys, 'i) query \<Rightarrow> 'w sys \<Rightarrow> Branch \<Rightarrow> int + time_t" where
  "newest_view os p refuse q s b =
     (case fst (fs_exists_st os (br_path b) p s) of
        None \<Rightarrow> Inl ENOENT
      | Some st \<Rightarrow>
          if refuse b then Inl EROFS
          else map_sum id (\<lambda>_. st_mtime st) (fst (q b s)))"

lemma newest_body_eqs:
  "newest_create_body os p m = newest_body os p ro_or_nc (create_query os m)"
  "newest_action_body os p = newest_body os p ro (action_ro_query os)"
  by (intro ext, auto simp: newest_create_body_def newest_action_body_def newest_body_def chain_defs older_def
      split: prod.splits option.splits sum.splits)+

lemma newest_search_loop:
  "for_each (newest_search_body os p) bs (k, c) s =
     map_prod snd id (for_each (newest_body os p (\<lambda>_. False) any_query) bs (ENOENT, k, c) s)"
  using for_each_project [of "newest_search_body os p" snd "newest_body os p (\<lambda>_. False) any_query"
      bs "(ENOENT, k, c)" s]
  by (auto simp: newest_search_body_def newest_body_def chain_defs older_def split: prod.splits option.splits)

lemma exists_st_view:
  "same_view pth s (snd (fs_exists_st os x p s))"
  by (auto simp: fs_exists_st_def fs_lstat_def same_view_def sys_val_def
      split: prod.splits option.splits sum.splits)

lemma newest_body_step:
  assumes q: "local_query q"
  shows "only_at (br_path b) s (snd (newest_body os p refuse q b acc s))"
    and "fst (newest_body os p refuse q b (error, newest, base) s) =
      (case newest_view os p refuse q s b of
         Inl e \<Rightarrow>
           (if fst (fs_exists_st os (br_path b) p s) \<noteq> None \<and> \<not> refuse b
               \<and> older (st_mtime (the (fst (fs_exists_st os (br_path b) p s)))) newest
            then error else calc_error error e, newest, base)
       | Inr k \<Rightarrow> if older k newest then (error, newest, base) else (error, k, Some (br_path b)))"
proof -
  obtain r t where e: "fs_exists_st os (br_path b) p s = (r, t)" by fastforce
  have at: "only_at (br_path b) s t" using only_at_fs_exists(1) [of _ s os "br_path b" p] e by simp
  have atq: "only_at (br_path b) t (snd (q b t))" using q by (simp add: local_query_def)
  have sv: "fst (q b t) = fst (q b s)"
    using q exists_st_view [of "br_path b" s os "br_path b" p] e by (simp add: local_query_def)
  show "only_at (br_path b) s (snd (newest_body os p refuse q b acc s))"
    using e at only_at_trans [OF at atq]
    by (auto simp: newest_body_def split: prod.splits option.splits sum.splits)
  obtain a u where qb: "q b t = (a, u)" by fastforce
  then have "fst (q b s) = a" using sv by simp
  then show "fst (newest_body os p refuse q b (error, newest, base) s) =
      (case newest_view os p refuse q s b of
         Inl e \<Rightarrow>
           (if fst (fs_exists_st os (br_path b) p s) \<noteq> None \<and> \<not> refuse b
               \<and> older (st_mtime (the (fst (fs_exists_st os (br_path b) p s)))) newest
            then error else calc_error error e, newest, base)
       | Inr k \<Rightarrow> if older k newest then (error, newest, base) else (error, k, Some (br_path b)))"
    using e qb
    by (cases r; cases a) (simp_all add: newest_body_def newest_view_def)
qed

lemma same_view_branch:
  "only_at (br_path b) s t \<Longrightarrow> branch_indep s b c \<Longrightarrow> same_view (br_path c) s t"
  by (auto simp: branch_indep_def only_at_def same_view_def)

lemma newest_view_frame:
  "local_query q \<Longrightarrow> same_view (br_path c) s t \<Longrightarrow> newest_view os p refuse q t c = newest_view os p refuse q s c"
  using same_view_fs_exists(2) [of "br_path c" s t os "br_path c" p]
  by (auto simp: newest_view_def local_query_def split: option.splits)

lemma not_older_TIME_T_MIN [simp]: "\<not> older t TIME_T_MIN"
  using newest.start_le [of t] by (simp add: older_def)

lemma best_of_keeps [simp]: "best_of worse v cs (m, Some x) \<noteq> (k, None)"
  by (induction cs arbitrary: m x) (auto split: sum.splits)

lemma newest_loop:
  assumes q: "local_query q"
  shows "sorted_wrt (branch_indep s) bs \<Longrightarrow> (base = None \<longrightarrow> newest = TIME_T_MIN) \<Longrightarrow>
    (case fst (for_each (newest_body os p refuse q) bs (error, newest, base) s) of (error', r) \<Rightarrow>
       r = best_of older (newest_view os p refuse q s) bs (newest, base)
       \<and> (snd r = None \<longrightarrow> error' = foldl calc_error error (errors_of (newest_view os p refuse q s) bs)))"
proof (induction bs arbitrary: error newest base s)
  case Nil
  then show ?case by simp
next
  case (Cons b bs)
  let ?v = "newest_view os p refuse q"
  obtain e1 n1 b1 s1 where body: "newest_body os p refuse q b (error, newest, base) s = ((e1, n1, b1), s1)"
    by (metis prod_cases3 surj_pair)
  have at: "only_at (br_path b) s s1"
    using newest_body_step(1) [OF q, of b s os p refuse "(error, newest, base)"] body by simp
  have after: "?v s1 c = ?v s c" if "c \<in> set bs" for c
    using Cons.prems(1) that newest_view_frame [OF q same_view_branch [OF at]] by auto
  have errs: "errors_of (?v s1) bs = errors_of (?v s) bs" by (rule errors_of_cong) (rule after)
  have bst: "best_of older (?v s1) bs acc = best_of older (?v s) bs acc" for acc
    by (rule best_of_cong) (rule after)
  have "branch_indep s1 = branch_indep s"
    using at by (auto simp: branch_indep_def only_at_def fun_eq_iff)
  then have sorted: "sorted_wrt (branch_indep s1) bs" using Cons.prems(1) by simp
  have step: "(n1, b1) = (case ?v s b of Inl _ \<Rightarrow> (newest, base)
      | Inr k \<Rightarrow> if older k newest then (newest, base) else (k, Some (br_path b)))"
    and none: "base = None \<Longrightarrow> e1 = (case ?v s b of Inl e \<Rightarrow> calc_error error e | Inr _ \<Rightarrow> error)"
    using newest_body_step(2) [OF q, of os p refuse b error newest base s] body Cons.prems(2)
    by (auto split: sum.splits if_splits)
  have inv: "b1 = None \<longrightarrow> n1 = TIME_T_MIN"
    using step Cons.prems(2) by (auto split: sum.splits if_splits)
  have base: "base \<noteq> None \<Longrightarrow> b1 \<noteq> None" using step by (auto split: sum.splits if_splits)
  show ?case
    using Cons.IH [OF sorted inv, of e1] body errs bst step none base
    by (cases "?v s b"; cases base) (auto split: if_splits)
qed

section \<open>What a policy picks\<close>

abbreviation rc_of :: "'w policy_result \<Rightarrow> int" where "rc_of \<equiv> fst"
abbreviation paths_of :: "'w policy_result \<Rightarrow> string list" where "paths_of r \<equiv> fst (snd r)"
abbreviation state_of :: "'w policy_result \<Rightarrow> 'w sys" where "state_of r \<equiv> snd (snd r)"

definition picks_all :: "(Branch \<Rightarrow> bool) \<Rightarrow> Branch list \<Rightarrow> string list \<Rightarrow> bool" where
  "picks_all P bs ps \<longleftrightarrow> ps = map br_path (filter P bs)"

definition picks_first :: "(Branch \<Rightarrow> bool) \<Rightarrow> Branch list \<Rightarrow> string list \<Rightarrow> bool" where
  "picks_first P bs ps \<longleftrightarrow> ps = map br_path (take 1 (filter P bs))"

definition picks_best ::
  "(Branch \<Rightarrow> bool) \<Rightarrow> ('k \<Rightarrow> 'k \<Rightarrow> bool) \<Rightarrow> (Branch \<Rightarrow> 'k) \<Rightarrow> Branch list \<Rightarrow> string list \<Rightarrow> bool" where
  "picks_best P le fig bs ps \<longleftrightarrow>
     (ps = [] \<and> filter P bs = [])
     \<or> (\<exists>b \<in> set bs. ps = [br_path b] \<and> P b \<and> (\<forall>c \<in> set bs. P c \<longrightarrow> le (fig c) (fig b)))"

lemma picks_nonempty:
  "picks_all P bs ps \<Longrightarrow> ps = [] \<longleftrightarrow> filter P bs = []"
  "picks_first P bs ps \<Longrightarrow> ps = [] \<longleftrightarrow> filter P bs = []"
  "picks_best P le fig bs ps \<Longrightarrow> ps = [] \<longleftrightarrow> filter P bs = []"
  by (auto simp: picks_all_def picks_first_def picks_best_def filter_empty_conv)

lemma picks_sound:
  "picks_all P bs ps \<Longrightarrow> x \<in> set ps \<Longrightarrow> \<exists>b \<in> set bs. br_path b = x \<and> P b"
  "picks_first P bs ps \<Longrightarrow> x \<in> set ps \<Longrightarrow> \<exists>b \<in> set bs. br_path b = x \<and> P b"
  "picks_best P le fig bs ps \<Longrightarrow> x \<in> set ps \<Longrightarrow> \<exists>b \<in> set bs. br_path b = x \<and> P b"
  using set_take_subset [of 1 "filter P bs"]
  by (auto simp: picks_all_def picks_first_def picks_best_def)

text \<open>How the end of a policy reads off the result of its loop.\<close>

lemma collected_result:
  assumes "fst r = (error, paths)"
  shows "paths_of (return_collected r) = paths"
    and "rc_of (return_collected r) = (if paths = [] then - 1 else 0)"
    and "paths = [] \<Longrightarrow> errno (state_of (return_collected r)) = error"
  using assms by (auto simp: return_collected_def split: prod.splits)

lemma first_result:
  "fst r = Inl error \<Longrightarrow> return_first paths r = (- 1, paths, (snd r)\<lparr>errno := error\<rparr>)"
  "fst r = Inr p \<Longrightarrow> return_first paths r = (0, paths @ [p], snd r)"
  by (cases r, simp add: return_first_def)+

lemma best_result:
  "fst r = (error, k, None) \<Longrightarrow> return_best paths r = (- 1, paths, (snd r)\<lparr>errno := error\<rparr>)"
  "fst r = (error, k, Some p) \<Longrightarrow> return_best paths r = (0, paths @ [p], snd r)"
  by (cases r, simp add: return_best_def)+

text \<open>The outcome of a policy that picked the paths \<open>ps\<close> or gave the error \<open>e\<close>.\<close>

definition outcome :: "'w policy_result \<Rightarrow> (string list \<Rightarrow> bool) \<Rightarrow> int \<Rightarrow> bool" where
  "outcome r picks e \<longleftrightarrow>
     picks (paths_of r)
     \<and> rc_of r = (if paths_of r = [] then - 1 else 0)
     \<and> (paths_of r = [] \<longrightarrow> errno (state_of r) = e)"

lemma outcome_collected:
  assumes "fst r = (error, map br_path (filter (qualifies v) bs))" "\<And>b. qualifies v b = P b"
  shows "outcome (return_collected r) (picks_all P bs) error"
proof -
  have "qualifies v = P" using assms(2) by blast
  then show ?thesis
    using collected_result [OF assms(1)] by (auto simp: outcome_def picks_all_def)
qed

lemma find_filter: "find P xs = (case filter P xs of [] \<Rightarrow> None | x # _ \<Rightarrow> Some x)"
  by (induction xs) auto

lemma outcome_first:
  assumes "fst r = (case find (qualifies v) bs of None \<Rightarrow> Inl error | Some b \<Rightarrow> Inr (br_path b))"
    "\<And>b. qualifies v b = P b"
  shows "outcome (return_first [] r) (picks_first P bs) error"
proof -
  have q: "qualifies v = P" using assms(2) by blast
  show ?thesis
  proof (cases "filter P bs")
    case Nil
    then have "fst r = Inl error" using assms(1) q by (simp add: find_filter)
    from first_result(1) [OF this] show ?thesis using Nil by (simp add: outcome_def picks_first_def)
  next
    case (Cons b l)
    then have "fst r = Inr (br_path b)" using assms(1) q by (simp add: find_filter)
    from first_result(2) [OF this] show ?thesis using Cons by (simp add: outcome_def picks_first_def)
  qed
qed

context ranking
begin

lemma picks_best_of:
  assumes v: "\<And>b k. v b = Inr k \<longleftrightarrow> P b \<and> k = fig b"
  shows "picks_best (\<lambda>b. P b \<and> \<not> worse (fig b) start) le fig bs
     (case snd (best_of worse v bs (start, None)) of None \<Rightarrow> [] | Some p \<Rightarrow> [p])"
proof (cases "snd (best_of worse v bs (start, None))")
  case None
  have "worse (fig b) start" if "b \<in> set bs" "P b" for b
    using best_of_none [OF None that(1), of "fig b"] v that(2) by blast
  then show ?thesis using None by (auto simp: picks_best_def filter_empty_conv)
next
  case (Some p)
  then obtain b k where "b \<in> set bs" "br_path b = p" "v b = Inr k" "\<not> worse k start"
    and up: "\<And>c j. c \<in> set bs \<Longrightarrow> v c = Inr j \<Longrightarrow> le j k"
    using best_of_best by metis
  moreover have "le (fig c) (fig b)" if "c \<in> set bs" "P c" for c
    using up [of c "fig c"] that v calculation(3) by metis
  ultimately show ?thesis using Some v by (auto simp: picks_best_def)
qed

lemma outcome_best:
  assumes "fst r = (error, best_of worse v bs (start, None))"
    and "\<And>b k. v b = Inr k \<longleftrightarrow> P b \<and> k = fig b"
  shows "outcome (return_best [] r) (picks_best (\<lambda>b. P b \<and> \<not> worse (fig b) start) le fig bs) error"
proof (cases "snd (best_of worse v bs (start, None))")
  case None
  then have "fst r = (error, fst (best_of worse v bs (start, None)), None)"
    using assms(1) by (metis prod.collapse)
  from best_result(1) [OF this] show ?thesis
    using picks_best_of [of v P fig bs, OF assms(2)] None by (simp add: outcome_def)
next
  case (Some p)
  then have "fst r = (error, fst (best_of worse v bs (start, None)), Some p)"
    using assms(1) by (metis prod.collapse)
  from best_result(2) [OF this] show ?thesis
    using picks_best_of [of v P fig bs, OF assms(2)] Some by (simp add: outcome_def)
qed

end

section \<open>The figures and the reasons of a pool\<close>

definition avail :: "'w os \<Rightarrow> 'w sys \<Rightarrow> Branch \<Rightarrow> u64" where
  "avail os s b = (case fst (statvfs_cache os (br_path b) s) of None \<Rightarrow> 0 | Some st \<Rightarrow> StatVFS_spaceavail st)"

definition used :: "'w os \<Rightarrow> 'w sys \<Rightarrow> Branch \<Rightarrow> u64" where
  "used os s b = (case fst (statvfs_cache os (br_path b) s) of None \<Rightarrow> 0 | Some st \<Rightarrow> StatVFS_spaceused st)"

definition mtime :: "'w os \<Rightarrow> string \<Rightarrow> 'w sys \<Rightarrow> Branch \<Rightarrow> time_t" where
  "mtime os p s b = (case fst (fs_exists_st os (br_path b) p s) of None \<Rightarrow> 0 | Some st \<Rightarrow> st_mtime st)"

definition responds :: "'w os \<Rightarrow> 'w sys \<Rightarrow> Branch \<Rightarrow> bool" where
  "responds os s b \<longleftrightarrow> fst (statvfs_cache os (br_path b) s) \<noteq> None"

lemma info_figures:
  "fst (fs_info os (br_path b) s) = Some i \<Longrightarrow> spaceavail i = avail os s b"
  "fst (fs_info os (br_path b) s) = Some i \<Longrightarrow> spaceused i = used os s b"
  by (auto simp: fst_fs_info avail_def used_def)

lemma create_fig_Inr:
  "fst (figure spaceavail (create_query os m) b s) = Inr k \<longleftrightarrow> can_create os m s b \<and> k = avail os s b"
  "fst (figure spaceused (create_query os m) b s) = Inr k \<longleftrightarrow> can_create os m s b \<and> k = used os s b"
  using info_figures [of os b s]
  by (auto simp: figure_Inr create_query_Inr can_create_def split: option.splits)

lemma action_fig_Inr:
  "fst (figure spaceavail (action_query os) b s) = Inr k \<longleftrightarrow> can_act os s b \<and> k = avail os s b"
  "fst (figure spaceused (action_query os) b s) = Inr k \<longleftrightarrow> can_act os s b \<and> k = used os s b"
  using info_figures [of os b s]
  by (auto simp: figure_Inr action_query_Inr can_act_def split: option.splits)

lemma search_fig_Inr:
  "fst (avail_query os b s) = Inr k \<longleftrightarrow> responds os s b \<and> k = avail os s b"
  "fst (used_query os b s) = Inr k \<longleftrightarrow> responds os s b \<and> k = used os s b"
  by (auto simp: query_eqs fst_statvfs_cache_projections avail_def used_def responds_def split: option.splits)

lemma qualifies_queries:
  "qualifies (\<lambda>b. fst (create_query os m b s)) b = can_create os m s b"
  "qualifies (\<lambda>b. fst (at_path os p (create_query os m) b s)) b = (has_path os p s b \<and> can_create os m s b)"
  "qualifies (\<lambda>b. fst (at_path os p (action_ro_query os) b s)) b = (has_path os p s b \<and> can_act os s b)"
  "qualifies (\<lambda>b. fst (at_path os p any_query b s)) b = has_path os p s b"
  by (auto simp: qualifies_iff at_path_Inr create_query_Inr action_ro_query_Inr any_query_def
      can_create_def split: option.splits)

text \<open>The error number of a failing create or action is the worst reason of a branch.\<close>

definition create_errors :: "'w os \<Rightarrow> u64 \<Rightarrow> 'w sys \<Rightarrow> Branch list \<Rightarrow> int list" where
  "create_errors os m s = errors_of (\<lambda>b. fst (create_query os m b s))"

definition ep_create_errors :: "'w os \<Rightarrow> string \<Rightarrow> u64 \<Rightarrow> 'w sys \<Rightarrow> Branch list \<Rightarrow> int list" where
  "ep_create_errors os p m s = errors_of (\<lambda>b. fst (at_path os p (create_query os m) b s))"

definition action_errors :: "'w os \<Rightarrow> string \<Rightarrow> 'w sys \<Rightarrow> Branch list \<Rightarrow> int list" where
  "action_errors os p s = errors_of (\<lambda>b. fst (at_path os p (action_ro_query os) b s))"

definition search_errors :: "'w os \<Rightarrow> string \<Rightarrow> 'w sys \<Rightarrow> Branch list \<Rightarrow> int list" where
  "search_errors os p s = errors_of (\<lambda>b. fst (at_path os p any_query b s))"

lemma errors_of_same:
  assumes "\<And>b e. v b = Inl e \<longleftrightarrow> v' b = Inl e"
  shows "errors_of v bs = errors_of v' bs"
proof (induction bs)
  case (Cons b bs)
  have "\<forall>e. (v b = Inl e) = (v' b = Inl e)" using assms by blast
  then show ?case using Cons by (auto split: sum.splits)
qed simp

lemma errors_of_policy:
  assumes "\<And>b e. b \<in> set bs \<Longrightarrow> v b = Inl e \<Longrightarrow> policy_errno e"
  shows "foldl calc_error ENOENT (errors_of v bs) = worst_error (errors_of v bs)"
proof -
  have "\<forall>e \<in> set (errors_of v bs). policy_errno e"
    using assms by (induction bs) (auto split: sum.splits)
  then show ?thesis
    using foldl_calc_error [of ENOENT "errors_of v bs"] by (simp add: policy_errno_def worst_error_def)
qed

lemma figure_Inl: "fst (figure f q b s) = Inl e \<longleftrightarrow> fst (q b s) = Inl e"
  by (cases "fst (q b s)") (auto simp: figure_eq)

lemma at_path_Inl:
  "fst (at_path os p (figure f q) b s) = Inl e \<longleftrightarrow> fst (at_path os p q b s) = Inl e"
  by (auto simp: at_path_eq figure_Inl)

lemma at_path_errno:
  "(\<And>t. fst (q b t) = Inl e \<Longrightarrow> policy_errno e) \<Longrightarrow> fst (at_path os p q b s) = Inl e \<Longrightarrow> policy_errno e"
  by (auto simp: at_path_eq policy_errno_def split: if_splits)

lemma action_queries_Inl: "fst (action_query os b s) = Inl e \<longleftrightarrow> fst (action_ro_query os b s) = Inl e"
  by (auto simp: query_eqs fst_fs_info fst_statvfs_cache_projections split: option.splits)

lemma at_path_action_Inl:
  "fst (at_path os p (action_query os) b s) = Inl e \<longleftrightarrow> fst (at_path os p (action_ro_query os) b s) = Inl e"
  by (auto simp: at_path_eq action_queries_Inl)

lemma loop_errors:
  "foldl calc_error ENOENT (errors_of (\<lambda>b. fst (create_query os m b s)) bs) =
     worst_error (create_errors os m s bs)"
  "foldl calc_error ENOENT (errors_of (\<lambda>b. fst (at_path os p (create_query os m) b s)) bs) =
     worst_error (ep_create_errors os p m s bs)"
  "foldl calc_error ENOENT (errors_of (\<lambda>b. fst (at_path os p (action_ro_query os) b s)) bs) =
     worst_error (action_errors os p s bs)"
  unfolding create_errors_def ep_create_errors_def action_errors_def
  by (rule errors_of_policy; blast intro: at_path_errno query_errnos)+

lemma fig_errors:
  "errors_of (\<lambda>b. fst (figure f (create_query os m) b s)) = errors_of (\<lambda>b. fst (create_query os m b s))"
  "errors_of (\<lambda>b. fst (at_path os p (figure f (create_query os m)) b s)) =
     errors_of (\<lambda>b. fst (at_path os p (create_query os m) b s))"
  "errors_of (\<lambda>b. fst (at_path os p (figure f (action_query os)) b s)) =
     errors_of (\<lambda>b. fst (at_path os p (action_ro_query os) b s))"
  by (intro ext errors_of_same; simp add: figure_Inl at_path_Inl at_path_action_Inl)+

end
