(* ===== verification/Policy_Results.thy ===== *)
theory Policy_Results
  imports Policy_Facts
begin

text \<open>
  What each policy picks, for each category of caller. The name of a policy is a promise: \<^verbatim>\<open>ff\<close> the first
  branch found, \<^verbatim>\<open>mfs\<close> the most free space, \<^verbatim>\<open>lfs\<close> the least, \<^verbatim>\<open>lus\<close> the least
  used, \<^verbatim>\<open>newest\<close> the largest modification time, \<^verbatim>\<open>all\<close> every branch, \<^verbatim>\<open>rand\<close> the same in a random
  order; with the prefix \<^verbatim>\<open>ep\<close> only among the branches that already have the path.
\<close>

section \<open>Collecting and first-found policies\<close>

lemma all_create_outcome:
  assumes "steady s bs"
  shows "outcome (all_create os bs m [] s) (picks_all (can_create os m s) bs)
     (worst_error (create_errors os m s bs))"
  unfolding all_create_def policy_defs
  by (rule outcome_collected [where v = "\<lambda>b. fst (create_query os m b s)"])
    (simp_all add: create_q.collect_loop [OF steady_sorted [OF assms]] loop_errors qualifies_queries cong: option.case_cong)

lemma epall_create_outcome:
  assumes "steady s bs"
  shows "outcome (epall_create os bs p m [] s) (picks_all (\<lambda>b. has_path os p s b \<and> can_create os m s b) bs)
     (worst_error (ep_create_errors os p m s bs))"
  unfolding epall_create_def policy_defs
  by (rule outcome_collected [where v = "\<lambda>b. fst (at_path os p (create_query os m) b s)"])
    (simp_all add: ep_create_q.collect_loop [OF steady_sorted [OF assms]] loop_errors qualifies_queries cong: option.case_cong)

lemma epall_action_outcome:
  assumes "steady s bs"
  shows "outcome (epall_action os bs p [] s) (picks_all (\<lambda>b. has_path os p s b \<and> can_act os s b) bs)
     (worst_error (action_errors os p s bs))"
  unfolding epall_action_def policy_defs
  by (rule outcome_collected [where v = "\<lambda>b. fst (at_path os p (action_ro_query os) b s)"])
    (simp_all add: ep_action_q.collect_loop [OF steady_sorted [OF assms]] loop_errors qualifies_queries cong: option.case_cong)

lemma ff_create_outcome:
  assumes "steady s bs"
  shows "outcome (ff_create os bs m [] s) (picks_first (can_create os m s) bs)
     (worst_error (create_errors os m s bs))"
  unfolding ff_create_def policy_defs
  by (rule outcome_first [where v = "\<lambda>b. fst (create_query os m b s)"])
    (simp_all add: create_q.first_loop [OF steady_sorted [OF assms]] loop_errors qualifies_queries cong: option.case_cong)

lemma epff_create_outcome:
  assumes "steady s bs"
  shows "outcome (epff_create os bs p m [] s) (picks_first (\<lambda>b. has_path os p s b \<and> can_create os m s b) bs)
     (worst_error (ep_create_errors os p m s bs))"
  unfolding epff_create_def policy_defs
  by (rule outcome_first [where v = "\<lambda>b. fst (at_path os p (create_query os m) b s)"])
    (simp_all add: ep_create_q.first_loop [OF steady_sorted [OF assms]] loop_errors qualifies_queries cong: option.case_cong)

lemma epff_action_outcome:
  assumes "steady s bs"
  shows "outcome (epff_action os bs p [] s) (picks_first (\<lambda>b. has_path os p s b \<and> can_act os s b) bs)
     (worst_error (action_errors os p s bs))"
  unfolding epff_action_def policy_defs
  by (rule outcome_first [where v = "\<lambda>b. fst (at_path os p (action_ro_query os) b s)"])
    (simp_all add: ep_action_q.first_loop [OF steady_sorted [OF assms]] loop_errors qualifies_queries cong: option.case_cong)

lemma epall_search_outcome:
  assumes "steady s bs"
  shows "outcome (epall_search os bs p [] s) (picks_all (has_path os p s) bs) ENOENT"
proof -
  let ?L = "for_each (collect_body (at_path os p any_query)) bs (ENOENT, []) s"
  have "fst ?L = (fst (fst ?L), map br_path (filter (qualifies (\<lambda>b. fst (at_path os p any_query b s))) bs))"
    using search_q.collect_loop [OF steady_sorted [OF assms], of os p ENOENT "[]"]
    by (metis append_Nil fst_conv)
  then have "fst ((ENOENT, snd (fst ?L)), snd ?L) =
      (ENOENT, map br_path (filter (qualifies (\<lambda>b. fst (at_path os p any_query b s))) bs))"
    by (metis fst_conv snd_conv)
  from outcome_collected [OF this, of "has_path os p s"] show ?thesis
    by (cases ?L) (simp add: epall_search_def epall_search_loop qualifies_queries case_prod_beta)
qed

lemma epff_search_outcome:
  assumes "steady s bs"
  shows "outcome (epff_search os bs p [] s) (picks_first (has_path os p s) bs) ENOENT"
proof -
  let ?L = "for_until (first_body (at_path os p any_query)) bs ENOENT s"
  have "fst (map_prod (map_sum (\<lambda>_. ENOENT) id) id ?L) =
      (case find (qualifies (\<lambda>b. fst (at_path os p any_query b s))) bs of
         None \<Rightarrow> Inl ENOENT | Some b \<Rightarrow> Inr (br_path b))"
    using search_q.first_loop [OF steady_sorted [OF assms], of os p ENOENT]
    by (simp split: option.splits)
  from outcome_first [OF this, of "has_path os p s"] show ?thesis
    by (cases ?L; cases "fst ?L") (simp_all add: epff_search_def epff_search_loop qualifies_queries)
qed

section \<open>Policies that compare a figure\<close>

lemma U64_MAX_not_less [simp]: "\<not> U64_MAX < x"
  by (simp add: not_less)

lemma mfs_create_outcome:
  assumes "steady s bs"
  shows "outcome (mfs_create os bs m [] s)
     (picks_best (\<lambda>b. can_create os m s b) (\<le>) (avail os s) bs)
     (worst_error (create_errors os m s bs))"
proof -
  have "fst (for_each (best_body (<) (figure spaceavail (create_query os m))) bs (ENOENT, 0, None) s) =
      (worst_error (create_errors os m s bs), best_of (<) (\<lambda>b. fst ((figure spaceavail (create_query os m)) b s)) bs (0, None))"
    by (simp add: create_fig_q.best_loop [OF steady_sorted [OF assms]] fig_errors loop_errors)
  from most_space.outcome_best [OF this, of "\<lambda>b. can_create os m s b" "avail os s"] show ?thesis
    by (simp add: mfs_create_def policy_defs create_fig_Inr(1) not_le)
qed

lemma epmfs_create_outcome:
  assumes "steady s bs"
  shows "outcome (epmfs_create os bs p m [] s)
     (picks_best (\<lambda>b. has_path os p s b \<and> can_create os m s b) (\<le>) (avail os s) bs)
     (worst_error (ep_create_errors os p m s bs))"
proof -
  have "fst (for_each (best_body (<) (at_path os p (figure spaceavail (create_query os m)))) bs (ENOENT, 0, None) s) =
      (worst_error (ep_create_errors os p m s bs), best_of (<) (\<lambda>b. fst ((at_path os p (figure spaceavail (create_query os m))) b s)) bs (0, None))"
    by (simp add: ep_create_fig_q.best_loop [OF steady_sorted [OF assms]] fig_errors loop_errors)
  from most_space.outcome_best [OF this, of "\<lambda>b. has_path os p s b \<and> can_create os m s b" "avail os s"] show ?thesis
    by (simp add: epmfs_create_def policy_defs create_fig_Inr(1) at_path_Inr not_le)
qed

lemma epmfs_action_outcome:
  assumes "steady s bs"
  shows "outcome (epmfs_action os bs p [] s)
     (picks_best (\<lambda>b. has_path os p s b \<and> can_act os s b) (\<le>) (avail os s) bs)
     (worst_error (action_errors os p s bs))"
proof -
  have "fst (for_each (best_body (<) (at_path os p (figure spaceavail (action_query os)))) bs (ENOENT, 0, None) s) =
      (worst_error (action_errors os p s bs), best_of (<) (\<lambda>b. fst ((at_path os p (figure spaceavail (action_query os))) b s)) bs (0, None))"
    by (simp add: ep_action_fig_q.best_loop [OF steady_sorted [OF assms]] fig_errors loop_errors)
  from most_space.outcome_best [OF this, of "\<lambda>b. has_path os p s b \<and> can_act os s b" "avail os s"] show ?thesis
    by (simp add: epmfs_action_def policy_defs action_fig_Inr(1) at_path_Inr not_le)
qed

lemma epmfs_search_outcome:
  assumes "steady s bs"
  shows "outcome (epmfs_search os bs p [] s)
     (picks_best (\<lambda>b. has_path os p s b \<and> responds os s b) (\<le>) (avail os s) bs) ENOENT"
proof -
  let ?q = "at_path os p (avail_query os)"
  let ?L = "for_each (best_body (<) ?q) bs (ENOENT, 0, None) s"
  have "fst ((ENOENT, snd (fst ?L)), snd ?L) = (ENOENT, best_of (<) (\<lambda>b. fst (?q b s)) bs (0, None))"
    by (simp add: search_avail_q.best_loop [OF steady_sorted [OF assms]])
  from most_space.outcome_best [OF this, of "\<lambda>b. has_path os p s b \<and> responds os s b" "avail os s"]
  show ?thesis
    by (cases ?L) (simp add: epmfs_search_def epmfs_search_loop search_fig_Inr(1) at_path_Inr case_prod_beta)
qed

lemma lfs_create_outcome:
  assumes "steady s bs"
  shows "outcome (lfs_create os bs m [] s)
     (picks_best (\<lambda>b. can_create os m s b) (\<ge>) (avail os s) bs)
     (worst_error (create_errors os m s bs))"
proof -
  have "fst (for_each (best_body (>) (figure spaceavail (create_query os m))) bs (ENOENT, U64_MAX, None) s) =
      (worst_error (create_errors os m s bs), best_of (>) (\<lambda>b. fst ((figure spaceavail (create_query os m)) b s)) bs (U64_MAX, None))"
    by (simp add: create_fig_q.best_loop [OF steady_sorted [OF assms]] fig_errors loop_errors)
  from least_space.outcome_best [OF this, of "\<lambda>b. can_create os m s b" "avail os s"] show ?thesis
    by (simp add: lfs_create_def policy_defs create_fig_Inr(1) not_le)
qed

lemma eplfs_create_outcome:
  assumes "steady s bs"
  shows "outcome (eplfs_create os bs p m [] s)
     (picks_best (\<lambda>b. has_path os p s b \<and> can_create os m s b) (\<ge>) (avail os s) bs)
     (worst_error (ep_create_errors os p m s bs))"
proof -
  have "fst (for_each (best_body (>) (at_path os p (figure spaceavail (create_query os m)))) bs (ENOENT, U64_MAX, None) s) =
      (worst_error (ep_create_errors os p m s bs), best_of (>) (\<lambda>b. fst ((at_path os p (figure spaceavail (create_query os m))) b s)) bs (U64_MAX, None))"
    by (simp add: ep_create_fig_q.best_loop [OF steady_sorted [OF assms]] fig_errors loop_errors)
  from least_space.outcome_best [OF this, of "\<lambda>b. has_path os p s b \<and> can_create os m s b" "avail os s"] show ?thesis
    by (simp add: eplfs_create_def policy_defs create_fig_Inr(1) at_path_Inr not_le)
qed

lemma eplfs_action_outcome:
  assumes "steady s bs"
  shows "outcome (eplfs_action os bs p [] s)
     (picks_best (\<lambda>b. has_path os p s b \<and> can_act os s b) (\<ge>) (avail os s) bs)
     (worst_error (action_errors os p s bs))"
proof -
  have "fst (for_each (best_body (>) (at_path os p (figure spaceavail (action_query os)))) bs (ENOENT, U64_MAX, None) s) =
      (worst_error (action_errors os p s bs), best_of (>) (\<lambda>b. fst ((at_path os p (figure spaceavail (action_query os))) b s)) bs (U64_MAX, None))"
    by (simp add: ep_action_fig_q.best_loop [OF steady_sorted [OF assms]] fig_errors loop_errors)
  from least_space.outcome_best [OF this, of "\<lambda>b. has_path os p s b \<and> can_act os s b" "avail os s"] show ?thesis
    by (simp add: eplfs_action_def policy_defs action_fig_Inr(1) at_path_Inr not_le)
qed

lemma eplfs_search_outcome:
  assumes "steady s bs"
  shows "outcome (eplfs_search os bs p [] s)
     (picks_best (\<lambda>b. has_path os p s b \<and> responds os s b) (\<ge>) (avail os s) bs) ENOENT"
proof -
  let ?q = "at_path os p (avail_query os)"
  let ?L = "for_each (best_body (>) ?q) bs (ENOENT, U64_MAX, None) s"
  have "fst ((ENOENT, snd (fst ?L)), snd ?L) = (ENOENT, best_of (>) (\<lambda>b. fst (?q b s)) bs (U64_MAX, None))"
    by (simp add: search_avail_q.best_loop [OF steady_sorted [OF assms]])
  from least_space.outcome_best [OF this, of "\<lambda>b. has_path os p s b \<and> responds os s b" "avail os s"]
  show ?thesis
    by (cases ?L) (simp add: eplfs_search_def eplfs_search_loop search_fig_Inr(1) at_path_Inr case_prod_beta)
qed

lemma lus_create_outcome:
  assumes "steady s bs"
  shows "outcome (lus_create os bs m [] s)
     (picks_best (\<lambda>b. can_create os m s b \<and> used os s b < U64_MAX) (\<ge>) (used os s) bs)
     (worst_error (create_errors os m s bs))"
proof -
  have "fst (for_each (best_body (\<ge>) (figure spaceused (create_query os m))) bs (ENOENT, U64_MAX, None) s) =
      (worst_error (create_errors os m s bs), best_of (\<ge>) (\<lambda>b. fst ((figure spaceused (create_query os m)) b s)) bs (U64_MAX, None))"
    by (simp add: create_fig_q.best_loop [OF steady_sorted [OF assms]] fig_errors loop_errors)
  from least_used.outcome_best [OF this, of "\<lambda>b. can_create os m s b" "used os s"] show ?thesis
    by (simp add: lus_create_def policy_defs create_fig_Inr(2) not_le)
qed

lemma eplus_create_outcome:
  assumes "steady s bs"
  shows "outcome (eplus_create os bs p m [] s)
     (picks_best (\<lambda>b. has_path os p s b \<and> can_create os m s b \<and> used os s b < U64_MAX) (\<ge>) (used os s) bs)
     (worst_error (ep_create_errors os p m s bs))"
proof -
  have "fst (for_each (best_body (\<ge>) (at_path os p (figure spaceused (create_query os m)))) bs (ENOENT, U64_MAX, None) s) =
      (worst_error (ep_create_errors os p m s bs), best_of (\<ge>) (\<lambda>b. fst ((at_path os p (figure spaceused (create_query os m))) b s)) bs (U64_MAX, None))"
    by (simp add: ep_create_fig_q.best_loop [OF steady_sorted [OF assms]] fig_errors loop_errors)
  from least_used.outcome_best [OF this, of "\<lambda>b. has_path os p s b \<and> can_create os m s b" "used os s"] show ?thesis
    by (simp add: eplus_create_def policy_defs create_fig_Inr(2) at_path_Inr not_le)
qed

lemma eplus_action_outcome:
  assumes "steady s bs"
  shows "outcome (eplus_action os bs p [] s)
     (picks_best (\<lambda>b. has_path os p s b \<and> can_act os s b \<and> used os s b < U64_MAX) (\<ge>) (used os s) bs)
     (worst_error (action_errors os p s bs))"
proof -
  have "fst (for_each (best_body (\<ge>) (at_path os p (figure spaceused (action_query os)))) bs (ENOENT, U64_MAX, None) s) =
      (worst_error (action_errors os p s bs), best_of (\<ge>) (\<lambda>b. fst ((at_path os p (figure spaceused (action_query os))) b s)) bs (U64_MAX, None))"
    by (simp add: ep_action_fig_q.best_loop [OF steady_sorted [OF assms]] fig_errors loop_errors)
  from least_used.outcome_best [OF this, of "\<lambda>b. has_path os p s b \<and> can_act os s b" "used os s"] show ?thesis
    by (simp add: eplus_action_def policy_defs action_fig_Inr(2) at_path_Inr not_le)
qed

text \<open>
  The search of \<^verbatim>\<open>eplus\<close> starts its running minimum at zero instead of the largest value,
  so every branch is skipped and the search never finds anything.
\<close>

lemma best_of_ge_0:
  "best_of (\<ge>) v bs (0 :: u64, None) = (0, None)"
  by (induction bs) (auto split: sum.splits)

lemma eplus_search_fails:
  assumes "steady s bs"
  shows "\<exists>s'. eplus_search os bs p paths s = (- 1, paths, s') \<and> errno s' = ENOENT"
proof -
  let ?L = "for_each (best_body (\<ge>) (at_path os p (used_query os))) bs (ENOENT, 0, None) s"
  have "snd (fst ?L) = (0, None)"
    by (simp add: search_used_q.best_loop [OF steady_sorted [OF assms]] best_of_ge_0)
  then show ?thesis
    by (cases ?L) (auto simp: eplus_search_def eplus_search_loop return_best_def)
qed

section \<open>newest\<close>

lemma newest_outcome:
  assumes "steady s bs" "local_query q"
    and v: "\<And>b k. newest_view os p refuse q s b = Inr k \<longleftrightarrow> P b \<and> k = mtime os p s b"
  shows "outcome (return_best [] (for_each (newest_body os p refuse q) bs (ENOENT, TIME_T_MIN, None) s))
     (picks_best P (\<lambda>t u. sint t \<le> sint u) (mtime os p s) bs)
     (foldl calc_error ENOENT (errors_of (newest_view os p refuse q s) bs))"
proof -
  let ?L = "for_each (newest_body os p refuse q) bs (ENOENT, TIME_T_MIN, None) s"
  let ?e = "foldl calc_error ENOENT (errors_of (newest_view os p refuse q s) bs)"
  let ?b = "best_of older (newest_view os p refuse q s) bs (TIME_T_MIN, None)"
  have L: "snd (fst ?L) = ?b" and E: "snd ?b = None \<Longrightarrow> fst (fst ?L) = ?e"
    using newest_loop [OF assms(2) steady_sorted [OF assms(1)], of None TIME_T_MIN os p refuse ENOENT]
    by (auto split: prod.splits)
  have o: "older = (\<lambda>t m. sint t < sint m)" by (auto simp: older_def fun_eq_iff)
  have "outcome (return_best [] ((?e, ?b), snd ?L)) (picks_best P (\<lambda>t u. sint t \<le> sint u) (mtime os p s) bs) ?e"
    using newest.outcome_best [of "((?e, ?b), snd ?L)" ?e "newest_view os p refuse q s" bs P "mtime os p s"] v
    by (simp add: o flip: not_le)
  moreover have "rc_of (return_best [] ?L) = rc_of (return_best [] ((?e, ?b), snd ?L))"
    "paths_of (return_best [] ?L) = paths_of (return_best [] ((?e, ?b), snd ?L))"
    "paths_of (return_best [] ?L) = [] \<longrightarrow>
       errno (state_of (return_best [] ?L)) = errno (state_of (return_best [] ((?e, ?b), snd ?L)))"
    using L E by (cases ?L; cases "fst ?L"; cases "snd ?b"; auto simp: return_best_def split: prod.splits)+
  ultimately show ?thesis by (simp add: outcome_def)
qed

lemma map_sum_Inr: "map_sum id f x = Inr k \<longleftrightarrow> (\<exists>i. x = Inr i \<and> k = f i)"
  by (cases x) auto

lemma map_sum_Inl: "map_sum id f x = Inl e \<longleftrightarrow> x = Inl e"
  by (cases x) auto

lemma newest_view_Inr:
  "newest_view os p ro_or_nc (create_query os m) s b = Inr k \<longleftrightarrow>
     (has_path os p s b \<and> can_create os m s b) \<and> k = mtime os p s b"
  "newest_view os p ro (action_ro_query os) s b = Inr k \<longleftrightarrow>
     (has_path os p s b \<and> can_act os s b) \<and> k = mtime os p s b"
  "newest_view os p (\<lambda>_. False) any_query s b = Inr k \<longleftrightarrow> has_path os p s b \<and> k = mtime os p s b"
  by (auto simp: newest_view_def has_path_def fst_fs_exists(2) mtime_def any_query_def map_sum_Inr
      create_query_Inr action_ro_query_Inr can_create_def can_act_def split: option.splits if_splits)

lemma newest_view_Inl:
  "newest_view os p ro_or_nc (create_query os m) s b = Inl e \<longleftrightarrow>
     fst (at_path os p (create_query os m) b s) = Inl e"
  "newest_view os p ro (action_ro_query os) s b = Inl e \<longleftrightarrow>
     fst (at_path os p (action_ro_query os) b s) = Inl e"
  by (auto simp: newest_view_def at_path_eq fst_fs_exists(2) map_sum_Inl create_query_eq action_ro_query_eq
      fst_statvfs_cache_projections exists_then_info exists_then_statvfs
      split: option.splits if_splits)

lemma newest_create_outcome:
  assumes "steady s bs"
  shows "outcome (newest_create os bs p m [] s)
     (picks_best (\<lambda>b. has_path os p s b \<and> can_create os m s b) (\<lambda>t u. sint t \<le> sint u) (mtime os p s) bs)
     (worst_error (ep_create_errors os p m s bs))"
proof -
  have "errors_of (newest_view os p ro_or_nc (create_query os m) s) bs =
      errors_of (\<lambda>b. fst (at_path os p (create_query os m) b s)) bs"
    by (rule errors_of_same) (rule newest_view_Inl(1))
  then show ?thesis
    using newest_outcome [OF assms local_queries(1) newest_view_Inr(1), of os p m]
    by (simp add: newest_create_def newest_body_eqs loop_errors)
qed

lemma newest_action_outcome:
  assumes "steady s bs"
  shows "outcome (newest_action os bs p [] s)
     (picks_best (\<lambda>b. has_path os p s b \<and> can_act os s b) (\<lambda>t u. sint t \<le> sint u) (mtime os p s) bs)
     (worst_error (action_errors os p s bs))"
proof -
  have "errors_of (newest_view os p ro (action_ro_query os) s) bs =
      errors_of (\<lambda>b. fst (at_path os p (action_ro_query os) b s)) bs"
    by (rule errors_of_same) (rule newest_view_Inl(2))
  then show ?thesis
    using newest_outcome [OF assms local_queries(3) newest_view_Inr(2), of os p]
    by (simp add: newest_action_def newest_body_eqs loop_errors)
qed

lemma newest_search_outcome:
  assumes "steady s bs"
  shows "outcome (newest_search os bs p [] s)
     (picks_best (has_path os p s) (\<lambda>t u. sint t \<le> sint u) (mtime os p s) bs) ENOENT"
proof -
  let ?L = "for_each (newest_body os p (\<lambda>_. False) any_query) bs (ENOENT, TIME_T_MIN, None) s"
  have o: "outcome (return_best [] ?L)
     (picks_best (has_path os p s) (\<lambda>t u. sint t \<le> sint u) (mtime os p s) bs)
     (foldl calc_error ENOENT (errors_of (newest_view os p (\<lambda>_. False) any_query s) bs))"
    by (rule newest_outcome [OF assms local_queries(4) newest_view_Inr(3)])
  have "newest_search os bs p [] s = return_best [] ((ENOENT, snd (fst ?L)), snd ?L)"
    by (cases ?L) (simp add: newest_search_def newest_search_loop case_prod_beta)
  moreover have "rc_of (return_best [] ((ENOENT, snd (fst ?L)), snd ?L)) = rc_of (return_best [] ?L)"
    "paths_of (return_best [] ((ENOENT, snd (fst ?L)), snd ?L)) = paths_of (return_best [] ?L)"
    "paths_of (return_best [] ?L) = [] \<longrightarrow> errno (state_of (return_best [] ((ENOENT, snd (fst ?L)), snd ?L))) = ENOENT"
    by (cases ?L; cases "fst ?L"; cases "snd (snd (fst ?L))"; simp add: return_best_def)+
  ultimately show ?thesis using o by (simp add: outcome_def)
qed

section \<open>rand and eprand\<close>

lemma mset_swap_at: "i < length xs \<Longrightarrow> j < length xs \<Longrightarrow> mset (swap_at xs i j) = mset xs"
  unfolding swap_at_def using mset_swap by (metis list_update_swap)

lemma length_swap_at [simp]: "length (swap_at xs i j) = length xs"
  by (simp add: swap_at_def)

lemma shuffle_mset:
  fixes s :: "'w sys"
  shows "mset (fst (random_shuffle os xs s)) = mset xs"
proof -
  let ?I = "\<lambda>ys t :: 'w sys. length ys = length xs \<and> mset ys = mset xs"
  have "case for_each (shuffle_step os) [1 ..< length xs] xs s of (ys, t) \<Rightarrow> ?I ys t"
  proof (rule for_each_inv [where I = ?I])
    fix i ys and t :: "'w sys"
    assume "i \<in> set [1 ..< length xs]" and I: "?I ys t"
    then have "i < length ys" by simp
    moreover have "r mod (i + 1) < length ys" for r
      using \<open>i < length ys\<close> by (metis Suc_eq_plus1 less_Suc_eq_le mod_less_divisor order_le_less_trans zero_less_Suc)
    ultimately have "length (swap_at ys i (r mod (i + 1))) = length xs
        \<and> mset (swap_at ys i (r mod (i + 1))) = mset xs" for r
      using I by (simp add: mset_swap_at)
    then show "case shuffle_step os i ys t of (ys', t') \<Rightarrow> ?I ys' t'"
      by (simp add: shuffle_step_def split: prod.splits)
  qed simp
  then show ?thesis by (auto simp: random_shuffle_def split: prod.splits)
qed

lemma shuffle_frame: "errno (snd (random_shuffle os xs s)) = errno s"
proof -
  have "case for_each (shuffle_step os) [1 ..< length xs] xs s of (ys, t) \<Rightarrow> errno t = errno s"
    by (rule for_each_inv [where I = "\<lambda>ys t. errno t = errno s"])
      (auto simp: shuffle_step_def split: prod.splits)
  then show ?thesis by (auto simp: random_shuffle_def split: prod.splits)
qed

section \<open>The specification of the policies\<close>

text \<open>
  \<open>eligible\<close> says which branches a policy may return for a category of callers, \<open>selects\<close>
  which of the eligible ones it returns, and \<open>spec_error\<close> the error number when there is none.
\<close>

definition needs_path :: "Policy_Type \<Rightarrow> bool" where
  "needs_path p \<longleftrightarrow> p \<in> {Pol_epall, Pol_epff, Pol_eplfs, Pol_eplus, Pol_epmfs, Pol_eprand, Pol_newest}"

definition least_used_policy :: "Policy_Type \<Rightarrow> bool" where
  "least_used_policy p \<longleftrightarrow> p = Pol_lus \<or> p = Pol_eplus"

definition by_space :: "Policy_Type \<Rightarrow> bool" where
  "by_space p \<longleftrightarrow> p \<in> {Pol_mfs, Pol_epmfs, Pol_lfs, Pol_eplfs}"

definition refuses_all :: "Policy_Type \<Rightarrow> bool" where
  "refuses_all p \<longleftrightarrow> p = Pol_erofs \<or> p = Pol_invalid"

definition eligible ::
  "'w os \<Rightarrow> Policy_Type \<Rightarrow> Category_Type \<Rightarrow> string \<Rightarrow> u64 \<Rightarrow> 'w sys \<Rightarrow> Branch \<Rightarrow> bool" where
  "eligible os p T fusepath m s b \<longleftrightarrow>
     (case T of
        Cat_create \<Rightarrow>
          (needs_path p \<longrightarrow> has_path os fusepath s b) \<and> can_create os m s b
          \<and> (least_used_policy p \<longrightarrow> used os s b < U64_MAX)
      | Cat_action \<Rightarrow>
          has_path os fusepath s b \<and> can_act os s b
          \<and> (least_used_policy p \<longrightarrow> used os s b < U64_MAX)
      | _ \<Rightarrow>
          has_path os fusepath s b \<and> (by_space p \<longrightarrow> responds os s b) \<and> \<not> least_used_policy p)
     \<and> \<not> refuses_all p"

definition selects ::
  "'w os \<Rightarrow> Policy_Type \<Rightarrow> string \<Rightarrow> 'w sys \<Rightarrow> (Branch \<Rightarrow> bool) \<Rightarrow> Branch list \<Rightarrow> string list \<Rightarrow> bool" where
  "selects os p fusepath s P bs ps =
     (if p \<in> {Pol_all, Pol_epall} then picks_all P bs ps
      else if p \<in> {Pol_rand, Pol_eprand} then mset ps = mset (map br_path (filter P bs))
      else if p \<in> {Pol_ff, Pol_epff} then picks_first P bs ps
      else if p \<in> {Pol_mfs, Pol_epmfs} then picks_best P (\<le>) (avail os s) bs ps
      else if p \<in> {Pol_lfs, Pol_eplfs} then picks_best P (\<ge>) (avail os s) bs ps
      else if p \<in> {Pol_lus, Pol_eplus} then picks_best P (\<ge>) (used os s) bs ps
      else if p = Pol_newest then picks_best P (\<lambda>t u. sint t \<le> sint u) (mtime os fusepath s) bs ps
      else ps = [])"

definition spec_error ::
  "'w os \<Rightarrow> Policy_Type \<Rightarrow> Category_Type \<Rightarrow> string \<Rightarrow> u64 \<Rightarrow> 'w sys \<Rightarrow> Branch list \<Rightarrow> int" where
  "spec_error os p T fusepath m s bs =
     (if p = Pol_erofs then EROFS
      else if p = Pol_invalid then EINVAL
      else case T of
        Cat_create \<Rightarrow>
          worst_error (if needs_path p then ep_create_errors os fusepath m s bs else create_errors os m s bs)
      | Cat_action \<Rightarrow> worst_error (action_errors os fusepath s bs)
      | _ \<Rightarrow> ENOENT)"

lemmas spec_defs = eligible_def [abs_def] selects_def [abs_def] spec_error_def needs_path_def least_used_policy_def
  by_space_def refuses_all_def

lemmas Func_defs = policy_func_def Func_all_def Func_epall_def Func_ff_def Func_epff_def Func_mfs_def
  Func_epmfs_def Func_lfs_def Func_eplfs_def Func_lus_def Func_eplus_def Func_newest_def
  Func_erofs_def Func_invalid_def

lemma outcome_eplus_search:
  "steady s bs \<Longrightarrow>
   outcome (eplus_search os bs p [] s) (picks_best (\<lambda>b. False) (\<ge>) (used os s) bs) ENOENT"
  using eplus_search_fails [of s bs os p "[]"]
  by (auto simp: outcome_def picks_best_def)

lemma outcome_shuffle:
  assumes "outcome r (picks_all P bs) e"
  shows "outcome (case r of (rv, ps, t) \<Rightarrow>
       if rv = 0 then (case random_shuffle os ps t of (ps, t) \<Rightarrow> (rv, ps, t)) else (rv, ps, t))
     (\<lambda>ps. mset ps = mset (map br_path (filter P bs))) e"
proof -
  obtain rv ps t where r: "r = (rv, ps, t)" by (cases r) auto
  obtain qs u where q: "random_shuffle os ps t = (qs, u)" by fastforce
  have "mset qs = mset ps" "errno u = errno t"
    using shuffle_mset [of os ps t] shuffle_frame [of os ps t] q by simp_all
  moreover have "qs = [] \<longleftrightarrow> ps = []" using calculation(1) by (metis mset_zero_iff)
  ultimately show ?thesis using assms r q by (auto simp: outcome_def picks_all_def)
qed

lemma policy_outcome_all:
  assumes "steady s bs"
  shows "outcome (Func_all os T bs fp m [] s)
      (picks_all (eligible os Pol_rand T fp m s) bs) (spec_error os Pol_rand T fp m s bs)"
    and "outcome (Func_epall os T bs fp m [] s)
      (picks_all (eligible os Pol_eprand T fp m s) bs) (spec_error os Pol_eprand T fp m s bs)"
  using all_create_outcome [OF assms, of os m] epall_create_outcome [OF assms, of os fp m]
    epall_action_outcome [OF assms, of os fp] epall_search_outcome [OF assms, of os fp]
  by (cases T; simp add: Func_defs spec_defs)+

lemma policy_outcome:
  assumes "steady s bs"
  shows "outcome (policy_func os p T bs fp m [] s)
     (selects os p fp s (eligible os p T fp m s) bs) (spec_error os p T fp m s bs)"
proof (cases p)
  case Pol_all
  then show ?thesis
    using all_create_outcome [OF assms, of os m] epall_action_outcome [OF assms, of os fp] epall_search_outcome [OF assms, of os fp]
    by (cases T) (simp_all add: Func_defs spec_defs)
next
  case Pol_epall
  then show ?thesis
    using epall_create_outcome [OF assms, of os fp m] epall_action_outcome [OF assms, of os fp] epall_search_outcome [OF assms, of os fp]
    by (cases T) (simp_all add: Func_defs spec_defs)
next
  case Pol_ff
  then show ?thesis
    using ff_create_outcome [OF assms, of os m] epff_action_outcome [OF assms, of os fp] epff_search_outcome [OF assms, of os fp]
    by (cases T) (simp_all add: Func_defs spec_defs)
next
  case Pol_epff
  then show ?thesis
    using epff_create_outcome [OF assms, of os fp m] epff_action_outcome [OF assms, of os fp] epff_search_outcome [OF assms, of os fp]
    by (cases T) (simp_all add: Func_defs spec_defs)
next
  case Pol_lfs
  then show ?thesis
    using lfs_create_outcome [OF assms, of os m] eplfs_action_outcome [OF assms, of os fp] eplfs_search_outcome [OF assms, of os fp]
    by (cases T) (simp_all add: Func_defs spec_defs)
next
  case Pol_eplfs
  then show ?thesis
    using eplfs_create_outcome [OF assms, of os fp m] eplfs_action_outcome [OF assms, of os fp] eplfs_search_outcome [OF assms, of os fp]
    by (cases T) (simp_all add: Func_defs spec_defs)
next
  case Pol_lus
  then show ?thesis
    using lus_create_outcome [OF assms, of os m] eplus_action_outcome [OF assms, of os fp] outcome_eplus_search [OF assms, of os fp]
    by (cases T) (simp_all add: Func_defs spec_defs)
next
  case Pol_eplus
  then show ?thesis
    using eplus_create_outcome [OF assms, of os fp m] eplus_action_outcome [OF assms, of os fp] outcome_eplus_search [OF assms, of os fp]
    by (cases T) (simp_all add: Func_defs spec_defs)
next
  case Pol_mfs
  then show ?thesis
    using mfs_create_outcome [OF assms, of os m] epmfs_action_outcome [OF assms, of os fp] epmfs_search_outcome [OF assms, of os fp]
    by (cases T) (simp_all add: Func_defs spec_defs)
next
  case Pol_epmfs
  then show ?thesis
    using epmfs_create_outcome [OF assms, of os fp m] epmfs_action_outcome [OF assms, of os fp] epmfs_search_outcome [OF assms, of os fp]
    by (cases T) (simp_all add: Func_defs spec_defs)
next
  case Pol_newest
  then show ?thesis
    using newest_create_outcome [OF assms, of os fp m] newest_action_outcome [OF assms, of os fp] newest_search_outcome [OF assms, of os fp]
    by (cases T) (simp_all add: Func_defs spec_defs)
next
  case Pol_rand
  then show ?thesis
    using outcome_shuffle [OF policy_outcome_all(1) [OF assms], of os os T fp m]
    by (simp add: policy_func_def Func_rand_def selects_def [abs_def])
next
  case Pol_eprand
  then show ?thesis
    using outcome_shuffle [OF policy_outcome_all(2) [OF assms], of os os T fp m]
    by (simp add: policy_func_def Func_eprand_def selects_def [abs_def])
next
  case Pol_erofs
  then show ?thesis by (simp add: Func_defs spec_defs outcome_def)
next
  case Pol_invalid
  then show ?thesis by (simp add: Func_defs spec_defs outcome_def)
qed

end
