(* ===== verification/Sample.thy ===== *)
theory Sample
  imports Machine
begin

text \<open>
  A small concrete system for the examples: the kernel state is the list of the paths that exist.
  \<^verbatim>\<open>/a\<close> has ten blocks of free space, \<^verbatim>\<open>/ro\<close> is a read-only mount, every other path has
  twenty blocks. Nothing here models code of the repository.
\<close>

unbundle bit_operations_syntax

definition sample_stat :: "time_t \<Rightarrow> stat" where
  "sample_stat t = \<lparr>st_dev = 1, st_ino = 1, st_mode = 0x41ED, st_nlink = 1, st_uid = 1000, st_gid = 1000,
     st_rdev = 0, st_size = 0, st_blksize = 4096, st_blocks = 0, st_atim = \<lparr>tv_sec = t, tv_nsec = 0\<rparr>,
     st_mtim = \<lparr>tv_sec = t, tv_nsec = 0\<rparr>, st_ctim = \<lparr>tv_sec = t, tv_nsec = 0\<rparr>\<rparr>"

definition sample_statvfs :: "string \<Rightarrow> statvfs" where
  "sample_statvfs pth = \<lparr>f_bsize = 1, f_frsize = 1, f_blocks = 100, f_bfree = 50,
     f_bavail = (if pth = ''/a'' then 10 else 20), f_files = 100, f_ffree = 50, f_favail = 50, f_fsid = 0,
     f_flag = (if pth = ''/ro'' then 1 else 0), f_namemax = 255\<rparr>"

type_synonym sample_world = "string list"

definition sample_has :: "string \<Rightarrow> sample_world \<Rightarrow> unit ret" where
  "sample_has p w = (if p \<in> set w then Inr () else Inl ENOENT)"

definition sample_lookup :: "string \<Rightarrow> sample_world \<Rightarrow> stat ret" where
  "sample_lookup p w = (if p \<in> set w then Inr (sample_stat 5) else Inl ENOENT)"

definition sample_add :: "string \<Rightarrow> sample_world \<Rightarrow> unit ret \<times> sample_world" where
  "sample_add p w = (if p \<in> set w then (Inl EEXIST, w) else (Inr (), p # w))"

definition sample_del :: "string \<Rightarrow> sample_world \<Rightarrow> unit ret \<times> sample_world" where
  "sample_del p w = (if p \<in> set w then (Inr (), remove1 p w) else (Inl ENOENT, w))"

definition sample_move :: "string \<Rightarrow> string \<Rightarrow> sample_world \<Rightarrow> unit ret \<times> sample_world" where
  "sample_move p q w = (if p \<in> set w then (Inr (), q # filter (\<lambda>x. x \<noteq> p \<and> x \<noteq> q) w) else (Inl ENOENT, w))"

definition sample_os :: "sample_world os" where
  "sample_os = \<lparr>
     k_time = (\<lambda>w. 100), k_rand = (\<lambda>w. (1, w)), k_glob = (\<lambda>p w. [p]), k_realpath = (\<lambda>p w. Some p),
     k_fnmatch = (\<lambda>p x. p = x),
     k_lstat = sample_lookup, k_stat = sample_lookup, k_fstat = (\<lambda>fd w. Inr (sample_stat 5)),
     k_statvfs = (\<lambda>p w. Inr (sample_statvfs p)), k_fstatvfs = (\<lambda>fd w. Inr (sample_statvfs [])),
     k_faccessat = (\<lambda>p m. sample_has p), k_readlink = (\<lambda>p n w. Inl EINVAL),
     k_lgetxattr = (\<lambda>p a n w. Inl ENODATA), k_llistxattr = (\<lambda>p n w. Inr []),
     k_readdir = (\<lambda>p w. Inl ENOENT), k_getfl = (\<lambda>fd w. Inr 0), k_geteuid = (\<lambda>w. 0), k_getegid = (\<lambda>w. 0),
     k_getgrouplist = (\<lambda>u g w. Some [g]),
     k_open = (\<lambda>p f m w. if p \<in> set w then (Inr 3, w)
       else if f AND 0x40 \<noteq> 0 then (Inr 3, p # w) else (Inl ENOENT, w)), k_close = (\<lambda>fd w. (Inr (), w)),
     k_mkstemp = (\<lambda>p w. (Inr (p, 4), p # w)), k_mkdir = (\<lambda>p m. sample_add p), k_mknod = (\<lambda>p m d. sample_add p),
     k_symlink = (\<lambda>x. sample_add), k_link = (\<lambda>x. sample_add), k_rename = sample_move,
     k_remove = sample_del, k_unlink = sample_del, k_rmdir = sample_del,
     k_chmod = (\<lambda>p m w. (sample_has p w, w)), k_fchmod = (\<lambda>fd m w. (Inr (), w)),
     k_lchown = (\<lambda>p u g w. (sample_has p w, w)), k_fchown = (\<lambda>fd u g w. (Inr (), w)),
     k_truncate = (\<lambda>p n w. (sample_has p w, w)), k_utimensat = (\<lambda>p a m l w. (sample_has p w, w)),
     k_futimens = (\<lambda>fd a m w. (Inr (), w)), k_lsetxattr = (\<lambda>p a v f w. (sample_has p w, w)),
     k_lremovexattr = (\<lambda>p a w. (sample_has p w, w)), k_setfl = (\<lambda>fd m w. (Inr (), w)),
     k_pwrite = (\<lambda>fd b n w. (Inr (length b), w)), k_pread = (\<lambda>fd c n w. Inr []),
     k_read = (\<lambda>fd c w. (Inr [], w)), k_write = (\<lambda>fd b w. (Inr (length b), w)),
     k_lseek_start = (\<lambda>fd w. (Inr (), w)), k_ftruncate = (\<lambda>fd n w. (Inr (), w)),
     k_fallocate = (\<lambda>fd m a b w. (Inr (), w)), k_fadvise = (\<lambda>fd a b c w. (Inr (), w)),
     k_fsync = (\<lambda>fd w. (Inr (), w)), k_fdatasync = (\<lambda>fd w. (Inr (), w)), k_flock = (\<lambda>fd c w. (Inr (), w)),
     k_dup = (\<lambda>fd w. (Inr 9, w)), k_ioctl = (\<lambda>fd c d w. (Inl ENOTTY, w)), k_ficlone = (\<lambda>a b w. (Inr 0, w)),
     k_copy_file_range = (\<lambda>a b c w. (Inr 0, w)), k_sendfile = (\<lambda>a b c w. (Inr 0, w)),
     k_getflags = (\<lambda>fd w. Inl ENOTTY), k_setflags = (\<lambda>fd f w. (Inl ENOTTY, w)),
     k_flistxattr = (\<lambda>fd n w. Inr []), k_fgetxattr = (\<lambda>fd a n w. Inl ENODATA),
     k_fsetxattr = (\<lambda>fd a v f w. (Inr (), w)),
     k_setreuid = (\<lambda>u w. (Inr (), w)), k_setregid = (\<lambda>g w. (Inr (), w)), k_setgroups = (\<lambda>g w. (Inr (), w))\<rparr>"

definition sample_sys :: "sample_world \<Rightarrow> sample_world sys" where
  "sample_sys w = \<lparr>world = w, errno = 0, g_timeout = 0, g_cache = Map.empty, currentuid = 0, currentgid = 0,
     initialized = True, gidcache = \<lparr>gc_recs = []\<rparr>\<rparr>"

text \<open>The sample system answers by rewriting.\<close>

lemmas sample_defs = sample_os_def sample_sys_def sample_stat_def sample_statvfs_def sample_has_def
  sample_lookup_def sample_add_def sample_del_def sample_move_def

end
