(* ===== verification/Policy_Theorems.thy ===== *)
theory Policy_Theorems
  imports Policy_Results Sample
begin

text \<open>
  The properties of the policies: the refinement of their specification, what it means for
  the callers, and that choosing a branch changes no file.
\<close>

section \<open>Choosing only reads\<close>

text \<open>The state but for the entries of the statvfs cache and \<^verbatim>\<open>errno\<close>.\<close>

definition view_of :: "'w sys \<Rightarrow> 'w \<times> u64 \<times> u32 \<times> u32 \<times> bool \<times> gid_t_cache" where
  "view_of s = (world s, g_timeout s, ids s)"

lemma view_of_errno [simp]: "view_of (s\<lparr>errno := e\<rparr>) = view_of s"
  by (simp add: view_of_def)

lemma query_view: "local_query q \<Longrightarrow> view_of (snd (q b s)) = view_of s"
  by (auto simp: local_query_def only_at_def view_of_def)

lemma collect_view:
  assumes "local_query q"
  shows "view_of (snd (for_each (collect_body q) bs a s)) = view_of s"
proof -
  have "view_of (snd (collect_body q b a t)) = view_of t" for b a t
    using query_view [OF assms, of b t] by (auto simp: collect_body_def split: prod.splits sum.splits)
  then have "case for_each (collect_body q) bs a s of (a', t) \<Rightarrow> view_of t = view_of s"
    by (intro for_each_inv [where I = "\<lambda>a t. view_of t = view_of s"]) (auto simp: case_prod_beta)
  then show ?thesis by (simp add: case_prod_beta)
qed

lemma best_view:
  assumes "local_query q"
  shows "view_of (snd (for_each (best_body worse q) bs a s)) = view_of s"
proof -
  have "view_of (snd (best_body worse q b a t)) = view_of t" for b a t
    using query_view [OF assms, of b t] by (auto simp: best_body_def split: prod.splits sum.splits)
  then have "case for_each (best_body worse q) bs a s of (a', t) \<Rightarrow> view_of t = view_of s"
    by (intro for_each_inv [where I = "\<lambda>a t. view_of t = view_of s"]) (auto simp: case_prod_beta)
  then show ?thesis by (simp add: case_prod_beta)
qed

lemma first_view:
  assumes "local_query q"
  shows "view_of (snd (for_until (first_body q) bs e s)) = view_of s"
proof (induction bs arbitrary: e s)
  case (Cons b bs)
  show ?case
    using query_view [OF assms, of b s] Cons
    by (auto simp: first_body_def split: prod.splits sum.splits)
qed simp

lemma newest_view:
  assumes "local_query q"
  shows "view_of (snd (for_each (newest_body os p refuse q) bs a s)) = view_of s"
proof -
  have "view_of (snd (newest_body os p refuse q b a t)) = view_of t" for b a t
    using newest_body_step(1) [OF assms, of b t os p refuse a] by (simp add: only_at_def view_of_def)
  then have "case for_each (newest_body os p refuse q) bs a s of (a', t) \<Rightarrow> view_of t = view_of s"
    by (intro for_each_inv [where I = "\<lambda>a t. view_of t = view_of s"]) (auto simp: case_prod_beta)
  then show ?thesis by (simp add: case_prod_beta)
qed

lemma return_view [simp]:
  "view_of (state_of (return_collected r)) = view_of (snd r)"
  "view_of (state_of (return_first paths t)) = view_of (snd t)"
  "view_of (state_of (return_best paths u)) = view_of (snd u)"
  by (auto simp: return_collected_def return_first_def return_best_def
      split: prod.splits sum.splits option.splits)

lemma create_view:
  "view_of (state_of (all_create os bs m ps s)) = view_of s"
  "view_of (state_of (epall_create os bs p m ps s)) = view_of s"
  "view_of (state_of (ff_create os bs m ps s)) = view_of s"
  "view_of (state_of (epff_create os bs p m ps s)) = view_of s"
  "view_of (state_of (mfs_create os bs m ps s)) = view_of s"
  "view_of (state_of (epmfs_create os bs p m ps s)) = view_of s"
  "view_of (state_of (lfs_create os bs m ps s)) = view_of s"
  "view_of (state_of (eplfs_create os bs p m ps s)) = view_of s"
  "view_of (state_of (lus_create os bs m ps s)) = view_of s"
  "view_of (state_of (eplus_create os bs p m ps s)) = view_of s"
  "view_of (state_of (newest_create os bs p m ps s)) = view_of s"
  by (simp_all add: all_create_def epall_create_def ff_create_def epff_create_def mfs_create_def
      epmfs_create_def lfs_create_def eplfs_create_def lus_create_def eplus_create_def newest_create_def
      policy_defs newest_body_eqs collect_view first_view best_view newest_view)

lemma action_view:
  "view_of (state_of (epall_action os bs p ps s)) = view_of s"
  "view_of (state_of (epff_action os bs p ps s)) = view_of s"
  "view_of (state_of (epmfs_action os bs p ps s)) = view_of s"
  "view_of (state_of (eplfs_action os bs p ps s)) = view_of s"
  "view_of (state_of (eplus_action os bs p ps s)) = view_of s"
  "view_of (state_of (newest_action os bs p ps s)) = view_of s"
  by (simp_all add: epall_action_def epff_action_def epmfs_action_def eplfs_action_def eplus_action_def
      newest_action_def policy_defs newest_body_eqs collect_view first_view best_view newest_view)

lemma search_view:
  "view_of (state_of (epall_search os bs p ps s)) = view_of s"
  "view_of (state_of (epff_search os bs p ps s)) = view_of s"
  "view_of (state_of (epmfs_search os bs p ps s)) = view_of s"
  "view_of (state_of (eplfs_search os bs p ps s)) = view_of s"
  "view_of (state_of (eplus_search os bs p ps s)) = view_of s"
  "view_of (state_of (newest_search os bs p ps s)) = view_of s"
  by (simp_all add: epall_search_def epff_search_def epmfs_search_def eplfs_search_def eplus_search_def
      newest_search_def epall_search_loop epff_search_loop epmfs_search_loop eplfs_search_loop
      eplus_search_loop newest_search_loop case_prod_beta collect_view first_view best_view newest_view
      split: sum.splits)

lemma policy_view:
  "p \<noteq> Pol_rand \<Longrightarrow> p \<noteq> Pol_eprand \<Longrightarrow> view_of (state_of (policy_func os p T bs fp m ps s)) = view_of s"
  by (cases p; cases T; simp add: Func_defs create_view action_view search_view)

lemma policy_world:
  "p \<noteq> Pol_rand \<Longrightarrow> p \<noteq> Pol_eprand \<Longrightarrow> world (state_of (policy_func os p T bs fp m ps s)) = world s"
  using policy_view [of p os T bs fp m ps s] by (simp add: view_of_def)

lemma shuffle_view: "snd (view_of (snd (random_shuffle os xs s))) = snd (view_of s)"
proof -
  have "case for_each (shuffle_step os) [1 ..< length xs] xs s of (ys, t) \<Rightarrow> snd (view_of t) = snd (view_of s)"
    by (rule for_each_inv [where I = "\<lambda>ys t. snd (view_of t) = snd (view_of s)"])
      (auto simp: shuffle_step_def view_of_def split: prod.splits)
  then show ?thesis by (auto simp: random_shuffle_def split: prod.splits)
qed

lemma policy_frame: "snd (view_of (state_of (policy_func os p T bs fp m ps s))) = snd (view_of s)"
proof -
  have "snd (view_of (state_of (Func_rand os T bs fp m ps s))) = snd (view_of s)"
    "snd (view_of (state_of (Func_eprand os T bs fp m ps s))) = snd (view_of s)"
    using policy_view [of Pol_all os T bs fp m ps s] policy_view [of Pol_epall os T bs fp m ps s]
    by (auto simp: Func_rand_def Func_eprand_def policy_func_def case_prod_beta shuffle_view)
  then show ?thesis
    using policy_view [of p os T bs fp m ps s] by (cases p) (simp_all add: policy_func_def)
qed

section \<open>Properties\<close>

lemma perm_sound:
  assumes "mset ps = mset (map br_path (filter P bs))" "x \<in> set ps"
  shows "\<exists>b \<in> set bs. br_path b = x \<and> P b"
proof -
  have "x \<in> set (map br_path (filter P bs))" using assms by (metis set_mset_mset)
  then show ?thesis by auto
qed

lemma perm_empty:
  "mset ps = mset (map br_path (filter P bs)) \<Longrightarrow> ps = [] \<longleftrightarrow> filter P bs = []"
  by (metis list.map_disc_iff mset_zero_iff)

lemma selects_sound:
  assumes "selects os p fp s P bs ps" "x \<in> set ps"
  shows "\<exists>b \<in> set bs. br_path b = x \<and> P b"
  using assms perm_sound [of ps P bs x]
  by (cases p) (simp_all add: selects_def picks_sound)

lemma selects_empty:
  assumes "selects os p fp s P bs ps" "refuses_all p \<Longrightarrow> filter P bs = []"
  shows "ps = [] \<longleftrightarrow> filter P bs = []"
  using assms perm_empty [of ps P bs]
  by (cases p) (auto simp: selects_def refuses_all_def picks_all_def picks_first_def picks_best_def
      filter_empty_conv)

lemma policy_selects:
  "steady s bs \<Longrightarrow>
   selects os p fp s (eligible os p T fp m s) bs (paths_of (policy_func os p T bs fp m [] s))"
  using policy_outcome [of s bs os p T fp m] by (simp add: outcome_def)

lemma policy_eligible:
  "steady s bs \<Longrightarrow> x \<in> set (paths_of (policy_func os p T bs fp m [] s)) \<Longrightarrow>
   \<exists>b \<in> set bs. br_path b = x \<and> eligible os p T fp m s b"
  by (rule selects_sound [OF policy_selects])

lemma policy_empty_iff:
  "steady s bs \<Longrightarrow>
   paths_of (policy_func os p T bs fp m [] s) = [] \<longleftrightarrow> filter (eligible os p T fp m s) bs = []"
  by (rule selects_empty [OF policy_selects]) (simp_all add: eligible_def)

text \<open>
  What the documentation promises (README.md, the table of the policies). \<open>promised\<close>: the branches a policy may return
  for a category of callers. \<open>reasons\<close>: why the branches it may not return were refused; a branch tagged or mounted
  read-only counts as \<^verbatim>\<open>EROFS\<close>, one below the minimum free space as \<^verbatim>\<open>ENOSPC\<close>, one without the path or one
  that does not respond as \<^verbatim>\<open>ENOENT\<close>.
\<close>

definition compares_space :: "Policy_Type \<Rightarrow> bool" where
  "compares_space p \<longleftrightarrow> p \<in> {Pol_mfs, Pol_epmfs, Pol_lfs, Pol_eplfs, Pol_lus, Pol_eplus}"

definition promised ::
  "'w os \<Rightarrow> Policy_Type \<Rightarrow> Category_Type \<Rightarrow> string \<Rightarrow> u64 \<Rightarrow> 'w sys \<Rightarrow> Branch \<Rightarrow> bool" where
  "promised os p T fusepath m s b \<longleftrightarrow>
     p \<noteq> Pol_erofs \<and> p \<noteq> Pol_invalid
     \<and> (case T of
          Cat_create \<Rightarrow> (needs_path p \<longrightarrow> has_path os fusepath s b) \<and> can_create os m s b
        | Cat_action \<Rightarrow> has_path os fusepath s b \<and> can_act os s b
        | _ \<Rightarrow> has_path os fusepath s b \<and> (compares_space p \<longrightarrow> responds os s b))"

definition refusal ::
  "'w os \<Rightarrow> Policy_Type \<Rightarrow> Category_Type \<Rightarrow> string \<Rightarrow> u64 \<Rightarrow> 'w sys \<Rightarrow> Branch \<Rightarrow> int set" where
  "refusal os p T fusepath m s b =
     (if (T = Cat_create \<longrightarrow> needs_path p) \<and> \<not> has_path os fusepath s b then {ENOENT}
      else if T = Cat_create \<and> ro_or_nc b \<or> T = Cat_action \<and> ro b then {EROFS}
      else case fst (fs_info os (br_path b) s) of
          None \<Rightarrow> {ENOENT}
        | Some i \<Rightarrow>
            if (T = Cat_create \<or> T = Cat_action) \<and> readonly i then {EROFS}
            else if T = Cat_create \<and> spaceavail i < m then {ENOSPC}
            else {})"

definition reasons ::
  "'w os \<Rightarrow> Policy_Type \<Rightarrow> Category_Type \<Rightarrow> string \<Rightarrow> u64 \<Rightarrow> 'w sys \<Rightarrow> Branch list \<Rightarrow> int set" where
  "reasons os p T fusepath m s bs =
     (if p = Pol_erofs then {EROFS} else if p = Pol_invalid then {EINVAL}
      else \<Union>b \<in> set bs. refusal os p T fusepath m s b)"

text \<open>
  The two policies that compare used space keep a strict minimum that starts at the largest figure, so a branch with that
  figure would be passed over.
\<close>

definition figures_below_max :: "'w os \<Rightarrow> Policy_Type \<Rightarrow> 'w sys \<Rightarrow> Branch list \<Rightarrow> bool" where
  "figures_below_max os p s bs \<longleftrightarrow> (least_used_policy p \<longrightarrow> (\<forall>b \<in> set bs. used os s b < U64_MAX))"

lemma promised_eligible:
  assumes "figures_below_max os p s bs" "least_used_policy p \<Longrightarrow> T = Cat_create \<or> T = Cat_action" "b \<in> set bs"
  shows "eligible os p T fusepath m s b = promised os p T fusepath m s b"
  using assms
  by (cases T) (auto simp: eligible_def promised_def figures_below_max_def refuses_all_def compares_space_def by_space_def
      least_used_policy_def)

lemma picks_best_cong:
  "(\<And>b. b \<in> set bs \<Longrightarrow> P b = Q b) \<Longrightarrow> picks_best P le fig bs ps = picks_best Q le fig bs ps"
  by (auto simp: picks_best_def filter_empty_conv)

lemma selects_cong:
  assumes "\<And>b. b \<in> set bs \<Longrightarrow> P b = Q b"
  shows "selects os p fp s P bs ps = selects os p fp s Q bs ps"
proof -
  have "filter P bs = filter Q bs" by (rule filter_cong) (simp_all add: assms)
  then show ?thesis by (simp add: selects_def picks_all_def picks_first_def picks_best_cong [OF assms])
qed

lemma worst_error_cases: "worst_error es \<in> set es \<or> worst_error es = ENOENT"
  by (simp add: worst_error_def)

lemma errors_of_iff: "e \<in> set (errors_of v bs) \<longleftrightarrow> (\<exists>b \<in> set bs. v b = Inl e)"
proof -
  have "e \<in> set (case v b of Inl e \<Rightarrow> [e] | Inr _ \<Rightarrow> []) \<longleftrightarrow> v b = Inl e" for b by (cases "v b") auto
  then show ?thesis by (simp add: errors_of_def)
qed

lemma at_path_fst:
  assumes "local_query q"
  shows "fst (at_path os p q b s) = (if has_path os p s b then fst (q b s) else Inl ENOENT)"
proof (cases "has_path os p s b")
  case True
  have "same_view (br_path b) s (snd (fs_exists os (br_path b) p s))"
    using only_at_fs_exists(2) [of "br_path b" s os "br_path b" p] fs_exists_cache [of os "br_path b" p s]
    by (simp add: same_view_def only_at_def)
  then show ?thesis using assms True by (simp add: local_query_def at_path_eq has_path_def)
qed (simp add: at_path_eq has_path_def)

lemma create_refusal:
  "\<not> needs_path p \<Longrightarrow> fst (create_query os m b s) = Inl e \<Longrightarrow> e \<in> refusal os p Cat_create fp m s b"
  by (auto simp: refusal_def create_query_eq split: if_splits option.splits)

lemma ep_create_refusal:
  "needs_path p \<Longrightarrow> fst (at_path os fp (create_query os m) b s) = Inl e \<Longrightarrow> e \<in> refusal os p Cat_create fp m s b"
  by (auto simp: refusal_def at_path_fst create_query_eq split: if_splits option.splits)

lemma action_refusal:
  "fst (at_path os fp (action_ro_query os) b s) = Inl e \<Longrightarrow> e \<in> refusal os p Cat_action fp m s b"
  by (auto simp: refusal_def at_path_fst action_queries_Inl [symmetric] action_query_eq split: if_splits option.splits)

lemma spec_error_reasons:
  "spec_error os p T fp m s bs \<in> reasons os p T fp m s bs \<or> spec_error os p T fp m s bs = ENOENT"
proof (cases "refuses_all p")
  case True
  then show ?thesis by (auto simp: spec_error_def reasons_def refuses_all_def)
next
  case False
  then have r: "reasons os p T fp m s bs = (\<Union>b \<in> set bs. refusal os p T fp m s b)" for T
    by (simp add: reasons_def refuses_all_def)
  have "set (create_errors os m s bs) \<subseteq> reasons os p Cat_create fp m s bs" if "\<not> needs_path p"
    unfolding r create_errors_def by (auto simp: errors_of_iff intro!: bexI create_refusal [OF that])
  moreover have "set (ep_create_errors os fp m s bs) \<subseteq> reasons os p Cat_create fp m s bs" if "needs_path p"
    unfolding r ep_create_errors_def by (auto simp: errors_of_iff intro!: bexI ep_create_refusal [OF that])
  moreover have "set (action_errors os fp s bs) \<subseteq> reasons os p Cat_action fp m s bs"
    unfolding r action_errors_def by (auto simp: errors_of_iff intro!: bexI action_refusal)
  ultimately show ?thesis
    using False worst_error_cases [of "create_errors os m s bs"] worst_error_cases [of "ep_create_errors os fp m s bs"]
      worst_error_cases [of "action_errors os fp s bs"]
    by (cases T) (auto simp: spec_error_def refuses_all_def)
qed

text \<open>
  C1: every policy chooses the branches its documentation promises. Called with an empty vector, on a pool in which no path
  is listed twice or with the statvfs cache switched off, the policy returns the branches its name stands for (\<open>selects\<close>)
  among those \<open>promised\<close> for the category of the caller, in the order or with the extremal figure it promises; it returns
  0 exactly when it returns a branch, and otherwise -1 with \<^verbatim>\<open>errno\<close> one of the \<open>reasons\<close> for which a branch was
  refused, or \<^verbatim>\<open>ENOENT\<close>. Not covered: searching with \<^verbatim>\<open>lus\<close> or \<^verbatim>\<open>eplus\<close>, and for these two a branch
  whose used space is the largest 64 bit number.
\<close>

theorem policy_meets_spec:
  assumes "steady s bs" "figures_below_max os p s bs"
    and "least_used_policy p \<longrightarrow> T = Cat_create \<or> T = Cat_action"
    and "policy_func os p T bs fusepath minfreespace [] s = (rv, paths, s')"
  shows "selects os p fusepath s (promised os p T fusepath minfreespace s) bs paths
    \<and> rv = (if paths = [] then - 1 else 0)
    \<and> (rv = - 1 \<longrightarrow> errno s' \<in> reasons os p T fusepath minfreespace s bs \<or> errno s' = ENOENT)"
proof -
  have "outcome (rv, paths, s') (selects os p fusepath s (eligible os p T fusepath minfreespace s) bs)
      (spec_error os p T fusepath minfreespace s bs)"
    using policy_outcome [OF assms(1), of os p T fusepath minfreespace] assms(4) by simp
  moreover have "selects os p fusepath s (eligible os p T fusepath minfreespace s) bs paths
      = selects os p fusepath s (promised os p T fusepath minfreespace s) bs paths"
    by (rule selects_cong) (use promised_eligible [OF assms(2)] assms(3) in blast)
  ultimately show ?thesis
    using spec_error_reasons [of os p T fusepath minfreespace s bs] by (auto simp: outcome_def split: if_splits)
qed

definition two_branches :: "Branch list" where
  "two_branches = [\<lparr>br_mode = Mode_RW, br_path = ''/a''\<rparr>, \<lparr>br_mode = Mode_RW, br_path = ''/b''\<rparr>]"

lemma steady_sample [simp]: "steady (sample_sys w) bs"
  by (simp add: steady_def sample_sys_def)

theorem policy_meets_spec_witness:
  "let r = policy_func sample_os Pol_mfs Cat_create two_branches ''/x'' 5 [] (sample_sys [])
   in steady (sample_sys []) two_branches \<and> r = (0, [''/b''], state_of r)
      \<and> selects sample_os Pol_mfs ''/x'' (sample_sys [])
          (promised sample_os Pol_mfs Cat_create ''/x'' 5 (sample_sys [])) two_branches [''/b'']"
proof -
  let ?r = "policy_func sample_os Pol_mfs Cat_create two_branches ''/x'' 5 [] (sample_sys [])"
  have "rc_of ?r = 0" "paths_of ?r = [''/b'']" by code_simp+
  then have r: "?r = (0, [''/b''], state_of ?r)" by (metis prod.collapse)
  have "figures_below_max sample_os Pol_mfs (sample_sys []) two_branches"
    "least_used_policy Pol_mfs \<longrightarrow> Cat_create = Cat_create \<or> Cat_create = Cat_action"
    by (simp_all add: figures_below_max_def least_used_policy_def)
  from policy_meets_spec [OF steady_sample this r] show ?thesis using r by (simp add: Let_def)
qed

text \<open>
  C2: a create policy never selects a branch on which the file could not be created: whatever the policy,
  each returned path belongs to a branch that is neither tagged RO nor NC, whose file
  system is not mounted read-only and has at least \<^verbatim>\<open>minfreespace\<close> available.
\<close>

theorem create_policy_safe:
  assumes "steady s bs" and "x \<in> set (paths_of (policy_func os p Cat_create bs fusepath minfreespace [] s))"
  shows "\<exists>b \<in> set bs. br_path b = x \<and> \<not> ro_or_nc b
    \<and> (\<exists>i. fst (fs_info os x s) = Some i \<and> \<not> readonly i \<and> minfreespace \<le> spaceavail i)"
proof -
  obtain b where "b \<in> set bs" "br_path b = x" "can_create os minfreespace s b"
    using policy_eligible [OF assms] by (auto simp: eligible_def)
  then show ?thesis by (intro bexI [of _ b]) (auto simp: can_create_def split: option.splits)
qed

theorem create_policy_safe_witness:
  "steady (sample_sys []) [\<lparr>br_mode = Mode_RO, br_path = ''/a''\<rparr>, \<lparr>br_mode = Mode_RW, br_path = ''/b''\<rparr>]
   \<and> paths_of (policy_func sample_os Pol_ff Cat_create
        [\<lparr>br_mode = Mode_RO, br_path = ''/a''\<rparr>, \<lparr>br_mode = Mode_RW, br_path = ''/b''\<rparr>] ''/x'' 5 [] (sample_sys []))
      = [''/b'']
   \<and> (\<exists>b \<in> set [\<lparr>br_mode = Mode_RO, br_path = ''/a''\<rparr>, \<lparr>br_mode = Mode_RW, br_path = ''/b''\<rparr>].
        br_path b = ''/b'' \<and> \<not> ro_or_nc b
        \<and> (\<exists>i. fst (fs_info sample_os ''/b'' (sample_sys [])) = Some i \<and> \<not> readonly i \<and> 5 \<le> spaceavail i))"
proof -
  let ?bs = "[\<lparr>br_mode = Mode_RO, br_path = ''/a''\<rparr>, \<lparr>br_mode = Mode_RW, br_path = ''/b''\<rparr>]"
  have st: "steady (sample_sys []) ?bs" by (simp add: steady_def sample_sys_def)
  have ps: "paths_of (policy_func sample_os Pol_ff Cat_create ?bs ''/x'' 5 [] (sample_sys [])) = [''/b'']"
    by code_simp
  show ?thesis
    using create_policy_safe [OF st, of "''/b''" sample_os Pol_ff "''/x''" 5] st ps by simp
qed

text \<open>
  C3: a path-preserving policy creates only where the path already is. For every entry of the policy table that is
  flagged path preserving, each branch selected for creation holds the path it was asked about.
\<close>

theorem path_preserving_create:
  assumes "steady s bs" "path_preserving (policies (pol_index p))"
    and "x \<in> set (paths_of (policy_func os p Cat_create bs fusepath minfreespace [] s))"
  shows "fst (fs_exists os x fusepath s)"
proof -
  have "needs_path p"
    using assms(2) by (cases p) (simp_all add: policies_def policies_vec_def needs_path_def)
  then show ?thesis
    using policy_eligible [OF assms(1,3)] by (auto simp: eligible_def has_path_def)
qed

theorem path_preserving_create_witness:
  "path_preserving (policies (pol_index Pol_epmfs))
   \<and> paths_of (policy_func sample_os Pol_epmfs Cat_create two_branches ''/x'' 5 [] (sample_sys [''/a/x''])) = [''/a'']
   \<and> fst (fs_exists sample_os ''/a'' ''/x'' (sample_sys [''/a/x'']))"
proof -
  have pp: "path_preserving (policies (pol_index Pol_epmfs))" by (simp add: policies_def policies_vec_def)
  have ps: "paths_of (policy_func sample_os Pol_epmfs Cat_create two_branches ''/x'' 5 [] (sample_sys [''/a/x''])) = [''/a'']"
    by code_simp
  show ?thesis
    using path_preserving_create [OF steady_sample pp, of "''/a''" sample_os two_branches "''/x''" 5 "[''/a/x'']"] pp ps
    by simp
qed

text \<open>
  C4: an action policy selects only branches where the file is and may be changed: the branch holds the path, is not tagged
  RO, and its file system answers and is not mounted read-only. A branch tagged NC stays eligible.
\<close>

theorem action_policy_safe:
  assumes "steady s bs" "x \<in> set (paths_of (policy_func os p Cat_action bs fusepath minfreespace [] s))"
  shows "fst (fs_exists os x fusepath s)
    \<and> (\<exists>b \<in> set bs. br_path b = x \<and> \<not> ro b)
    \<and> (\<exists>i. fst (fs_info os x s) = Some i \<and> \<not> readonly i)"
proof -
  obtain b where b: "b \<in> set bs" "br_path b = x" "has_path os fusepath s b" "can_act os s b"
    using policy_eligible [OF assms] by (auto simp: eligible_def)
  then show ?thesis by (auto simp: has_path_def can_act_def split: option.splits)
qed

definition nc_branches :: "Branch list" where
  "nc_branches = [\<lparr>br_mode = Mode_RO, br_path = ''/a''\<rparr>, \<lparr>br_mode = Mode_NC, br_path = ''/b''\<rparr>]"

theorem action_policy_safe_witness:
  "paths_of (policy_func sample_os Pol_all Cat_action nc_branches ''/x'' 5 [] (sample_sys [''/a/x'', ''/b/x''])) = [''/b'']
   \<and> (\<exists>b \<in> set nc_branches. br_path b = ''/b'' \<and> \<not> ro b)
   \<and> (\<exists>i. fst (fs_info sample_os ''/b'' (sample_sys [''/a/x'', ''/b/x''])) = Some i \<and> \<not> readonly i)"
proof -
  have ps: "paths_of (policy_func sample_os Pol_all Cat_action nc_branches ''/x'' 5 [] (sample_sys [''/a/x'', ''/b/x''])) = [''/b'']"
    by code_simp
  show ?thesis
    using action_policy_safe [OF steady_sample, of "''/b''" sample_os Pol_all nc_branches "''/x''" 5 "[''/a/x'', ''/b/x'']"] ps
    by simp
qed

text \<open>
  C5: a create policy finds a branch whenever there is one. A policy other than \<^verbatim>\<open>erofs\<close> and the invalid one, which
  always fail, returns 0 exactly when some branch can take the file (is not tagged RO or NC, responds, is not mounted
  read-only, has the minimum free space) and, for a policy that needs the path, already has it. For \<^verbatim>\<open>lus\<close> and
  \<^verbatim>\<open>eplus\<close> no branch may have the largest 64 bit number as its used space.
\<close>

theorem create_policy_complete:
  assumes "steady s bs" "figures_below_max os p s bs"
  shows "fst (policy_func os p Cat_create bs fusepath minfreespace [] s) = 0 \<longleftrightarrow>
    p \<noteq> Pol_erofs \<and> p \<noteq> Pol_invalid
    \<and> (\<exists>b \<in> set bs. can_create os minfreespace s b \<and> (needs_path p \<longrightarrow> has_path os fusepath s b))"
proof -
  have "fst (policy_func os p Cat_create bs fusepath minfreespace [] s) = 0 \<longleftrightarrow>
      paths_of (policy_func os p Cat_create bs fusepath minfreespace [] s) \<noteq> []"
    using policy_outcome [OF assms(1), of os p Cat_create fusepath minfreespace]
    by (auto simp: outcome_def split: if_splits)
  also have "\<dots> \<longleftrightarrow> (\<exists>b \<in> set bs. eligible os p Cat_create fusepath minfreespace s b)"
    using policy_empty_iff [OF assms(1), of os p Cat_create fusepath minfreespace]
    by (auto simp: filter_empty_conv)
  also have "\<dots> \<longleftrightarrow> (\<exists>b \<in> set bs. promised os p Cat_create fusepath minfreespace s b)"
    using promised_eligible [OF assms(2), of Cat_create] by auto
  finally show ?thesis by (auto simp: promised_def)
qed

theorem create_policy_complete_witness:
  "figures_below_max sample_os Pol_eplus (sample_sys [''/b/x'']) two_branches
   \<and> fst (policy_func sample_os Pol_eplus Cat_create two_branches ''/x'' 5 [] (sample_sys [''/b/x''])) = 0
   \<and> (\<exists>b \<in> set two_branches. can_create sample_os 5 (sample_sys [''/b/x'']) b
        \<and> (needs_path Pol_eplus \<longrightarrow> has_path sample_os ''/x'' (sample_sys [''/b/x'']) b))"
proof -
  have rc: "fst (policy_func sample_os Pol_eplus Cat_create two_branches ''/x'' 5 [] (sample_sys [''/b/x''])) = 0"
    by code_simp
  have "used sample_os (sample_sys [''/b/x'']) \<lparr>br_mode = Mode_RW, br_path = x\<rparr> < U64_MAX" if "x = ''/a'' \<or> x = ''/b''" for x
    using that by (elim disjE) (hypsubst, code_simp)+
  then have below: "figures_below_max sample_os Pol_eplus (sample_sys [''/b/x'']) two_branches"
    by (simp add: figures_below_max_def two_branches_def)
  show ?thesis
    using create_policy_complete [OF steady_sample below, of "''/x''" 5] rc below by simp
qed

text \<open>
  The reason a create policy reports is not the documented one (README.md: a branch refused for its free space makes the
  error \<^verbatim>\<open>ENOSPC\<close>). \<^verbatim>\<open>EROFS\<close> outranks \<^verbatim>\<open>ENOSPC\<close>: if some branch is tagged RO or NC, the failure of every
  policy that does not need the path is reported as a read-only file system, even when the writable branches only lack space.
\<close>

theorem create_failure_reports_erofs:
  assumes "steady s bs" "\<not> needs_path p" "p \<noteq> Pol_invalid"
    and "fst (policy_func os p Cat_create bs fusepath minfreespace [] s) = - 1"
    and "b \<in> set bs" "ro_or_nc b"
  shows "errno (state_of (policy_func os p Cat_create bs fusepath minfreespace [] s)) = EROFS"
proof -
  have "EROFS \<in> set (create_errors os minfreespace s bs)"
    using assms(5,6) by (auto simp: create_errors_def errors_of_def create_query_eq intro!: bexI [of _ b])
  then have "spec_error os p Cat_create fusepath minfreespace s bs = EROFS"
    using assms(2,3) by (simp add: spec_error_def worst_error_def)
  then show ?thesis
    using policy_outcome [OF assms(1), of os p Cat_create fusepath minfreespace] assms(4)
    by (auto simp: outcome_def split: if_splits)
qed

definition full_and_ro :: "Branch list" where
  "full_and_ro = [\<lparr>br_mode = Mode_RO, br_path = ''/a''\<rparr>, \<lparr>br_mode = Mode_RW, br_path = ''/b''\<rparr>]"

theorem create_failure_reports_erofs_witness:
  "let r = policy_func sample_os Pol_mfs Cat_create full_and_ro ''/x'' 1000 [] (sample_sys [])
   in fst r = - 1 \<and> errno (state_of r) = EROFS"
proof -
  let ?r = "policy_func sample_os Pol_mfs Cat_create full_and_ro ''/x'' 1000 [] (sample_sys [])"
  have rc: "fst ?r = - 1" by code_simp
  have b: "\<lparr>br_mode = Mode_RO, br_path = ''/a''\<rparr> \<in> set full_and_ro" by (simp add: full_and_ro_def)
  show ?thesis
    using create_failure_reports_erofs [OF steady_sample _ _ rc b] rc
    by (simp add: Let_def needs_path_def ro_or_nc_def)
qed

text \<open>
  The search of \<^verbatim>\<open>lus\<close> and \<^verbatim>\<open>eplus\<close> never finds anything: on every pool and for every path, even one that
  exists on a branch, it returns -1 with \<^verbatim>\<open>ENOENT\<close>. The running minimum of \<^verbatim>\<open>eplus::search\<close> starts at 0.
\<close>

theorem lus_search_never_finds:
  assumes "steady s bs" "p = Pol_lus \<or> p = Pol_eplus"
  shows "fst (policy_func os p Cat_search bs fusepath minfreespace paths s) = - 1
    \<and> errno (state_of (policy_func os p Cat_search bs fusepath minfreespace paths s)) = ENOENT"
  using eplus_search_fails [OF assms(1), of os fusepath paths] assms(2)
  by (auto simp: policy_func_def Func_lus_def Func_eplus_def)

theorem lus_search_never_finds_witness:
  "fst (fs_exists sample_os ''/a'' ''/x'' (sample_sys [''/a/x'']))
   \<and> fst (policy_func sample_os Pol_lus Cat_search two_branches ''/x'' 0 [] (sample_sys [''/a/x''])) = - 1
   \<and> errno (state_of (policy_func sample_os Pol_lus Cat_search two_branches ''/x'' 0 [] (sample_sys [''/a/x'']))) = ENOENT"
  using lus_search_never_finds [OF steady_sample, of Pol_lus sample_os two_branches "''/x''" 0 "[]" "[''/a/x'']"]
  by (simp add: fst_fs_exists sample_defs path_make_def c_str_def)

text \<open>
  C6: names and entries of the policy table correspond. Looking up the name of an entry returns that
  entry, and a string that is the name of no entry is looked up as the invalid policy.
\<close>

theorem Policy_find_names:
  "(\<forall>p. p \<noteq> Pol_invalid \<longrightarrow> pol_enum (Policy_find (pol_str (policies (pol_index p)))) = p)
   \<and> (\<forall>str. (\<forall>p. pol_str (policies (pol_index p)) \<noteq> str) \<longrightarrow> pol_enum (Policy_find str) = Pol_invalid)"
proof (intro conjI allI impI)
  fix p assume "p \<noteq> Pol_invalid"
  then obtain i where "i < POL_END" "pol_index p = int i" using pol_index_nat by blast
  then show "pol_enum (Policy_find (pol_str (policies (pol_index p)))) = p"
    using Policy_find_found [of i] policies_enum [of p] by simp
next
  fix str assume no: "\<forall>p. pol_str (policies (pol_index p)) \<noteq> str"
  have ex: "\<exists>p. pol_index p = int i" if "i < POL_END" for i
    by (rule pol_index_onto [OF that])
  have "Policy_find str = policies (- 1)"
    by (rule Policy_find_not_found) (metis ex no)
  then show "pol_enum (Policy_find str) = Pol_invalid"
    using policies_enum [of Pol_invalid] by simp
qed

theorem Policy_find_names_witness:
  "pol_enum (Policy_find (pol_str (policies (pol_index Pol_epmfs)))) = Pol_epmfs
   \<and> pol_str (policies (pol_index Pol_epmfs)) = ''epmfs''"
proof (rule conjI)
  show "pol_enum (Policy_find (pol_str (policies (pol_index Pol_epmfs)))) = Pol_epmfs"
    using Policy_find_names by blast
qed (simp add: policies_def policies_vec_def)

end
