(* ===== verification/Policy_Cache.thy ===== *)
theory Policy_Cache
  imports Policy_Theorems
begin

text \<open>
  \<^verbatim>\<open>policy_cache.cpp\<close>: the cache of the branch a path was opened on. \<^verbatim>\<open>operator[]\<close> of the
  map inserts a default entry for a path that has none, so a lookup that then fails leaves an entry with time \<open>0\<close> and
  the empty path behind. The mutex is not modelled: one thread runs.
\<close>

record Value =
  v_time :: u64
  v_path :: string

definition Value_default :: Value where
  "Value_default = \<lparr>v_time = 0, v_path = []\<rparr>"

record PolicyCache =
  pc_timeout :: u64
  pc_cache :: "string \<rightharpoonup> Value"

definition PolicyCache_init :: PolicyCache where
  "PolicyCache_init = \<lparr>pc_timeout = 0, pc_cache = Map.empty\<rparr>"

definition PolicyCache_erase :: "string \<Rightarrow> PolicyCache \<Rightarrow> PolicyCache" where
  "PolicyCache_erase fusepath pc = pc\<lparr>pc_cache := (pc_cache pc)(fusepath := None)\<rparr>"

definition expired :: "u64 \<Rightarrow> PolicyCache \<Rightarrow> Value \<Rightarrow> bool" where
  "expired now pc v \<longleftrightarrow> now - v_time v \<ge> pc_timeout pc"

definition PolicyCache_cleanup :: "'w os \<Rightarrow> nat \<Rightarrow> PolicyCache \<Rightarrow> 'w sys \<Rightarrow> PolicyCache \<times> 'w sys" where
  "PolicyCache_cleanup os prob pc s =
     (case k_rand os (world s) of (r, w) \<Rightarrow>
        let s = s\<lparr>world := w\<rparr>
        in if r mod prob \<noteq> 0 then (pc, s)
           else let now = k_time os (world s)
                in (pc\<lparr>pc_cache := (\<lambda>path. case pc_cache pc path of
                                             None \<Rightarrow> None
                                           | Some v \<Rightarrow> if expired now pc v then None else Some v)\<rparr>, s))"

definition PolicyCache_clear :: "PolicyCache \<Rightarrow> PolicyCache" where
  "PolicyCache_clear pc = pc\<lparr>pc_cache := Map.empty\<rparr>"

definition PolicyCache_call ::
  "'w os \<Rightarrow> Policy \<Rightarrow> Branch list \<Rightarrow> string \<Rightarrow> u64 \<Rightarrow> string \<Rightarrow> PolicyCache \<Rightarrow> 'w sys \<Rightarrow>
   int \<times> string \<times> PolicyCache \<times> 'w sys" where
  "PolicyCache_call os func branches fusepath minfreespace branch pc s =
     (if pc_timeout pc = 0
      then (case Func_Base_string os Cat_search func branches fusepath minfreespace branch s of
              (rv, branch, s) \<Rightarrow> (rv, branch, pc, s))
      else
        let now = k_time os (world s);
            v = (case pc_cache pc fusepath of None \<Rightarrow> Value_default | Some v \<Rightarrow> v);
            pc = pc\<lparr>pc_cache := (pc_cache pc)(fusepath \<mapsto> v)\<rparr>
        in if expired now pc v
           then (case Func_Base_string os Cat_search func branches fusepath minfreespace [] s of
                   (rv, found, s) \<Rightarrow>
                     if rv = - 1 then (- 1, branch, pc, s)
                     else (0, found,
                           pc\<lparr>pc_cache := (pc_cache pc)(fusepath \<mapsto> \<lparr>v_time = now, v_path = found\<rparr>)\<rparr>, s))
           else (0, v_path v, pc, s))"

section \<open>What the cache answers\<close>

text \<open>An entry was made by the policy when its path is the answer of the policy for the system state then.\<close>

lemma erase_lookup [simp]:
  "pc_cache (PolicyCache_erase p pc) q = (if q = p then None else pc_cache pc q)"
  "pc_timeout (PolicyCache_erase p pc) = pc_timeout pc"
  by (simp_all add: PolicyCache_erase_def)

lemma cleanup_lookup:
  "PolicyCache_cleanup os prob pc s = (pc', s') \<Longrightarrow> pc_cache pc' q = Some v \<Longrightarrow> pc_cache pc q = Some v"
  by (auto simp: PolicyCache_cleanup_def Let_def split: prod.splits if_splits option.splits)

lemma cleanup_timeout [simp]: "pc_timeout (fst (PolicyCache_cleanup os prob pc s)) = pc_timeout pc"
  by (simp add: PolicyCache_cleanup_def Let_def case_prod_beta)

text \<open>A path without an entry counts as expired unless the timeout reaches back to the epoch.\<close>

lemma call_miss:
  assumes "pc_timeout pc \<noteq> 0" "pc_timeout pc \<le> k_time os (world s)" "pc_cache pc p = None"
    and "Func_Base_string os Cat_search f bs p m [] s = (rv, found, s')" "rv \<noteq> - 1"
  shows "PolicyCache_call os f bs p m b pc s =
    (0, found, pc\<lparr>pc_cache := (pc_cache pc)(p \<mapsto> \<lparr>v_time = k_time os (world s), v_path = found\<rparr>)\<rparr>, s')"
  using assms by (simp add: PolicyCache_call_def Let_def expired_def Value_default_def)

lemma call_hit:
  assumes "pc_cache pc p = Some v" "\<not> expired (k_time os (world s)) pc v" "pc_timeout pc \<noteq> 0"
  shows "PolicyCache_call os f bs p m b pc s = (0, v_path v, pc, s)"
proof -
  have "pc\<lparr>pc_cache := (pc_cache pc)(p \<mapsto> v)\<rparr> = pc" using assms(1) by (simp add: fun_upd_idem)
  then show ?thesis using assms by (simp add: PolicyCache_call_def Let_def)
qed

section \<open>Properties\<close>

text \<open>
  C14: within its timeout the cache answers the same branch again without asking the policy: after a successful call at
  a time that is not before the timeout, a call for the same path less than \<^verbatim>\<open>timeout\<close> seconds
  later returns the same branch, changes nothing, and does so whatever the branches, the policy and the files are by then.
\<close>

theorem cached_branch_is_reused:
  assumes "pc_timeout pc \<noteq> 0" "pc_timeout pc \<le> k_time os (world s)" "pc_cache pc p = None"
    and "PolicyCache_call os f bs p m b pc s = (0, found, pc', s')"
    and "k_time os (world t) - k_time os (world s) < pc_timeout pc"
  shows "PolicyCache_call os g bs' p m' b' pc' t = (0, found, pc', t)"
proof -
  obtain rv x s1 where c: "Func_Base_string os Cat_search f bs p m [] s = (rv, x, s1)"
    by (cases "Func_Base_string os Cat_search f bs p m [] s") blast
  have "rv \<noteq> - 1"
    using assms(1-4) c by (auto simp: PolicyCache_call_def Let_def expired_def Value_default_def)
  then have "found = x" "pc' = pc\<lparr>pc_cache := (pc_cache pc)(p \<mapsto> \<lparr>v_time = k_time os (world s), v_path = x\<rparr>)\<rparr>"
    using call_miss [OF assms(1-3) c] assms(4) by auto
  then show ?thesis
    using assms(1,5) by (subst call_hit) (auto simp: expired_def not_le)
qed

definition sample_epff :: Policy where
  "sample_epff = \<lparr>pol_enum = Pol_epff, pol_str = ''epff'', path_preserving = True\<rparr>"

theorem cached_branch_is_reused_witness:
  "let pc = \<lparr>pc_timeout = 50, pc_cache = [''/f'' \<mapsto> \<lparr>v_time = 100, v_path = ''/a''\<rparr>]\<rparr>
   in PolicyCache_call sample_os sample_epff [] ''/f'' 0 [] pc (sample_sys []) = (0, ''/a'', pc, sample_sys [])"
proof -
  let ?pc = "\<lparr>pc_timeout = 50, pc_cache = Map.empty\<rparr>"
  let ?bs = "[\<lparr>br_mode = Mode_RW, br_path = ''/a''\<rparr>]"
  let ?r = "Func_Base_string sample_os Cat_search sample_epff ?bs ''/f'' 0 [] (sample_sys [''/a/f''])"
  have "fst ?r = 0" "fst (snd ?r) = ''/a''"
    by code_simp+
  then have r: "?r = (0, ''/a'', snd (snd ?r))" by (simp add: prod_eq_iff)
  have call: "PolicyCache_call sample_os sample_epff ?bs ''/f'' 0 [] ?pc (sample_sys [''/a/f'']) =
    (0, ''/a'', \<lparr>pc_timeout = 50, pc_cache = [''/f'' \<mapsto> \<lparr>v_time = 100, v_path = ''/a''\<rparr>]\<rparr>, snd (snd ?r))"
    by (subst call_miss [OF _ _ _ r]) (simp_all add: sample_os_def)
  show ?thesis
    using cached_branch_is_reused [OF _ _ _ call, of "sample_sys []" sample_epff "[]" 0 "[]"]
    by (simp add: sample_os_def)
qed

end
