(* ===== verification/Metadata.thy ===== *)
theory Metadata
  imports Sample Str_Util "HOL-Library.Char_ord" "HOL-Library.List_Lexorder"
begin

text \<open>
  Copying what belongs to a file besides its data: the inode flags (\<^verbatim>\<open>fs_attr_linux.icpp\<close>), the extended
  attributes (\<^verbatim>\<open>fs_xattr.cpp\<close>), and the owner and mode with the check that an error may be ignored
  (\<^verbatim>\<open>fs_base_chown.hpp\<close>, \<^verbatim>\<open>fs_base_chmod.hpp\<close>).

  Reading an attribute is a loop: ask for the size, then for the value, and start over when the value has grown
  meanwhile (\<^verbatim>\<open>ERANGE\<close>). The code sets no bound on the rounds; the model stops after \<open>XATTR_TRIES\<close> of them and reports
  the error. Nothing changes the kernel state between the two calls of the one thread modelled here, so every round sees
  what the first one saw: a kernel that takes a buffer of the length it reported ends the loop in its first round
  (\<open>xattr_loop_first_round\<close>), and any positive number of rounds gives the same result (\<open>xattr_loop_fuel\<close>). On a kernel that
  answers \<^verbatim>\<open>ERANGE\<close> for ever the code does not return.
\<close>

unbundle bit_operations_syntax

abbreviation O_RDONLY :: u32 where "O_RDONLY \<equiv> 0"
abbreviation O_WRONLY :: u32 where "O_WRONLY \<equiv> 1"
abbreviation O_RDWR :: u32 where "O_RDWR \<equiv> 2"
abbreviation O_CREAT :: u32 where "O_CREAT \<equiv> 0x40"
abbreviation O_EXCL :: u32 where "O_EXCL \<equiv> 0x80"
abbreviation O_NONBLOCK :: u32 where "O_NONBLOCK \<equiv> 0x800"
abbreviation O_NOFOLLOW :: u32 where "O_NOFOLLOW \<equiv> 0x20000"
abbreviation O_NOATIME :: u32 where "O_NOATIME \<equiv> 0x40000"

section \<open>Inode flags\<close>

definition get_fs_ioc_flags :: "'w os \<Rightarrow> int \<Rightarrow> 'w sys \<Rightarrow> u32 option \<times> 'w sys" where
  "get_fs_ioc_flags os fd s =
     (case sys_val (k_getflags os fd (world s)) s of
        (None, s) \<Rightarrow> (None, if errno s = EINVAL then s\<lparr>errno := ENOTSUP\<rparr> else s)
      | (Some flags, s) \<Rightarrow> (Some flags, s))"

definition set_fs_ioc_flags :: "'w os \<Rightarrow> int \<Rightarrow> u32 \<Rightarrow> 'w sys \<Rightarrow> int \<times> 'w sys" where
  "set_fs_ioc_flags os fd flags s =
     (case sys_unit (k_setflags os fd flags (world s)) s of
        (rv, s) \<Rightarrow> (rv, if rv = - 1 \<and> errno s = EINVAL then s\<lparr>errno := ENOTSUP\<rparr> else s))"

text \<open>Closing a descriptor on an error path keeps the error number.\<close>

definition close_keeping_errno :: "'w os \<Rightarrow> int \<Rightarrow> 'w sys \<Rightarrow> 'w sys" where
  "close_keeping_errno os fd s = (snd (fs_close os fd s))\<lparr>errno := errno s\<rparr>"

definition get_fs_ioc_flags_path :: "'w os \<Rightarrow> string \<Rightarrow> 'w sys \<Rightarrow> u32 option \<times> 'w sys" where
  "get_fs_ioc_flags_path os file s =
     (case fs_open os file (O_RDONLY OR O_NONBLOCK) 0 s of (fd, s) \<Rightarrow>
        if fd = - 1 then (None, s)
        else (case get_fs_ioc_flags os fd s of
                (None, s) \<Rightarrow> (None, close_keeping_errno os fd s)
              | (Some flags, s) \<Rightarrow>
                  (case fs_close os fd s of (rv, s) \<Rightarrow> (if rv = - 1 then None else Some flags, s))))"

definition set_fs_ioc_flags_path :: "'w os \<Rightarrow> string \<Rightarrow> u32 \<Rightarrow> 'w sys \<Rightarrow> int \<times> 'w sys" where
  "set_fs_ioc_flags_path os file flags s =
     (case fs_open os file (O_RDONLY OR O_NONBLOCK) 0 s of (fd, s) \<Rightarrow>
        if fd = - 1 then (- 1, s)
        else (case set_fs_ioc_flags os fd flags s of (rv, s) \<Rightarrow>
                if rv = - 1 then (- 1, close_keeping_errno os fd s)
                else fs_close os fd s))"

definition attr_copy_fd :: "'w os \<Rightarrow> int \<Rightarrow> int \<Rightarrow> 'w sys \<Rightarrow> int \<times> 'w sys" where
  "attr_copy_fd os fdin fdout s =
     (case get_fs_ioc_flags os fdin s of
        (None, s) \<Rightarrow> (- 1, s)
      | (Some flags, s) \<Rightarrow> set_fs_ioc_flags os fdout flags s)"

definition attr_copy :: "'w os \<Rightarrow> string \<Rightarrow> string \<Rightarrow> 'w sys \<Rightarrow> int \<times> 'w sys" where
  "attr_copy os src dst s =
     (case get_fs_ioc_flags_path os src s of
        (None, s) \<Rightarrow> (- 1, s)
      | (Some flags, s) \<Rightarrow> set_fs_ioc_flags_path os dst flags s)"

section \<open>Extended attributes\<close>

text \<open>
  \<open>call n\<close> is the system call with a buffer of \<open>n\<close> bytes; with \<open>0\<close> it reports the length only.
  \<open>None\<close> is the return value \<open>-1\<close>, and \<open>Some buf\<close> the buffer as it is after the loop, empty when the length is zero.
\<close>

fun xattr_loop :: "nat \<Rightarrow> (nat \<Rightarrow> 'w sys \<Rightarrow> string option \<times> 'w sys) \<Rightarrow> 'w sys \<Rightarrow> string option \<times> 'w sys" where
  "xattr_loop 0 call s = (None, s)"
| "xattr_loop (Suc n) call s =
     (case call 0 s of
        (None, s) \<Rightarrow> (None, s)
      | (Some v, s) \<Rightarrow>
          if v = [] then (Some [], s)
          else (case call (length v) s of
                  (None, s) \<Rightarrow> if errno s = ERANGE then xattr_loop n call s else (None, s)
                | (Some v', s) \<Rightarrow> (Some (v' @ replicate (length v - length v') (CHR 0x00)), s)))"

abbreviation XATTR_TRIES :: nat where "XATTR_TRIES \<equiv> 8"

definition xattr_list_fd :: "'w os \<Rightarrow> int \<Rightarrow> 'w sys \<Rightarrow> string option \<times> 'w sys" where
  "xattr_list_fd os fd s = xattr_loop XATTR_TRIES (fs_flistxattr os fd) (s\<lparr>errno := ERANGE\<rparr>)"

definition xattr_list :: "'w os \<Rightarrow> string \<Rightarrow> 'w sys \<Rightarrow> string option \<times> 'w sys" where
  "xattr_list os path s = xattr_loop XATTR_TRIES (fs_llistxattr os path) (s\<lparr>errno := ERANGE\<rparr>)"

definition xattr_list_vector :: "'w os \<Rightarrow> string \<Rightarrow> string list \<Rightarrow> 'w sys \<Rightarrow> string list option \<times> 'w sys" where
  "xattr_list_vector os path attrvector s =
     (case xattr_list os path s of
        (None, s) \<Rightarrow> (None, s)
      | (Some attrs, s) \<Rightarrow> (Some (split attrvector attrs NUL), s))"

definition xattr_list_vector_fd :: "'w os \<Rightarrow> int \<Rightarrow> string list \<Rightarrow> 'w sys \<Rightarrow> string list option \<times> 'w sys" where
  "xattr_list_vector_fd os fd attrvector s =
     (case xattr_list_fd os fd s of
        (None, s) \<Rightarrow> (None, s)
      | (Some attrs, s) \<Rightarrow> (Some (split attrvector attrs NUL), s))"

definition xattr_get_fd :: "'w os \<Rightarrow> int \<Rightarrow> string \<Rightarrow> 'w sys \<Rightarrow> string option \<times> 'w sys" where
  "xattr_get_fd os fd attr s = xattr_loop XATTR_TRIES (fs_fgetxattr os fd attr) (s\<lparr>errno := ERANGE\<rparr>)"

definition xattr_get :: "'w os \<Rightarrow> string \<Rightarrow> string \<Rightarrow> 'w sys \<Rightarrow> string option \<times> 'w sys" where
  "xattr_get os path attr s = xattr_loop XATTR_TRIES (fs_lgetxattr os path attr) (s\<lparr>errno := ERANGE\<rparr>)"

text \<open>A \<^verbatim>\<open>std::map\<close> is an association list sorted by key.\<close>

fun map_put :: "'k :: linorder \<Rightarrow> 'v \<Rightarrow> ('k \<times> 'v) list \<Rightarrow> ('k \<times> 'v) list" where
  "map_put k v [] = [(k, v)]"
| "map_put k v ((k', v') # xs) =
     (if k < k' then (k, v) # (k', v') # xs
      else if k = k' then (k, v) # xs
      else (k', v') # map_put k v xs)"

definition get_all_body ::
  "(string \<Rightarrow> 'w sys \<Rightarrow> string option \<times> 'w sys) \<Rightarrow> string \<Rightarrow> (string \<times> string) list \<Rightarrow> 'w sys \<Rightarrow>
   (string \<times> string) list \<times> 'w sys" where
  "get_all_body get key attrs s =
     (case get key s of
        (None, s) \<Rightarrow> (attrs, s)
      | (Some value, s) \<Rightarrow> (map_put key value attrs, s))"

definition xattr_get_all_fd :: "'w os \<Rightarrow> int \<Rightarrow> 'w sys \<Rightarrow> (string \<times> string) list option \<times> 'w sys" where
  "xattr_get_all_fd os fd s =
     (case xattr_list_fd os fd s of
        (None, s) \<Rightarrow> (None, s)
      | (Some attrstr, s) \<Rightarrow>
          (case for_each (get_all_body (xattr_get_fd os fd)) (getlines NUL attrstr) [] s of
             (attrs, s) \<Rightarrow> (Some attrs, s)))"

definition xattr_get_all :: "'w os \<Rightarrow> string \<Rightarrow> 'w sys \<Rightarrow> (string \<times> string) list option \<times> 'w sys" where
  "xattr_get_all os path s =
     (case xattr_list os path s of
        (None, s) \<Rightarrow> (None, s)
      | (Some attrstr, s) \<Rightarrow>
          (case for_each (get_all_body (xattr_get os path)) (getlines NUL attrstr) [] s of
             (attrs, s) \<Rightarrow> (Some attrs, s)))"

definition xattr_set_fd :: "'w os \<Rightarrow> int \<Rightarrow> string \<Rightarrow> string \<Rightarrow> u32 \<Rightarrow> 'w sys \<Rightarrow> int \<times> 'w sys" where
  "xattr_set_fd os fd key value flags s = fs_fsetxattr os fd (c_str key) value flags s"

definition xattr_set :: "'w os \<Rightarrow> string \<Rightarrow> string \<Rightarrow> string \<Rightarrow> u32 \<Rightarrow> 'w sys \<Rightarrow> int \<times> 'w sys" where
  "xattr_set os path key value flags s = fs_lsetxattr os path key value flags s"

definition xattr_set_body :: "'w os \<Rightarrow> int \<Rightarrow> string \<times> string \<Rightarrow> unit \<Rightarrow> 'w sys \<Rightarrow> (unit + int) \<times> 'w sys" where
  "xattr_set_body os fd kv u s =
     (case xattr_set_fd os fd (fst kv) (snd kv) 0 s of (rv, s) \<Rightarrow>
        if rv = - 1 then (Inr (- 1), s) else (Inl (), s))"

definition xattr_set_all_fd :: "'w os \<Rightarrow> int \<Rightarrow> (string \<times> string) list \<Rightarrow> 'w sys \<Rightarrow> int \<times> 'w sys" where
  "xattr_set_all_fd os fd attrs s =
     (case for_until (xattr_set_body os fd) attrs () s of
        (Inl _, s) \<Rightarrow> (0, s)
      | (Inr rv, s) \<Rightarrow> (rv, s))"

definition xattr_set_all :: "'w os \<Rightarrow> string \<Rightarrow> (string \<times> string) list \<Rightarrow> 'w sys \<Rightarrow> int \<times> 'w sys" where
  "xattr_set_all os path attrs s =
     (case fs_open os path (O_RDONLY OR O_NONBLOCK) 0 s of (fd, s) \<Rightarrow>
        if fd = - 1 then (- 1, s)
        else fs_close os fd (snd (xattr_set_all_fd os fd attrs s)))"

definition xattr_copy_fd :: "'w os \<Rightarrow> int \<Rightarrow> int \<Rightarrow> 'w sys \<Rightarrow> int \<times> 'w sys" where
  "xattr_copy_fd os fdin fdout s =
     (case xattr_get_all_fd os fdin s of
        (None, s) \<Rightarrow> (- 1, s)
      | (Some attrs, s) \<Rightarrow> xattr_set_all_fd os fdout attrs s)"

definition xattr_copy :: "'w os \<Rightarrow> string \<Rightarrow> string \<Rightarrow> 'w sys \<Rightarrow> int \<times> 'w sys" where
  "xattr_copy os src dst s =
     (case xattr_get_all os src s of
        (None, s) \<Rightarrow> (- 1, s)
      | (Some attrs, s) \<Rightarrow> xattr_set_all os dst attrs s)"

section \<open>Owner and mode\<close>

abbreviation MODE_BITS :: mode_t where "MODE_BITS \<equiv> 0xFFF"

definition lchown_check_on_error :: "'w os \<Rightarrow> string \<Rightarrow> stat \<Rightarrow> 'w sys \<Rightarrow> int \<times> 'w sys" where
  "lchown_check_on_error os path st s =
     (case fs_lchown os path (st_uid st) (st_gid st) s of (rv, s) \<Rightarrow>
        if rv = - 1
        then (let error = errno s
              in case fs_lstat os path s of
                   (None, s) \<Rightarrow> (- 1, s)
                 | (Some tmpst, s) \<Rightarrow>
                     if st_uid st \<noteq> st_uid tmpst \<or> st_gid st \<noteq> st_gid tmpst then fail_with error s
                     else (0, s))
        else (0, s))"

definition fchown_check_on_error :: "'w os \<Rightarrow> int \<Rightarrow> stat \<Rightarrow> 'w sys \<Rightarrow> int \<times> 'w sys" where
  "fchown_check_on_error os fd st s =
     (case fs_fchown os fd (st_uid st) (st_gid st) s of (rv, s) \<Rightarrow>
        if rv = - 1
        then (let error = errno s
              in case fs_fstat os fd s of
                   (None, s) \<Rightarrow> (- 1, s)
                 | (Some tmpst, s) \<Rightarrow>
                     if st_uid st \<noteq> st_uid tmpst \<or> st_gid st \<noteq> st_gid tmpst then fail_with error s
                     else (0, s))
        else (0, s))"

definition chmod_check_on_error :: "'w os \<Rightarrow> string \<Rightarrow> mode_t \<Rightarrow> 'w sys \<Rightarrow> int \<times> 'w sys" where
  "chmod_check_on_error os path mode s =
     (case fs_chmod os path mode s of (rv, s) \<Rightarrow>
        if rv = - 1
        then (let error = errno s
              in case fs_stat os path s of
                   (None, s) \<Rightarrow> (- 1, s)
                 | (Some st, s) \<Rightarrow>
                     if st_mode st AND MODE_BITS \<noteq> mode AND MODE_BITS then fail_with error s
                     else (0, s))
        else (0, s))"

definition fchmod_check_on_error :: "'w os \<Rightarrow> int \<Rightarrow> stat \<Rightarrow> 'w sys \<Rightarrow> int \<times> 'w sys" where
  "fchmod_check_on_error os fd st s =
     (case fs_fchmod os fd (st_mode st) s of (rv, s) \<Rightarrow>
        if rv = - 1
        then (let error = errno s
              in case fs_fstat os fd s of
                   (None, s) \<Rightarrow> (- 1, s)
                 | (Some tmpst, s) \<Rightarrow>
                     if st_mode st AND MODE_BITS \<noteq> st_mode tmpst AND MODE_BITS then fail_with error s
                     else (0, s))
        else (0, s))"

section \<open>What copying leaves alone\<close>

lemma keeps_flags [keeps_intros]:
  assumes "keeps s t"
  shows "keeps s (snd (get_fs_ioc_flags os fd t))" "keeps s (snd (set_fs_ioc_flags os fd f t))"
    "keeps s (close_keeping_errno os fd t)"
  using assms
  by (auto simp: get_fs_ioc_flags_def set_fs_ioc_flags_def close_keeping_errno_def fs_defs intro!: keeps_intros)

lemma keeps_attr [keeps_intros]:
  assumes "keeps s t"
  shows "keeps s (snd (get_fs_ioc_flags_path os p t))" "keeps s (snd (set_fs_ioc_flags_path os p f t))"
    "keeps s (snd (attr_copy os p q t))" "keeps s (snd (attr_copy_fd os fd fd' t))"
  using assms
  unfolding attr_copy_def attr_copy_fd_def get_fs_ioc_flags_path_def set_fs_ioc_flags_path_def fs_defs
  by (auto intro!: keeps_intros)

lemma keeps_xattr_loop:
  assumes "\<And>n u. keeps s u \<Longrightarrow> keeps s (snd (call n u))"
  shows "keeps s t \<Longrightarrow> keeps s (snd (xattr_loop n call t))"
  by (induction n arbitrary: t) (auto intro!: keeps_intros assms)

lemma keeps_xattr [keeps_intros]:
  assumes "keeps s t"
  shows "keeps s (snd (xattr_list os p t))" "keeps s (snd (xattr_list_fd os fd t))"
    "keeps s (snd (xattr_get os p a t))" "keeps s (snd (xattr_get_fd os fd a t))"
  using assms
  by (auto simp: xattr_list_def xattr_list_fd_def xattr_get_def xattr_get_fd_def fs_defs
      intro!: keeps_xattr_loop keeps_intros)

lemma keeps_xattr_all [keeps_intros]:
  assumes "keeps s t"
  shows "keeps s (snd (xattr_get_all os p t))" "keeps s (snd (xattr_get_all_fd os fd t))"
    "keeps s (snd (xattr_set_all_fd os fd attrs t))"
  using assms unfolding xattr_get_all_def xattr_get_all_fd_def xattr_set_all_fd_def
    get_all_body_def xattr_set_body_def xattr_set_fd_def fs_defs
  by (auto intro!: keeps_intros)

lemma keeps_xattr_copy [keeps_intros]:
  assumes "keeps s t"
  shows "keeps s (snd (xattr_set_all os p attrs t))" "keeps s (snd (xattr_copy os p q t))"
    "keeps s (snd (xattr_copy_fd os fd fd' t))"
  using assms unfolding xattr_copy_def xattr_copy_fd_def xattr_set_all_def fs_defs
  by (auto intro!: keeps_intros)

lemma keeps_check_on_error [keeps_intros]:
  assumes "keeps s t"
  shows "keeps s (snd (lchown_check_on_error os p st t))" "keeps s (snd (fchown_check_on_error os fd st t))"
    "keeps s (snd (chmod_check_on_error os p m t))" "keeps s (snd (fchmod_check_on_error os fd st t))"
  using assms
  unfolding lchown_check_on_error_def fchown_check_on_error_def chmod_check_on_error_def
    fchmod_check_on_error_def fs_defs Let_def
  by (auto intro!: keeps_intros)

section \<open>The number of rounds does not matter\<close>

text \<open>A call that only reads: its answer is a function of the kernel state, which it leaves alone.\<close>

definition reads :: "(nat \<Rightarrow> 'w sys \<Rightarrow> string option \<times> 'w sys) \<Rightarrow> bool" where
  "reads call \<longleftrightarrow> (\<exists>k. \<forall>n s. call n s = sys_val (k n (world s)) s)"

lemma reads_xattr_calls [simp]:
  "reads (fs_llistxattr os p)" "reads (fs_flistxattr os fd)"
  "reads (fs_lgetxattr os p a)" "reads (fs_fgetxattr os fd a)"
  by (auto simp: reads_def fs_defs fun_eq_iff)

text \<open>The answer of the loop, when it ends: a reference without the loop.\<close>

definition xattr_answer :: "(nat \<Rightarrow> 'w \<Rightarrow> string ret) \<Rightarrow> 'w \<Rightarrow> int + string" where
  "xattr_answer k w =
     (case k 0 w of
        Inl e \<Rightarrow> Inl e
      | Inr v \<Rightarrow>
          if v = [] then Inr []
          else (case k (length v) w of
                  Inl e \<Rightarrow> Inl e
                | Inr v' \<Rightarrow> Inr (v' @ replicate (length v - length v') NUL)))"

lemma xattr_loop_answer:
  assumes "\<And>n s. call n s = sys_val (k n (world s)) s"
  shows "xattr_loop (Suc n) call s =
    (case xattr_answer k (world s) of
       Inl e \<Rightarrow> (None, s\<lparr>errno := e\<rparr>)
     | Inr v \<Rightarrow> (Some v, s))"
proof (induction n arbitrary: s)
  case 0
  show ?case
    using assms [of _ s] by (auto simp: xattr_answer_def sys_val_def split: sum.splits)
next
  case (Suc n)
  show ?case
    unfolding xattr_loop.simps(2) [of "Suc n"]
    using Suc [of "s\<lparr>errno := ERANGE\<rparr>"] assms [of _ s]
    by (auto simp: xattr_answer_def sys_val_def split: sum.splits simp del: xattr_loop.simps)
qed

lemma xattr_loop_fuel: "reads call \<Longrightarrow> xattr_loop (Suc n) call s = xattr_loop (Suc m) call s"
proof -
  assume "reads call"
  then obtain k where "\<And>n s. call n s = sys_val (k n (world s)) s" by (auto simp: reads_def)
  then show ?thesis by (simp only: xattr_loop_answer)
qed

text \<open>When the call with the length just reported does not fail with \<^verbatim>\<open>ERANGE\<close>, the code's loop body runs once.\<close>

lemma xattr_loop_first_round:
  assumes "\<And>v t t' u. call 0 s = (Some v, t) \<Longrightarrow> call (length v) t = (None, u) \<Longrightarrow> errno u \<noteq> ERANGE"
  shows "xattr_loop (Suc n) call s = xattr_loop 1 call s"
  using assms by (auto split: prod.splits option.splits)

lemma xattr_loop_world: "reads call \<Longrightarrow> world (snd (xattr_loop n call s)) = world s"
proof (cases n)
  case (Suc m)
  assume "reads call"
  then obtain k where "\<And>n s. call n s = sys_val (k n (world s)) s" by (auto simp: reads_def)
  then show ?thesis using Suc by (auto simp only: xattr_loop_answer split: sum.splits)
      (simp_all)
qed simp

end
