(* ===== verification/Ugid.thy ===== *)
theory Ugid
  imports Sample
begin

text \<open>
  Credentials. \<^verbatim>\<open>ugid_linux.hpp\<close>: a thread takes the identity of the caller before it touches a branch and
  becomes root for a while to clone directories. \<^verbatim>\<open>gidcache.cpp\<close>: the supplementary groups of a
  user are kept in an array sorted by user id and searched by bisection. \<open>k_getgrouplist\<close> stands for
  \<^verbatim>\<open>getpwuid_r\<close> followed by \<^verbatim>\<open>getgrouplist\<close>; \<open>None\<close> means that the user is unknown.
\<close>

section \<open>The group cache\<close>

abbreviation MAXGIDS :: nat where "MAXGIDS \<equiv> 32"
abbreviation MAXRECS :: nat where "MAXRECS \<equiv> 256"

definition zero_rec :: gid_t_rec where
  "zero_rec = \<lparr>gr_uid = 0, gr_size = 0, gr_gids = replicate MAXGIDS 0\<rparr>"

abbreviation recs_of :: "'w sys \<Rightarrow> gid_t_rec list" where
  "recs_of s \<equiv> gc_recs (gidcache s)"

definition set_recs :: "gid_t_rec list \<Rightarrow> 'w sys \<Rightarrow> 'w sys" where
  "set_recs rs s = s\<lparr>gidcache := \<lparr>gc_recs = rs\<rparr>\<rparr>"

definition allocrec :: "'w os \<Rightarrow> 'w sys \<Rightarrow> nat \<times> 'w sys" where
  "allocrec os s =
     (if length (recs_of s) = MAXRECS
      then (case k_rand os (world s) of (r, w) \<Rightarrow> (r mod MAXRECS, s\<lparr>world := w\<rparr>))
      else (length (recs_of s), set_recs (recs_of s @ [zero_rec]) s))"

function lower_bound :: "gid_t_rec list \<Rightarrow> nat \<Rightarrow> nat \<Rightarrow> u32 \<Rightarrow> nat" where
  "lower_bound rs first count uid =
     (if count > 0
      then let step = count div 2; iter = first + step
           in if gr_uid (rs ! iter) < uid
              then lower_bound rs (Suc iter) (count - (step + 1)) uid
              else lower_bound rs first step uid
      else first)"
  by pat_completeness auto

termination
  by (relation "measure (\<lambda>(rs, first, count, uid). count)") auto

declare lower_bound.simps [simp del]

definition fill_rec :: "u32 \<Rightarrow> u32 list option \<Rightarrow> gid_t_rec \<Rightarrow> gid_t_rec" where
  "fill_rec gid groups r =
     (case groups of
        None \<Rightarrow> r
      | Some gs \<Rightarrow>
          if length gs \<le> MAXGIDS
          then r\<lparr>gr_size := int (length gs), gr_gids := gs @ drop (length gs) (gr_gids r)\<rparr>
          else r\<lparr>gr_size := 1, gr_gids := gid # drop 1 (take MAXGIDS gs)\<rparr>)"

definition gid_cache :: "'w os \<Rightarrow> u32 \<Rightarrow> u32 \<Rightarrow> 'w sys \<Rightarrow> nat \<times> 'w sys" where
  "gid_cache os uid gid s =
     (case allocrec os s of (i, s) \<Rightarrow>
        let r = (recs_of s ! i)\<lparr>gr_uid := uid\<rparr>
        in (i, set_recs ((recs_of s)[i := fill_rec gid (k_getgrouplist os uid gid (world s)) r]) s))"

definition setgroups :: "'w os \<Rightarrow> gid_t_rec \<Rightarrow> 'w sys \<Rightarrow> int \<times> 'w sys" where
  "setgroups os r s = sys_unit (k_setgroups os (take (nat (gr_size r)) (gr_gids r)) (world s)) s"

definition initgroups :: "'w os \<Rightarrow> u32 \<Rightarrow> u32 \<Rightarrow> 'w sys \<Rightarrow> int \<times> 'w sys" where
  "initgroups os uid gid s =
     (let i = lower_bound (recs_of s) 0 (length (recs_of s)) uid
      in if i = length (recs_of s) \<or> gr_uid (recs_of s ! i) \<noteq> uid
         then (case gid_cache os uid gid s of (i, s) \<Rightarrow>
               case setgroups os (recs_of s ! i) s of (rv, s) \<Rightarrow>
                 (rv, set_recs (sort_key gr_uid (recs_of s)) s))
         else setgroups os (recs_of s ! i) s)"

section \<open>The identity of the thread\<close>

definition setreuid :: "'w os \<Rightarrow> u32 \<Rightarrow> 'w sys \<Rightarrow> 'w sys" where
  "setreuid os uid s = snd (sys_unit (k_setreuid os uid (world s)) s)"

definition setregid :: "'w os \<Rightarrow> u32 \<Rightarrow> 'w sys \<Rightarrow> 'w sys" where
  "setregid os gid s = snd (sys_unit (k_setregid os gid (world s)) s)"

definition ugid_init :: "'w os \<Rightarrow> 'w sys \<Rightarrow> 'w sys" where
  "ugid_init os s =
     (if initialized s then s
      else s\<lparr>currentuid := k_geteuid os (world s), currentgid := k_getegid os (world s), initialized := True\<rparr>)"

definition ugid_Set :: "'w os \<Rightarrow> u32 \<Rightarrow> u32 \<Rightarrow> 'w sys \<Rightarrow> 'w sys" where
  "ugid_Set os newuid newgid s =
     (let s = ugid_init os s
      in if newuid = currentuid s \<and> newgid = currentgid s then s
         else
           let s = (if currentuid s \<noteq> 0 then setregid os 0 (setreuid os 0 s) else s);
               s = (if newgid \<noteq> 0 then snd (initgroups os newuid newgid (setregid os newgid s)) else s);
               s = (if newuid \<noteq> 0 then setreuid os newuid s else s)
           in s\<lparr>currentuid := newuid, currentgid := newgid\<rparr>)"

definition SetRootGuard :: "'w os \<Rightarrow> 'w sys \<Rightarrow> (u32 \<times> u32) \<times> 'w sys" where
  "SetRootGuard os s = ((currentuid s, currentgid s), ugid_Set os 0 0 s)"

definition SetRootGuard_end :: "'w os \<Rightarrow> u32 \<times> u32 \<Rightarrow> 'w sys \<Rightarrow> 'w sys" where
  "SetRootGuard_end os prev s = ugid_Set os (fst prev) (snd prev) s"

section \<open>Bisection\<close>

abbreviation uids_sorted :: "gid_t_rec list \<Rightarrow> bool" where
  "uids_sorted rs \<equiv> sorted (map gr_uid rs)"

lemma lower_bound_split:
  assumes "uids_sorted rs" "first + count \<le> length rs"
    and "\<forall>i < first. gr_uid (rs ! i) < uid"
    and "\<forall>i. first + count \<le> i \<and> i < length rs \<longrightarrow> uid \<le> gr_uid (rs ! i)"
  defines "k \<equiv> lower_bound rs first count uid"
  shows "k \<le> length rs \<and> (\<forall>i < k. gr_uid (rs ! i) < uid)
    \<and> (\<forall>i. k \<le> i \<and> i < length rs \<longrightarrow> uid \<le> gr_uid (rs ! i))"
  using assms(1-4) unfolding k_def
proof (induction rs first count uid rule: lower_bound.induct)
  case (1 rs first count uid)
  show ?case
  proof (cases "count > 0")
    case False
    then have "lower_bound rs first count uid = first" by (subst lower_bound.simps) simp
    then show ?thesis using 1(4-6) False by simp
  next
    case True
    let ?step = "count div 2" and ?iter = "first + count div 2"
    have iter: "?iter < length rs" using True 1(4) by linarith
    have mono: "gr_uid (rs ! i) \<le> gr_uid (rs ! j)" if "i \<le> j" "j < length rs" for i j
      using sorted_nth_mono [OF 1(3), of i j] that by simp
    show ?thesis
    proof (cases "gr_uid (rs ! ?iter) < uid")
      case less: True
      have "\<forall>i < Suc ?iter. gr_uid (rs ! i) < uid"
      proof (intro allI impI)
        fix i assume "i < Suc ?iter"
        then have "gr_uid (rs ! i) \<le> gr_uid (rs ! ?iter)" using mono iter by simp
        then show "gr_uid (rs ! i) < uid" using less by (rule order_le_less_trans)
      qed
      moreover have "Suc ?iter + (count - (?step + 1)) = first + count" using True by linarith
      moreover have "lower_bound rs first count uid = lower_bound rs (Suc ?iter) (count - (?step + 1)) uid"
        using True less by (subst lower_bound.simps) (simp add: Let_def)
      ultimately show ?thesis
        using 1(1) [OF True refl refl less 1(3)] 1(4,6) by metis
    next
      case ge: False
      have "uid \<le> gr_uid (rs ! i)" if "?iter \<le> i" "i < length rs" for i
        using mono [OF that] ge by (meson not_less order_trans)
      moreover have "?iter \<le> length rs" using iter by simp
      moreover have "lower_bound rs first count uid = lower_bound rs first ?step uid"
        using True ge by (subst lower_bound.simps) (simp add: Let_def)
      ultimately show ?thesis
        using 1(2) [OF True refl refl ge 1(3)] 1(5) by metis
    qed
  qed
qed

lemma lower_bound_whole:
  assumes "uids_sorted rs"
  shows "lower_bound rs 0 (length rs) uid \<le> length rs"
    and "\<forall>i < lower_bound rs 0 (length rs) uid. gr_uid (rs ! i) < uid"
    and "\<forall>i. lower_bound rs 0 (length rs) uid \<le> i \<and> i < length rs \<longrightarrow> uid \<le> gr_uid (rs ! i)"
proof -
  have "\<forall>i. 0 + length rs \<le> i \<and> i < length rs \<longrightarrow> uid \<le> gr_uid (rs ! i)" by auto
  from lower_bound_split [OF assms _ _ this]
  show "lower_bound rs 0 (length rs) uid \<le> length rs"
    "\<forall>i < lower_bound rs 0 (length rs) uid. gr_uid (rs ! i) < uid"
    "\<forall>i. lower_bound rs 0 (length rs) uid \<le> i \<and> i < length rs \<longrightarrow> uid \<le> gr_uid (rs ! i)"
    by simp_all
qed

lemma lower_bound_takeWhile:
  assumes "uids_sorted rs"
  shows "lower_bound rs 0 (length rs) uid = length (takeWhile (\<lambda>r. gr_uid r < uid) rs)"
proof -
  let ?k = "lower_bound rs 0 (length rs) uid"
  note k = lower_bound_whole [OF assms, of uid]
  have "takeWhile (\<lambda>r. gr_uid r < uid) rs = take ?k rs"
  proof (rule takeWhile_eq_take_P_nth)
    show "gr_uid (rs ! i) < uid" if "i < ?k" for i using k(2) that by blast
    show "\<not> gr_uid (rs ! ?k) < uid" if "?k < length rs" using k(3) that by (meson le_refl not_le)
  qed
  then show ?thesis using k(1) by simp
qed

section \<open>The invariant of the group cache\<close>

definition cache_ok :: "gid_t_rec list \<Rightarrow> bool" where
  "cache_ok rs \<longleftrightarrow> uids_sorted rs \<and> distinct (map gr_uid rs) \<and> length rs \<le> MAXRECS"

definition cached :: "u32 \<Rightarrow> gid_t_rec list \<Rightarrow> bool" where
  "cached uid rs \<longleftrightarrow> uid \<in> gr_uid ` set rs"

lemma lookup_hit:
  fixes uid :: u32
  assumes "uids_sorted rs"
  defines "i \<equiv> lower_bound rs 0 (length rs) uid"
  shows "(i = length rs \<or> gr_uid (rs ! i) \<noteq> uid) \<longleftrightarrow> \<not> cached uid rs"
proof -
  have split: "i \<le> length rs" "\<forall>j < i. gr_uid (rs ! j) < uid"
    "\<forall>j. i \<le> j \<and> j < length rs \<longrightarrow> uid \<le> gr_uid (rs ! j)"
    using lower_bound_whole [OF assms(1), of uid] by (simp_all only: i_def)
  have "\<not> cached uid rs" if no: "i = length rs \<or> gr_uid (rs ! i) \<noteq> uid"
  proof
    assume "cached uid rs"
    then obtain j where j: "j < length rs" "gr_uid (rs ! j) = uid"
      by (auto simp: cached_def in_set_conv_nth)
    then have "i \<le> j" using split(2) by (metis less_irrefl not_le)
    then have "i < length rs" using j(1) by simp
    then have "uid < gr_uid (rs ! i)" using no split(3) by (simp add: order.not_eq_order_implies_strict)
    moreover have "gr_uid (rs ! i) \<le> gr_uid (rs ! j)"
      using sorted_nth_mono [OF assms(1), of i j] \<open>i \<le> j\<close> j(1) by simp
    ultimately show False using j(2) by simp
  qed
  moreover have "cached uid rs" if "\<not> (i = length rs \<or> gr_uid (rs ! i) \<noteq> uid)"
    using that split(1) by (auto simp: cached_def intro!: image_eqI [of _ _ "rs ! i"])
  ultimately show ?thesis by blast
qed

lemma recs_of_simps [simp]:
  "recs_of (set_recs rs s) = rs" "world (set_recs rs s) = world s" "errno (set_recs rs s) = errno s"
  "currentuid (set_recs rs s) = currentuid s" "currentgid (set_recs rs s) = currentgid s"
  "initialized (set_recs rs s) = initialized s"
  by (simp_all add: set_recs_def)

lemma sys_unit_frame [simp]:
  "gidcache (snd (sys_unit r s)) = gidcache s" "currentuid (snd (sys_unit r s)) = currentuid s"
  "currentgid (snd (sys_unit r s)) = currentgid s" "initialized (snd (sys_unit r s)) = initialized s"
  "g_timeout (snd (sys_unit r s)) = g_timeout s" "g_cache (snd (sys_unit r s)) = g_cache s"
  by (cases r; cases "fst r"; simp add: sys_unit_def)+

lemma fill_rec_uid [simp]: "gr_uid (fill_rec gid gs r) = gr_uid r"
  by (simp add: fill_rec_def split: option.splits)

lemma gid_cache_ok:
  assumes "distinct (map gr_uid (recs_of s))" "length (recs_of s) \<le> MAXRECS" "\<not> cached uid (recs_of s)"
    and "gid_cache os uid gid s = (i, s')"
  shows "distinct (map gr_uid (recs_of s')) \<and> length (recs_of s') \<le> MAXRECS \<and> i < length (recs_of s')
    \<and> gr_uid (recs_of s' ! i) = uid"
proof (cases "length (recs_of s) = MAXRECS")
  case True
  obtain r w where rw: "k_rand os (world s) = (r, w)" by fastforce
  let ?x = "fill_rec gid (k_getgrouplist os uid gid w) ((recs_of s ! (r mod MAXRECS))\<lparr>gr_uid := uid\<rparr>)"
  have "gid_cache os uid gid s = (r mod MAXRECS, set_recs ((recs_of s)[r mod MAXRECS := ?x]) (s\<lparr>world := w\<rparr>))"
    using True rw by (simp add: gid_cache_def allocrec_def Let_def)
  then have s': "recs_of s' = (recs_of s)[i := ?x]" and x: "gr_uid ?x = uid" and i: "i = r mod MAXRECS"
    using assms(4) by auto
  have lt: "i < length (recs_of s)" using i True by simp
  have "distinct ((map gr_uid (recs_of s))[i := uid])"
    using assms(1,3) by (intro distinct_list_update) (auto simp: cached_def)
  then have "distinct (map gr_uid (recs_of s'))" by (simp add: s' map_update x)
  then show ?thesis using True lt x by (simp add: s')
next
  case False
  obtain x where s': "recs_of s' = recs_of s @ [x]" and x: "gr_uid x = uid" and i: "i = length (recs_of s)"
    using assms(4) False by (auto simp: gid_cache_def allocrec_def Let_def)
  then show ?thesis using assms(1-3) False by (auto simp: cached_def)
qed

lemma sort_recs:
  "distinct (map gr_uid rs) \<Longrightarrow> distinct (map gr_uid (sort_key gr_uid rs))"
  "uids_sorted (sort_key gr_uid rs)" "cached uid (sort_key gr_uid rs) = cached uid rs"
  by (simp_all add: distinct_map cached_def)

lemma initgroups_ok:
  assumes "cache_ok (recs_of s)"
  shows "cache_ok (recs_of (snd (initgroups os uid gid s)))
    \<and> cached uid (recs_of (snd (initgroups os uid gid s)))"
proof -
  let ?rs = "recs_of s"
  have sorted: "uids_sorted ?rs" "distinct (map gr_uid ?rs)" "length ?rs \<le> MAXRECS"
    using assms by (simp_all add: cache_ok_def)
  note hit = lookup_hit [OF sorted(1), of uid]
  show ?thesis
  proof (cases "cached uid ?rs")
    case True
    then have "recs_of (snd (initgroups os uid gid s)) = ?rs"
      using hit by (simp add: initgroups_def Let_def setgroups_def)
    then show ?thesis using assms True by simp
  next
    case False
    obtain i t where c: "gid_cache os uid gid s = (i, t)" by fastforce
    note ok = gid_cache_ok [OF sorted(2,3) False c]
    have "recs_of (snd (initgroups os uid gid s)) = sort_key gr_uid (recs_of t)"
      using hit False c by (simp add: initgroups_def Let_def setgroups_def case_prod_beta)
    moreover have "cached uid (recs_of t)"
      using ok nth_mem [of i "recs_of t"] by (auto simp: cached_def)
    ultimately show ?thesis
      using ok by (simp add: cache_ok_def sort_recs)
  qed
qed

section \<open>What changing identity leaves alone\<close>

lemma initgroups_frame [simp]:
  "g_timeout (snd (initgroups os uid gid s)) = g_timeout s"
  "g_cache (snd (initgroups os uid gid s)) = g_cache s"
  "initialized (snd (initgroups os uid gid s)) = initialized s"
  by (auto simp: initgroups_def gid_cache_def allocrec_def setgroups_def set_recs_def Let_def case_prod_beta)

lemma setre_frame [simp]:
  "g_timeout (setreuid os u s) = g_timeout s" "g_cache (setreuid os u s) = g_cache s"
  "initialized (setreuid os u s) = initialized s" "gidcache (setreuid os u s) = gidcache s"
  "g_timeout (setregid os g s) = g_timeout s" "g_cache (setregid os g s) = g_cache s"
  "initialized (setregid os g s) = initialized s" "gidcache (setregid os g s) = gidcache s"
  by (simp_all add: setreuid_def setregid_def)

lemma ugid_init_frame [simp]:
  "g_timeout (ugid_init os s) = g_timeout s" "g_cache (ugid_init os s) = g_cache s"
  "gidcache (ugid_init os s) = gidcache s" "initialized (ugid_init os s)" "world (ugid_init os s) = world s"
  by (simp_all add: ugid_init_def)

lemma ugid_Set_frame [simp]:
  "g_timeout (ugid_Set os u g s) = g_timeout s" "g_cache (ugid_Set os u g s) = g_cache s"
  "initialized (ugid_Set os u g s)"
  by (simp_all add: ugid_Set_def Let_def)

lemma ugid_Set_ids [simp]:
  "currentuid (ugid_Set os u g s) = u" "currentgid (ugid_Set os u g s) = g"
  by (simp_all add: ugid_Set_def Let_def)

lemma ugid_Set_cache_ok:
  "cache_ok (recs_of s) \<Longrightarrow> cache_ok (recs_of (ugid_Set os u g s))"
  by (simp add: ugid_Set_def Let_def initgroups_ok)

section \<open>The credentials the kernel sees\<close>

text \<open>
  What \<^verbatim>\<open>setreuid(2)\<close>, \<^verbatim>\<open>setregid(2)\<close> and \<^verbatim>\<open>setgroups(2)\<close> do for a process whose real user is root (\<open>super\<close>;
  the calls leave the real ids alone): it can always make its effective user root again, while it is effectively root it
  can take any effective user and group, each call changes only its own id, and setting the supplementary groups or
  drawing a random number changes neither.
\<close>

definition same_creds :: "'w os \<Rightarrow> 'w \<Rightarrow> 'w \<Rightarrow> bool" where
  "same_creds os w w' \<longleftrightarrow> k_geteuid os w' = k_geteuid os w \<and> k_getegid os w' = k_getegid os w"

definition setuid_law :: "'w os \<Rightarrow> ('w \<Rightarrow> bool) \<Rightarrow> bool" where
  "setuid_law os super \<longleftrightarrow>
     (\<forall>w u. super w \<longrightarrow> u = 0 \<or> k_geteuid os w = 0 \<longrightarrow>
        super (snd (k_setreuid os u w)) \<and> k_geteuid os (snd (k_setreuid os u w)) = u
        \<and> k_getegid os (snd (k_setreuid os u w)) = k_getegid os w)"

definition setgid_law :: "'w os \<Rightarrow> ('w \<Rightarrow> bool) \<Rightarrow> bool" where
  "setgid_law os super \<longleftrightarrow>
     (\<forall>w g. super w \<longrightarrow> k_geteuid os w = 0 \<longrightarrow>
        super (snd (k_setregid os g w)) \<and> k_getegid os (snd (k_setregid os g w)) = g
        \<and> k_geteuid os (snd (k_setregid os g w)) = k_geteuid os w)"

definition groups_law :: "'w os \<Rightarrow> ('w \<Rightarrow> bool) \<Rightarrow> bool" where
  "groups_law os super \<longleftrightarrow>
     (\<forall>w gs. super w \<longrightarrow> super (snd (k_setgroups os gs w)) \<and> same_creds os w (snd (k_setgroups os gs w)))
     \<and> (\<forall>w. super w \<longrightarrow> super (snd (k_rand os w)) \<and> same_creds os w (snd (k_rand os w)))"

definition cred_laws :: "'w os \<Rightarrow> ('w \<Rightarrow> bool) \<Rightarrow> bool" where
  "cred_laws os super \<longleftrightarrow> setuid_law os super \<and> setgid_law os super \<and> groups_law os super"

text \<open>The thread runs under \<open>u\<close> and \<open>g\<close>, as the kernel sees it, and its record says so.\<close>

definition runs_as :: "'w os \<Rightarrow> ('w \<Rightarrow> bool) \<Rightarrow> u32 \<Rightarrow> u32 \<Rightarrow> 'w sys \<Rightarrow> bool" where
  "runs_as os super u g s \<longleftrightarrow> super (world s) \<and> initialized s
     \<and> k_geteuid os (world s) = u \<and> k_getegid os (world s) = g \<and> currentuid s = u \<and> currentgid s = g"

lemma world_sys_unit: "world (snd (sys_unit r s)) = snd r"
  by (cases r; cases "fst r"; simp add: sys_unit_def)

lemma setre_world:
  "world (setreuid os u s) = snd (k_setreuid os u (world s))" "world (setregid os g s) = snd (k_setregid os g (world s))"
  by (simp_all add: setreuid_def setregid_def world_sys_unit)

lemma allocrec_creds:
  "cred_laws os super \<Longrightarrow> super (world s) \<Longrightarrow>
   super (world (snd (allocrec os s))) \<and> same_creds os (world s) (world (snd (allocrec os s)))"
  by (auto simp: allocrec_def cred_laws_def groups_law_def same_creds_def case_prod_beta)

lemma initgroups_creds:
  assumes laws: "cred_laws os super" and "super (world s)"
  shows "super (world (snd (initgroups os uid gid s))) \<and> same_creds os (world s) (world (snd (initgroups os uid gid s)))"
proof -
  have set: "super (world (snd (setgroups os r t))) \<and> same_creds os (world t) (world (snd (setgroups os r t)))"
    if "super (world t)" for r t
    using laws that by (simp add: cred_laws_def groups_law_def setgroups_def world_sys_unit)
  have cache: "world (snd (gid_cache os uid gid s)) = world (snd (allocrec os s))"
    by (simp add: gid_cache_def Let_def case_prod_beta)
  show ?thesis
    using set [of s] set [of "snd (gid_cache os uid gid s)"] allocrec_creds [OF laws assms(2)] assms(2)
    by (auto simp: initgroups_def Let_def case_prod_beta cache same_creds_def)
qed

text \<open>
  The steps of \<^verbatim>\<open>ugid::Set\<close> in one: from an effective root, the group is set unless it is root's, then the user unless
  it is root.
\<close>

lemma take_identity:
  assumes laws: "cred_laws os super" and "super (world s)" "k_geteuid os (world s) = 0"
    and t: "t = (if g \<noteq> 0 then snd (initgroups os u g (setregid os g s)) else s)"
    and t': "t' = (if u \<noteq> 0 then setreuid os u t else t)"
  shows "super (world t') \<and> k_geteuid os (world t') = u
    \<and> k_getegid os (world t') = (if g \<noteq> 0 then g else k_getegid os (world s))"
proof -
  have "super (world t) \<and> k_geteuid os (world t) = 0 \<and> k_getegid os (world t) = (if g \<noteq> 0 then g else k_getegid os (world s))"
  proof (cases "g = 0")
    case False
    have "super (world (setregid os g s)) \<and> k_getegid os (world (setregid os g s)) = g
        \<and> k_geteuid os (world (setregid os g s)) = 0"
      using laws assms(2,3) by (simp add: cred_laws_def setgid_law_def setre_world)
    then show ?thesis using False initgroups_creds [OF laws, of "setregid os g s" u g] by (simp add: t same_creds_def)
  qed (use assms(2,3) in \<open>simp add: t\<close>)
  then show ?thesis using laws by (simp add: t' cred_laws_def setuid_law_def setre_world)
qed

lemma ugid_Set_creds:
  assumes laws: "cred_laws os super" and start: "super (world s)" "initialized s" "currentuid s = k_geteuid os (world s)"
    and change: "\<not> (u = currentuid s \<and> g = currentgid s)"
  shows "super (world (ugid_Set os u g s)) \<and> k_geteuid os (world (ugid_Set os u g s)) = u
    \<and> k_getegid os (world (ugid_Set os u g s))
        = (if g \<noteq> 0 then g else if currentuid s \<noteq> 0 then 0 else k_getegid os (world s))"
proof -
  define s1 where "s1 = (if currentuid s \<noteq> 0 then setregid os 0 (setreuid os 0 s) else s)"
  define t where "t = (if g \<noteq> 0 then snd (initgroups os u g (setregid os g s1)) else s1)"
  define t' where "t' = (if u \<noteq> 0 then setreuid os u t else t)"
  have "ugid_init os s = s" using start(2) by (simp add: ugid_init_def)
  then have "ugid_Set os u g s = t'\<lparr>currentuid := u, currentgid := g\<rparr>"
    unfolding ugid_Set_def Let_def t'_def t_def s1_def using change by auto
  moreover have "super (world s1)" "k_geteuid os (world s1) = 0"
    "k_getegid os (world s1) = (if currentuid s \<noteq> 0 then 0 else k_getegid os (world s))"
    using laws start by (simp_all add: cred_laws_def setuid_law_def setgid_law_def setre_world s1_def)
  ultimately show ?thesis using take_identity [OF laws _ _ t_def t'_def] by simp
qed

lemma ugid_Set_runs_as:
  assumes "cred_laws os super" "runs_as os super u0 g0 s" "g \<noteq> 0 \<or> g0 = 0 \<or> u0 \<noteq> 0"
  shows "runs_as os super u g (ugid_Set os u g s)"
proof (cases "u = u0 \<and> g = g0")
  case True
  then have "ugid_Set os u g s = s" using assms(2) by (simp add: ugid_Set_def ugid_init_def runs_as_def Let_def)
  then show ?thesis using assms(2) True by simp
next
  case False
  then show ?thesis using ugid_Set_creds [OF assms(1), of s u g] assms(2,3) by (auto simp: runs_as_def)
qed

section \<open>Properties\<close>

text \<open>
  C7: the search of the group cache by bisection is the linear search it stands for: on an array
  sorted by user id it returns the position of the first record whose id is not below the one asked for.
\<close>

theorem lower_bound_is_first_not_less:
  assumes "sorted (map gr_uid rs)"
  shows "lower_bound rs 0 (length rs) uid = length (takeWhile (\<lambda>r. gr_uid r < uid) rs)"
  by (rule lower_bound_takeWhile [OF assms])

definition sample_rec :: "u32 \<Rightarrow> u32 list \<Rightarrow> gid_t_rec" where
  "sample_rec u gs = \<lparr>gr_uid = u, gr_size = int (length gs), gr_gids = gs\<rparr>"

theorem lower_bound_is_first_not_less_witness:
  "let rs = [sample_rec 1 [], sample_rec 5 [], sample_rec 9 []]
   in sorted (map gr_uid rs) \<and> lower_bound rs 0 (length rs) 6 = 2"
  using lower_bound_is_first_not_less [of "[sample_rec 1 [], sample_rec 5 [], sample_rec 9 []]" 6]
  by (simp add: sample_rec_def Let_def)

text \<open>
  C8: the group cache stays sorted, free of duplicate users and within its 256 records over every
  change of identity, and a user whose groups were set is found in it afterwards.
\<close>

theorem gidcache_invariant:
  assumes "cache_ok (recs_of s)"
  shows "cache_ok (recs_of (ugid_Set os newuid newgid s))
    \<and> cache_ok (recs_of (snd (initgroups os uid gid s))) \<and> cached uid (recs_of (snd (initgroups os uid gid s)))"
  using ugid_Set_cache_ok [OF assms] initgroups_ok [OF assms] by blast

theorem gidcache_invariant_witness:
  "cache_ok (recs_of (sample_sys [])) \<and> cache_ok (recs_of (snd (initgroups sample_os 7 8 (sample_sys []))))
   \<and> cached 7 (recs_of (snd (initgroups sample_os 7 8 (sample_sys []))))"
  using gidcache_invariant [of "sample_sys []" sample_os 7 8 7 8]
  by (simp add: cache_ok_def sample_sys_def)


text \<open>
  A kernel for the examples: the effective user is the number of entries \<^verbatim>\<open>u\<close> of the state, the effective group that of
  the entries \<^verbatim>\<open>g\<close>.
\<close>

definition count_ids :: "string \<Rightarrow> sample_world \<Rightarrow> u32" where
  "count_ids x w = of_nat (length (filter (\<lambda>y. y = x) w))"

definition put_ids :: "string \<Rightarrow> u32 \<Rightarrow> sample_world \<Rightarrow> sample_world" where
  "put_ids x n w = replicate (unat n) x @ filter (\<lambda>y. y \<noteq> x) w"

definition cred_os :: "sample_world os" where
  "cred_os = sample_os\<lparr>k_geteuid := count_ids ''u'', k_getegid := count_ids ''g'',
     k_setreuid := (\<lambda>u w. if u = 0 \<or> count_ids ''u'' w = 0 then (Inr (), put_ids ''u'' u w) else (Inl EPERM, w)),
     k_setregid := (\<lambda>g w. if count_ids ''u'' w = 0 then (Inr (), put_ids ''g'' g w) else (Inl EPERM, w))\<rparr>"

lemma count_put_ids: "count_ids x (put_ids y n w) = (if x = y then n else count_ids x w)"
proof -
  have "filter (\<lambda>z. z = x) (filter (\<lambda>z. z \<noteq> y) w) = (if x = y then [] else filter (\<lambda>z. z = x) w)"
    by (induction w) auto
  then show ?thesis by (simp add: count_ids_def put_ids_def)
qed

lemma cred_os_laws: "cred_laws cred_os (\<lambda>w. True)"
  by (simp add: cred_laws_def setuid_law_def setgid_law_def groups_law_def same_creds_def cred_os_def sample_os_def count_put_ids)

lemma cred_os_root: "runs_as cred_os (\<lambda>w. True) 0 0 (sample_sys [])"
  by (simp add: runs_as_def cred_os_def sample_sys_def count_ids_def)




text \<open>
  The excluded step goes wrong. A thread under user 0 and a group other than 0 that is asked to run
  under group 0 keeps its group in the kernel, while its record says 0.
\<close>

lemma ugid_Set_keeps_group:
  assumes "cred_laws os super" "runs_as os super 0 gid s" "gid \<noteq> 0"
  shows "k_getegid os (world (ugid_Set os newuid 0 s)) = gid \<and> currentgid (ugid_Set os newuid 0 s) = 0"
  using ugid_Set_creds [OF assms(1), of s newuid 0] assms(2,3) by (simp add: runs_as_def)

text \<open>
  C11: taking the identity of a user who is not in the group cache yet and has at most 32 groups installs exactly the groups
  the system lists for that user, as the kernel's supplementary groups. This holds for a cache with room and for a full
  one, which gives up the record of a random user. For more than 32 groups see the next lemma.
\<close>

theorem initgroups_installs_groups:
  assumes "cache_ok (recs_of s)" "\<not> cached uid (recs_of s)"
    and "w = (if length (recs_of s) < MAXRECS then world s else snd (k_rand os (world s)))"
    and "k_getgrouplist os uid gid w = Some gs" "length gs \<le> MAXGIDS"
  shows "world (snd (initgroups os uid gid s)) = snd (k_setgroups os gs w)"
proof -
  have "uids_sorted (recs_of s)" "length (recs_of s) \<le> MAXRECS" using assms(1) by (simp_all add: cache_ok_def)
  then show ?thesis
    using lookup_hit [of "recs_of s" uid] assms(2-5)
    by (cases "length (recs_of s) = MAXRECS")
      (auto simp: initgroups_def gid_cache_def allocrec_def setgroups_def Let_def case_prod_beta fill_rec_def world_sys_unit)
qed

theorem initgroups_installs_groups_witness:
  "cache_ok (recs_of (sample_sys [])) \<and> \<not> cached 7 (recs_of (sample_sys []))
   \<and> k_getgrouplist sample_os 7 8 (world (sample_sys [])) = Some [8]
   \<and> world (snd (initgroups sample_os 7 8 (sample_sys []))) = snd (k_setgroups sample_os [8] (world (sample_sys [])))"
  using initgroups_installs_groups [of "sample_sys []" 7 "world (sample_sys [])" sample_os 8 "[8]"]
  by (simp add: cache_ok_def cached_def sample_sys_def sample_os_def)

text \<open>
  A user with more than 32 groups loses them. The documentation says that the first 32 are used (README.md, Supplemental
  user groups); \<^verbatim>\<open>getgrouplist\<close> then fails and the code installs the primary group alone.
\<close>

lemma many_groups_reduced_to_one:
  assumes "cache_ok (recs_of s)" "\<not> cached uid (recs_of s)" "length (recs_of s) < MAXRECS"
    and "k_getgrouplist os uid gid (world s) = Some gs" "length gs > MAXGIDS"
  shows "world (snd (initgroups os uid gid s)) = snd (k_setgroups os [gid] (world s))"
proof -
  have "uids_sorted (recs_of s)" using assms(1) by (simp add: cache_ok_def)
  then show ?thesis
    using lookup_hit [of "recs_of s" uid] assms(2-5)
    by (simp add: initgroups_def gid_cache_def allocrec_def setgroups_def Let_def case_prod_beta fill_rec_def world_sys_unit)
qed

text \<open>
  A user unknown to the system inherits the groups of another. When the cache is full and the
  lookup of the user fails, the recycled record keeps the groups of its former owner, and
  these are the groups the thread is given.
\<close>

theorem unknown_user_inherits_groups:
  assumes "cache_ok (recs_of s)" "length (recs_of s) = MAXRECS" "\<not> cached uid (recs_of s)"
    and "k_rand os (world s) = (r, w)" "k_getgrouplist os uid gid w = None"
  shows "world (snd (initgroups os uid gid s)) =
    snd (k_setgroups os (take (nat (gr_size (recs_of s ! (r mod MAXRECS)))) (gr_gids (recs_of s ! (r mod MAXRECS)))) w)"
proof -
  have "uids_sorted (recs_of s)" using assms(1) by (simp add: cache_ok_def)
  note miss = lookup_hit [OF this, of uid]
  show ?thesis
    using miss assms(2-5)
    by (simp add: initgroups_def gid_cache_def allocrec_def setgroups_def Let_def case_prod_beta fill_rec_def world_sys_unit)
qed

definition full_recs :: "gid_t_rec list" where
  "full_recs = map (\<lambda>i. sample_rec (of_nat i) [of_nat (1000 + i)]) [0 ..< 256]"

lemma full_recs_ok: "cache_ok full_recs" "length full_recs = MAXRECS" "\<not> cached 1000 full_recs"
proof -
  have uids: "map gr_uid full_recs = map of_nat [0 ..< 256]"
    by (simp add: full_recs_def sample_rec_def o_def del: upt_rec_numeral)
  have le: "(of_nat i :: u32) \<le> of_nat j \<longleftrightarrow> i \<le> j" and eq: "(of_nat i :: u32) = of_nat j \<longleftrightarrow> i = j"
    if "i < 256" "j < 256" for i j
  proof -
    have "unat (of_nat k :: u32) = k" if "k < 256" for k
      using that by (simp add: unat_of_nat)
    then show "(of_nat i :: u32) \<le> of_nat j \<longleftrightarrow> i \<le> j" "(of_nat i :: u32) = of_nat j \<longleftrightarrow> i = j"
      using that by (metis word_le_nat_alt, metis)
  qed
  have "sorted (map (of_nat :: nat \<Rightarrow> u32) [0 ..< 256])"
    unfolding sorted_map by (rule sorted_wrt_mono_rel [OF _ sorted_upt]) (auto simp: le)
  moreover have "distinct (map (of_nat :: nat \<Rightarrow> u32) [0 ..< 256])"
    by (simp add: distinct_map inj_on_def eq del: upt_rec_numeral)
  ultimately show "cache_ok full_recs"
    unfolding cache_ok_def uids by (simp add: full_recs_def del: upt_rec_numeral)
  show "length full_recs = MAXRECS" by (simp add: full_recs_def del: upt_rec_numeral)
  have "(of_nat i :: u32) \<noteq> 1000" if "i < 256" for i
  proof
    assume "(of_nat i :: u32) = 1000"
    then have "unat (of_nat i :: u32) = 1000" by simp
    moreover have "unat (of_nat i :: u32) = i" using that by (simp add: unat_of_nat)
    ultimately show False using that by simp
  qed
  then show "\<not> cached 1000 full_recs"
    by (auto simp: cached_def full_recs_def sample_rec_def)
qed

theorem unknown_user_inherits_groups_witness:
  "let os = sample_os\<lparr>k_getgrouplist := (\<lambda>u g w. None), k_setgroups := (\<lambda>gs w. (Inr (), if gs = [1001] then [''1001''] else w))\<rparr>;
       s = set_recs full_recs (sample_sys [])
   in cache_ok (recs_of s) \<and> \<not> cached 1000 (recs_of s) \<and> world (snd (initgroups os 1000 1000 s)) = [''1001'']"
proof -
  let ?os = "sample_os\<lparr>k_getgrouplist := (\<lambda>u g w. None), k_setgroups := (\<lambda>gs w. (Inr (), if gs = [1001] then [''1001''] else w))\<rparr>"
  let ?s = "set_recs full_recs (sample_sys [])"
  have "full_recs ! 1 = sample_rec 1 [1001]" by (simp add: full_recs_def del: upt_rec_numeral)
  then show ?thesis
    using unknown_user_inherits_groups [of ?s 1000 ?os 1 "[]" 1000] full_recs_ok
    by (simp add: sample_os_def sample_sys_def sample_rec_def Let_def)
qed

end
