(* ===== verification/Clonepath.thy ===== *)
theory Clonepath
  imports Metadata Path_Util Ugid
begin

text \<open>
  \<^verbatim>\<open>fs_clonepath.cpp\<close>: before something is created on a branch, the directories leading to it are
  created there with the metadata they have on a branch that has them. The recursion goes up with
  \<^verbatim>\<open>dirname\<close>, which makes a non-empty path shorter.
\<close>

abbreviation S_IFMT :: mode_t where "S_IFMT \<equiv> 0xF000"
abbreviation S_IFDIR :: mode_t where "S_IFDIR \<equiv> 0x4000"
abbreviation S_IFREG :: mode_t where "S_IFREG \<equiv> 0x8000"
abbreviation S_IFLNK :: mode_t where "S_IFLNK \<equiv> 0xA000"

unbundle bit_operations_syntax

definition S_ISDIR :: "mode_t \<Rightarrow> bool" where
  "S_ISDIR m \<longleftrightarrow> m AND S_IFMT = S_IFDIR"

definition S_ISREG :: "mode_t \<Rightarrow> bool" where
  "S_ISREG m \<longleftrightarrow> m AND S_IFMT = S_IFREG"

definition ignorable_error :: "int \<Rightarrow> bool" where
  "ignorable_error err \<longleftrightarrow> err = ENOTTY \<or> err = ENOTSUP"

text \<open>One directory: everything after the recursive call.\<close>

definition clone_dir :: "'w os \<Rightarrow> string \<Rightarrow> string \<Rightarrow> bool \<Rightarrow> 'w sys \<Rightarrow> int \<times> 'w sys" where
  "clone_dir os frompath topath return_metadata_errors s =
     (case fs_stat os frompath s of
        (None, s) \<Rightarrow> (- 1, s)
      | (Some st, s) \<Rightarrow>
     if \<not> S_ISDIR (st_mode st) then fail_with ENOTDIR s else
     (case fs_mkdir os topath (st_mode st) s of (rv, s) \<Rightarrow>
     if rv = - 1 then (if errno s = EEXIST then 0 else - 1, s) else
     (case attr_copy os frompath topath s of (rv, s) \<Rightarrow>
     if return_metadata_errors \<and> rv = - 1 \<and> \<not> ignorable_error (errno s) then (- 1, s) else
     (case xattr_copy os frompath topath s of (rv, s) \<Rightarrow>
     if return_metadata_errors \<and> rv = - 1 \<and> \<not> ignorable_error (errno s) then (- 1, s) else
     (case lchown_check_on_error os topath st s of (rv, s) \<Rightarrow>
     if return_metadata_errors \<and> rv = - 1 then (- 1, s) else
     (case fs_utime os topath st s of (rv, s) \<Rightarrow>
     if return_metadata_errors \<and> rv = - 1 then (- 1, s) else
     (0, s)))))))"

lemma c_str_shorter: "length (c_str p) \<le> length p"
  by (simp add: c_str_def length_takeWhile_le)

function clonepath :: "'w os \<Rightarrow> string \<Rightarrow> string \<Rightarrow> string \<Rightarrow> bool \<Rightarrow> 'w sys \<Rightarrow> int \<times> 'w sys" where
  "clonepath os fromsrc tosrc relative return_metadata_errors s =
     (if c_str relative = [] then (0, s)
      else
        let dir = dirname (c_str relative)
        in case (if dir \<noteq> [] then clonepath os fromsrc tosrc dir False s else (0, s)) of (rv, s) \<Rightarrow>
           if rv = - 1 then (- 1, s)
           else clone_dir os (path_make fromsrc relative) (path_make tosrc relative) return_metadata_errors s)"
  by pat_completeness auto

termination
proof (relation "measure (\<lambda>(os, fromsrc, tosrc, relative, e, s). length relative)", goal_cases)
  case 1
  show ?case by simp
next
  case (2 os fromsrc tosrc relative e s dir)
  then show ?case
    using dirname_shorter [of "c_str relative"] c_str_shorter [of relative] by simp
qed

declare clonepath.simps [simp del]

definition clonepath_as_root_with ::
  "'w os \<Rightarrow> string \<Rightarrow> string \<Rightarrow> string \<Rightarrow> bool \<Rightarrow> 'w sys \<Rightarrow> int \<times> 'w sys" where
  "clonepath_as_root_with os src dst relative return_metadata_errors s =
     (if c_str relative = [] then (0, s)
      else if src = dst then (0, s)
      else (case SetRootGuard os s of (prev, s) \<Rightarrow>
            case clonepath os src dst relative return_metadata_errors s of (rv, s) \<Rightarrow>
              (rv, SetRootGuard_end os prev s)))"

text \<open>Every caller leaves the flag at its default.\<close>

definition clonepath_as_root :: "'w os \<Rightarrow> string \<Rightarrow> string \<Rightarrow> string \<Rightarrow> 'w sys \<Rightarrow> int \<times> 'w sys" where
  "clonepath_as_root os src dst relative s = clonepath_as_root_with os src dst relative False s"

lemma clonepath_as_root_eq:
  "clonepath_as_root os src dst relative s =
     (if c_str relative = [] then (0, s)
      else if src = dst then (0, s)
      else (case SetRootGuard os s of (prev, s) \<Rightarrow>
            case clonepath os src dst relative False s of (rv, s) \<Rightarrow>
              (rv, SetRootGuard_end os prev s)))"
  by (simp only: clonepath_as_root_def clonepath_as_root_with_def)

section \<open>Return codes and what is left alone\<close>

lemma is_rc_simps [simp]: "is_rc 0" "is_rc (- 1)"
  by (simp_all add: is_rc_def)

lemma clone_dir_rc: "is_rc (fst (clone_dir os p q e s))"
  by (auto simp: clone_dir_def is_rc_def fail_with_def split: prod.splits option.splits)

lemma clonepath_rc: "is_rc (fst (clonepath os p q rel e s))"
  by (subst clonepath.simps) (auto simp: clone_dir_rc Let_def split: prod.splits)

lemma clonepath_as_root_rc: "is_rc (fst (clonepath_as_root os p q rel s))"
  by (simp add: clonepath_as_root_eq clonepath_rc case_prod_beta)

lemma keeps_clone_dir [keeps_intros]: "keeps s t \<Longrightarrow> keeps s (snd (clone_dir os p q e t))"
  unfolding clone_dir_def fs_defs by (auto intro!: keeps_intros)

lemma keeps_clonepath [keeps_intros]: "keeps s t \<Longrightarrow> keeps s (snd (clonepath os p q rel e t))"
proof (induction os p q rel e t rule: clonepath.induct)
  case (1 os p q rel e t)
  show ?case
    by (subst clonepath.simps) (auto simp: Let_def 1 intro!: keeps_intros)
qed

lemma clonepath_as_root_frame [simp]:
  "g_timeout (snd (clonepath_as_root os p q rel s)) = g_timeout s"
  "g_cache (snd (clonepath_as_root os p q rel s)) = g_cache s"
  "currentuid (snd (clonepath_as_root os p q rel s)) = currentuid s"
  "currentgid (snd (clonepath_as_root os p q rel s)) = currentgid s"
  using keeps_clonepath [OF keeps_refl, of "ugid_Set os 0 0 s" os p q rel False]
  by (auto simp: clonepath_as_root_eq SetRootGuard_def SetRootGuard_end_def keeps_def split: prod.splits)

end
