(* ===== verification/Clonepath_Props.thy ===== *)
theory Clonepath_Props
  imports Clonepath
begin

text \<open>
  What cloning a path achieves. \<open>clone_preserves os Q\<close> says that the calls cloning makes, other than \<^verbatim>\<open>mkdir\<close>, keep
  a property of the kernel state; \<open>mkdir_laws\<close> is the documented behaviour of \<^verbatim>\<open>mkdir(2)\<close>.
\<close>

definition clone_preserves :: "'w os \<Rightarrow> ('w \<Rightarrow> bool) \<Rightarrow> bool" where
  "clone_preserves os Q \<longleftrightarrow>
     (\<forall>w. Q w \<longrightarrow>
        (\<forall>p f m. Q (snd (k_open os p f m w))) \<and> (\<forall>fd. Q (snd (k_close os fd w)))
        \<and> (\<forall>fd f. Q (snd (k_setflags os fd f w))) \<and> (\<forall>fd a v f. Q (snd (k_fsetxattr os fd a v f w)))
        \<and> (\<forall>p u g. Q (snd (k_lchown os p u g w))) \<and> (\<forall>p a m l. Q (snd (k_utimensat os p a m l w))))"

definition mkdir_preserves :: "'w os \<Rightarrow> ('w \<Rightarrow> bool) \<Rightarrow> bool" where
  "mkdir_preserves os Q \<longleftrightarrow> (\<forall>p m w. Q w \<longrightarrow> Q (snd (k_mkdir os p m w)))"

lemma clone_preservesD:
  assumes "clone_preserves os Q" "holds Q t"
  shows "Q (snd (k_open os p f m (world t)))" "Q (snd (k_close os fd (world t)))"
    "Q (snd (k_setflags os fd f (world t)))" "Q (snd (k_fsetxattr os fd a v f (world t)))"
    "Q (snd (k_lchown os p u g (world t)))" "Q (snd (k_utimensat os p at mt l (world t)))"
  using assms by (simp_all add: clone_preserves_def holds_def)

lemma holds_xattr [holds_intros]:
  assumes "holds Q t"
  shows "holds Q (snd (xattr_list os p t))" "holds Q (snd (xattr_get os p a t))"
  using assms by (simp_all add: xattr_list_def xattr_get_def holds_def xattr_loop_world)

lemma holds_flags:
  assumes "clone_preserves os Q" "holds Q t"
  shows "holds Q (snd (get_fs_ioc_flags os fd t))" "holds Q (snd (set_fs_ioc_flags os fd f t))"
    "holds Q (close_keeping_errno os fd t)"
  using assms(2)
  unfolding get_fs_ioc_flags_def set_fs_ioc_flags_def close_keeping_errno_def fs_close_def
  by (auto intro!: clone_preservesD [OF assms(1)] holds_intros)

lemma holds_attr_copy [holds_intros]:
  assumes "clone_preserves os Q" "holds Q t"
  shows "holds Q (snd (attr_copy os p q t))"
  using assms(2)
  unfolding attr_copy_def get_fs_ioc_flags_path_def set_fs_ioc_flags_path_def fs_open_def fs_close_def
  by (auto intro!: clone_preservesD [OF assms(1)] holds_flags [OF assms(1)] holds_intros)

lemma holds_xattr_copy [holds_intros]:
  assumes "clone_preserves os Q" "holds Q t"
  shows "holds Q (snd (xattr_copy os p q t))"
  using assms(2)
  unfolding xattr_copy_def xattr_get_all_def get_all_body_def xattr_set_all_def xattr_set_all_fd_def
    xattr_set_body_def xattr_set_fd_def fs_open_def fs_close_def fs_fsetxattr_def
  by (auto intro!: clone_preservesD [OF assms(1)] holds_intros)

lemma holds_owner_times [holds_intros]:
  assumes "clone_preserves os Q" "holds Q t"
  shows "holds Q (snd (lchown_check_on_error os p st t))" "holds Q (snd (fs_utime os p st t))"
  using assms(2)
  unfolding lchown_check_on_error_def Let_def fs_lchown_def fs_lstat_def fs_utime_def fs_defs
  by (auto intro!: clone_preservesD [OF assms(1)] holds_intros)

lemma clone_dir_holds:
  assumes "clone_preserves os Q" "mkdir_preserves os Q" "holds Q t"
  shows "holds Q (snd (clone_dir os p q e t))"
proof -
  have "Q (snd (k_mkdir os q m (world u)))" if "holds Q u" for m u
    using assms(2) that by (simp add: mkdir_preserves_def holds_def)
  then show ?thesis
    using assms(1,3) unfolding clone_dir_def fs_stat_def fs_mkdir_def
    by (auto intro!: holds_intros)
qed

lemma clonepath_holds:
  "clone_preserves os Q \<Longrightarrow> mkdir_preserves os Q \<Longrightarrow> holds Q t \<Longrightarrow> holds Q (snd (clonepath os p q rel e t))"
proof (induction os p q rel e t rule: clonepath.induct)
  case (1 os p q rel e t)
  then show ?case
    by (subst clonepath.simps) (auto simp: Let_def intro!: clone_dir_holds holds_intros)
qed

section \<open>The directories exist afterwards\<close>

definition mkdir_laws :: "'w os \<Rightarrow> (string \<Rightarrow> 'w \<Rightarrow> bool) \<Rightarrow> bool" where
  "mkdir_laws os there \<longleftrightarrow>
     (\<forall>p m w. case k_mkdir os p m w of
        (Inr _, w') \<Rightarrow> there p w'
      | (Inl e, w') \<Rightarrow> (e = EEXIST \<longrightarrow> there p w'))"

text \<open>After a \<^verbatim>\<open>mkdir\<close> that succeeded, only calls covered by \<open>clone_preserves\<close> follow.\<close>

definition clone_metadata :: "'w os \<Rightarrow> string \<Rightarrow> string \<Rightarrow> stat \<Rightarrow> bool \<Rightarrow> 'w sys \<Rightarrow> int \<times> 'w sys" where
  "clone_metadata os frompath topath st return_metadata_errors s =
     (case attr_copy os frompath topath s of (rv, s) \<Rightarrow>
     if return_metadata_errors \<and> rv = - 1 \<and> \<not> ignorable_error (errno s) then (- 1, s) else
     (case xattr_copy os frompath topath s of (rv, s) \<Rightarrow>
     if return_metadata_errors \<and> rv = - 1 \<and> \<not> ignorable_error (errno s) then (- 1, s) else
     (case lchown_check_on_error os topath st s of (rv, s) \<Rightarrow>
     if return_metadata_errors \<and> rv = - 1 then (- 1, s) else
     (case fs_utime os topath st s of (rv, s) \<Rightarrow>
     if return_metadata_errors \<and> rv = - 1 then (- 1, s) else
     (0, s)))))"

lemma clone_dir_eq:
  "clone_dir os frompath topath e s =
     (case fs_stat os frompath s of
        (None, s) \<Rightarrow> (- 1, s)
      | (Some st, s) \<Rightarrow>
     if \<not> S_ISDIR (st_mode st) then fail_with ENOTDIR s else
     (case fs_mkdir os topath (st_mode st) s of (rv, s) \<Rightarrow>
     if rv = - 1 then (if errno s = EEXIST then 0 else - 1, s) else
     clone_metadata os frompath topath st e s))"
  by (simp only: clone_dir_def clone_metadata_def)

lemma clone_metadata_holds:
  "clone_preserves os Q \<Longrightarrow> holds Q t \<Longrightarrow> holds Q (snd (clone_metadata os p q st e t))"
  unfolding clone_metadata_def by (auto intro!: holds_intros)

lemma mkdir_there:
  assumes "mkdir_laws os there" "fs_mkdir os q m t = (rv, u)" "rv = - 1 \<longrightarrow> errno u = EEXIST"
  shows "there q (world u)"
proof -
  obtain r w where k: "k_mkdir os q m (world t) = (r, w)" by fastforce
  have "case r of Inr _ \<Rightarrow> there q w | Inl e \<Rightarrow> (e = EEXIST \<longrightarrow> there q w)"
    using assms(1) [unfolded mkdir_laws_def, rule_format, of q m "world t"] k by simp
  then show ?thesis
    using assms(2,3) k by (auto simp: fs_mkdir_def sys_unit_def split: sum.splits)
qed

lemma clone_dir_there:
  assumes "mkdir_laws os there" "clone_preserves os (there q)" "clone_dir os p q e s = (0, s')"
  shows "there q (world s')"
proof -
  obtain st t where st: "fs_stat os p s = (Some st, t)" and dir: "S_ISDIR (st_mode st)"
    using assms(3)
    by (auto simp: clone_dir_eq fail_with_def split: prod.splits option.splits if_splits)
  obtain rv u where mk: "fs_mkdir os q (st_mode st) t = (rv, u)" by fastforce
  show ?thesis
  proof (cases "rv = - 1")
    case True
    then have "errno u = EEXIST \<and> s' = u"
      using assms(3) st dir mk by (auto simp: clone_dir_eq split: if_splits)
    then show ?thesis using mkdir_there [OF assms(1) mk] by simp
  next
    case False
    then have "clone_metadata os p q st e u = (0, s')"
      using assms(3) st dir mk by (simp add: clone_dir_eq)
    then show ?thesis
      using clone_metadata_holds [OF assms(2), of u p q st e] mkdir_there [OF assms(1) mk] False
      by (simp add: holds_def)
  qed
qed

function ancestors :: "string \<Rightarrow> string list" where
  "ancestors p = (if p = [] then [] else p # ancestors (dirname p))"
  by pat_completeness auto

termination
  by (relation "measure length") (auto simp: dirname_shorter)

declare ancestors.simps [simp del]

lemma clonepath_there:
  assumes "mkdir_laws os there" "\<And>p. clone_preserves os (there p)" "\<And>p. mkdir_preserves os (there p)"
  shows "clonepath os src dst rel e s = (0, s') \<Longrightarrow> NUL \<notin> set rel \<Longrightarrow>
    \<forall>d \<in> set (ancestors rel). there (dst @ d) (world s')"
proof (induction "length rel" arbitrary: rel e s s' rule: less_induct)
  case less
  have c: "c_str rel = rel" using less.prems(2) by (induction rel) (auto simp: c_str_def)
  show ?case
  proof (cases "rel = []")
    case True
    then show ?thesis by (simp add: ancestors.simps)
  next
    case False
    let ?dir = "dirname rel"
    have nul: "NUL \<notin> set ?dir" using less.prems(2) dirname_prefix [of rel] by (metis UnCI prefixE set_append)
    obtain rv t where up: "(if ?dir \<noteq> [] then clonepath os src dst ?dir False s else (0, s)) = (rv, t)" by fastforce
    have rv: "rv \<noteq> - 1" and cl: "clone_dir os (path_make src rel) (path_make dst rel) e t = (0, s')"
      using less.prems(1) False c up by (auto simp: clonepath.simps [of os src dst rel] Let_def split: if_splits)
    have here: "there (dst @ rel) (world s')"
      using clone_dir_there [OF assms(1) assms(2) cl] by (simp add: path_make_def c)
    have rv0: "rv = 0"
      using up rv clonepath_rc [of os src dst ?dir False s] by (auto simp: is_rc_def split: if_splits)
    have "there (dst @ d) (world t)" if "d \<in> set (ancestors ?dir)" for d
    proof (cases "?dir = []")
      case True
      then show ?thesis using that by (simp add: ancestors.simps)
    next
      case False
      then have "clonepath os src dst ?dir False s = (0, t)" using up rv0 by simp
      then show ?thesis
        using less.hyps [OF dirname_shorter [OF \<open>rel \<noteq> []\<close>] _ nul] that by blast
    qed
    then have "there (dst @ d) (world s')" if "d \<in> set (ancestors ?dir)" for d
      using clone_dir_holds [OF assms(2,3), of "dst @ d" t] that cl by (metis holds_def snd_conv)
    then show ?thesis using here by (subst ancestors.simps) (auto simp: False)
  qed
qed

lemma ancestors_dirname: "p \<noteq> [] \<Longrightarrow> ancestors p = p # ancestors (dirname p)" "ancestors [] = []"
  by (simp_all add: ancestors.simps)

section \<open>Directories that exist are left alone\<close>

definition dirs_exist :: "'w os \<Rightarrow> string \<Rightarrow> string \<Rightarrow> string \<Rightarrow> 'w \<Rightarrow> bool" where
  "dirs_exist os src dst rel w \<longleftrightarrow>
     (\<forall>d \<in> set (ancestors rel).
        (\<exists>st. k_stat os (src @ d) w = Inr st \<and> S_ISDIR (st_mode st))
        \<and> (\<forall>m. k_mkdir os (dst @ d) m w = (Inl EEXIST, w)))"

lemma clone_dir_exists:
  assumes "k_stat os p (world s) = Inr st" "S_ISDIR (st_mode st)"
    "\<forall>m. k_mkdir os q m (world s) = (Inl EEXIST, world s)"
  shows "clone_dir os p q e s = (0, s\<lparr>errno := EEXIST\<rparr>)"
  using assms by (simp add: clone_dir_def fs_stat_def fs_mkdir_def sys_val_def sys_unit_def)

lemma clonepath_exists:
  "dirs_exist os src dst rel (world s) \<Longrightarrow> NUL \<notin> set rel \<Longrightarrow>
   clonepath os src dst rel e s = (0, if rel = [] then s else s\<lparr>errno := EEXIST\<rparr>)"
proof (induction "length rel" arbitrary: rel e s rule: less_induct)
  case less
  show ?case
  proof (cases "rel = []")
    case True
    then show ?thesis by (subst clonepath.simps) (simp add: c_str_def)
  next
    case False
    have c: "c_str rel = rel" using less.prems(2) by (simp add: c_str_def)
    have up: "dirs_exist os src dst (dirname rel) (world s)"
      using less.prems(1) False by (simp add: dirs_exist_def ancestors_dirname)
    have nul: "NUL \<notin> set (dirname rel)"
      using less.prems(2) dirname_prefix [of rel] by (metis UnCI prefixE set_append)
    have "\<exists>st. k_stat os (src @ rel) (world s) = Inr st \<and> S_ISDIR (st_mode st)"
      "\<forall>m. k_mkdir os (dst @ rel) m (world s) = (Inl EEXIST, world s)"
      using less.prems(1) False by (auto simp: dirs_exist_def ancestors_dirname)
    then have "clone_dir os (src @ rel) (dst @ rel) e t = (0, t\<lparr>errno := EEXIST\<rparr>)"
      if "world t = world s" for t
      using clone_dir_exists [of os "src @ rel" t] that by auto
    then show ?thesis
      using less.hyps [OF dirname_shorter [OF False] up nul, of False] False c
      by (subst clonepath.simps) (simp add: path_make_def Let_def)
  qed
qed

section \<open>Cloning as root\<close>

definition cred_preserves :: "'w os \<Rightarrow> ('w \<Rightarrow> bool) \<Rightarrow> bool" where
  "cred_preserves os Q \<longleftrightarrow>
     (\<forall>w. Q w \<longrightarrow> (\<forall>u. Q (snd (k_setreuid os u w))) \<and> (\<forall>g. Q (snd (k_setregid os g w)))
        \<and> (\<forall>gs. Q (snd (k_setgroups os gs w))) \<and> Q (snd (k_rand os w)))"

lemma cred_preservesD:
  assumes "cred_preserves os Q" "holds Q t"
  shows "Q (snd (k_setreuid os u (world t)))" "Q (snd (k_setregid os u (world t)))"
    "Q (snd (k_setgroups os gs (world t)))" "Q (snd (k_rand os (world t)))"
  using assms by (simp_all add: cred_preserves_def holds_def)

lemma holds_set_recs [simp]: "holds Q (set_recs rs s) = holds Q s"
  by (simp add: set_recs_def)

lemma holds_initgroups:
  assumes "cred_preserves os Q" "holds Q t"
  shows "holds Q (snd (initgroups os u g t))"
proof -
  have sg: "holds Q (snd (setgroups os r v))" if "holds Q v" for r v
    using that unfolding setgroups_def by (auto intro!: cred_preservesD [OF assms(1)] holds_intros)
  have "holds Q (snd (gid_cache os u g t))"
    using cred_preservesD(4) [OF assms] assms(2)
    by (auto simp: gid_cache_def allocrec_def Let_def split: prod.splits if_splits)
  then show ?thesis
    using sg assms(2) by (simp add: initgroups_def Let_def case_prod_beta)
qed

lemma holds_ugid_Set:
  assumes "cred_preserves os Q" "holds Q t"
  shows "holds Q (ugid_Set os u g t)"
proof -
  have init: "holds Q (ugid_init os t)" using assms(2) by (simp add: ugid_init_def)
  have "holds Q (setreuid os v x)" "holds Q (setregid os v x)" if "holds Q x" for v x
    using that unfolding setreuid_def setregid_def
    by (auto intro!: cred_preservesD [OF assms(1)] holds_intros)
  then show ?thesis
    using init by (simp add: ugid_Set_def Let_def holds_initgroups [OF assms(1)])
qed

section \<open>Properties\<close>

text \<open>The documented behaviour cloning relies on, for \<open>there p w\<close>: the path \<open>p\<close> exists in \<open>w\<close>.\<close>

definition dir_laws :: "'w os \<Rightarrow> (string \<Rightarrow> 'w \<Rightarrow> bool) \<Rightarrow> bool" where
  "dir_laws os there \<longleftrightarrow> mkdir_laws os there
     \<and> (\<forall>p. clone_preserves os (there p) \<and> mkdir_preserves os (there p) \<and> cred_preserves os (there p))"

lemma dir_laws_sample: "dir_laws sample_os (\<lambda>p w. p \<in> set w)"
  by (auto simp: dir_laws_def mkdir_laws_def clone_preserves_def mkdir_preserves_def cred_preserves_def
      sample_defs split: if_splits)

text \<open>
  C12: when cloning a path as root onto another branch reports success, then every directory on the way
  to it, the path itself included, exists on the destination branch.
\<close>

theorem clonepath_as_root_makes_path:
  assumes "dir_laws os there" "src \<noteq> dst" "NUL \<notin> set rel"
    and "clonepath_as_root os src dst rel s = (0, s')"
  shows "\<forall>d \<in> set (ancestors rel). there (dst @ d) (world s')"
proof (cases "rel = []")
  case False
  have c: "c_str rel = rel" using assms(3) by (simp add: c_str_def)
  obtain prev t where g: "SetRootGuard os s = (prev, t)" by fastforce
  obtain rv u where cl: "clonepath os src dst rel False t = (rv, u)" by fastforce
  have rv: "rv = 0" and s': "s' = ugid_Set os (fst prev) (snd prev) u"
    using assms(2,4) False c g cl by (simp_all add: clonepath_as_root_eq SetRootGuard_end_def)
  have "\<forall>d \<in> set (ancestors rel). there (dst @ d) (world u)"
    using clonepath_there [OF _ _ _ cl [unfolded rv] assms(3), of there] assms(1) by (simp add: dir_laws_def)
  then show ?thesis
    using holds_ugid_Set [of os "there (dst @ d)" u for d] assms(1) unfolding s'
    by (simp add: dir_laws_def holds_def)
qed (simp add: ancestors_dirname)

theorem clonepath_as_root_makes_path_witness:
  "let s' = snd (clonepath_as_root sample_os ''/a'' ''/b'' ''/d/e'' (sample_sys [''/a/d'', ''/a/d/e'']))
   in ''/b/d'' \<in> set (world s') \<and> ''/b/d/e'' \<in> set (world s')"
proof -
  let ?c = "clonepath_as_root sample_os ''/a'' ''/b'' ''/d/e'' (sample_sys [''/a/d'', ''/a/d/e''])"
  have anc: "ancestors ''/d/e'' = [''/d/e'', ''/d'']"
    by code_simp
  have "fst ?c = 0"
    by code_simp
  then show ?thesis
    using clonepath_as_root_makes_path [OF dir_laws_sample, of "''/a''" "''/b''" "''/d/e''"
        "sample_sys [''/a/d'', ''/a/d/e'']" "snd ?c"] anc
    by (simp add: prod_eq_iff Let_def)
qed

text \<open>
  C13: cloning leaves what is there alone. When all directories of the path exist on both branches, cloning succeeds,
  whatever the metadata flag, and the kernel state is the one before: no mode, owner, time or attribute of an existing directory is
  touched.
\<close>

theorem clonepath_existing_untouched:
  assumes "dirs_exist os src dst rel (world s)" "NUL \<notin> set rel"
  shows "fst (clonepath os src dst rel e s) = 0 \<and> world (snd (clonepath os src dst rel e s)) = world s"
  using clonepath_exists [OF assms] by simp

theorem clonepath_existing_untouched_witness:
  "fst (clonepath sample_os ''/a'' ''/b'' ''/d'' True (sample_sys [''/a/d'', ''/b/d''])) = 0
   \<and> world (snd (clonepath sample_os ''/a'' ''/b'' ''/d'' True (sample_sys [''/a/d'', ''/b/d'']))) = [''/a/d'', ''/b/d'']"
proof -
  have "ancestors ''/d'' = [''/d'']"
    by code_simp
  then have "dirs_exist sample_os ''/a'' ''/b'' ''/d'' (world (sample_sys [''/a/d'', ''/b/d'']))"
    by (simp add: dirs_exist_def sample_defs S_ISDIR_def)
  then show ?thesis
    using clonepath_existing_untouched [of sample_os "''/a''" "''/b''" "''/d''" "sample_sys [''/a/d'', ''/b/d'']" True]
    by (simp add: sample_sys_def)
qed

end
