(* ===== verification/Config.thy ===== *)
theory Config
  imports Policy_Cache Clonepath_Props
begin

text \<open>
  \<^verbatim>\<open>config.cpp\<close>: the settings of a mount and the table of policies, indexed by the FUSE
  function. The references \<^verbatim>\<open>Config::access\<close>, \<^verbatim>\<open>Config::chmod\<close> and so on are entries of
  that table. The table is not initialised before the constructor body fills it; its first content is the argument
  \<open>garbage\<close> of \<open>Config_init\<close>. \<open>fuse_context\<close> holds what the handlers read of the structure of that name in \<^verbatim>\<open>fuse.h\<close>.
\<close>

datatype StatFS = StatFS_BASE | StatFS_FULL

datatype StatFSIgnore = StatFSIgnore_NONE | StatFSIgnore_RO | StatFSIgnore_NC

record Config =
  cf_destmount :: string
  cf_branches :: "Branch list"
  cf_minfreespace :: u64
  cf_moveonenospc :: bool
  cf_direct_io :: bool
  cf_dropcacheonclose :: bool
  cf_symlinkify :: bool
  cf_symlinkify_timeout :: time_t
  cf_nullrw :: bool
  cf_ignorepponrename :: bool
  cf_security_capability :: bool
  cf_link_cow :: bool
  cf_xattr :: int
  cf_statfs :: StatFS
  cf_statfs_ignore :: StatFSIgnore
  cf_policies :: "FuseFunc_Type \<Rightarrow> Policy"
  cf_open_cache :: PolicyCache
  cf_controlfile :: string

record fuse_context =
  fc_uid :: u32
  fc_gid :: u32
  fc_umask :: mode_t

abbreviation MINFREESPACE_DEFAULT :: u64 where "MINFREESPACE_DEFAULT \<equiv> 4294967295"

definition set_func_policy ::
  "string \<Rightarrow> string \<Rightarrow> Config \<Rightarrow> 'w sys \<Rightarrow> int \<times> Config \<times> 'w sys" where
  "set_func_policy fusefunc policy cfg s =
     (let f = FuseFunc_find fusefunc
      in if f = fusefuncs (- 1) then (- 1, cfg, s\<lparr>errno := ENODATA\<rparr>)
         else
           let p = Policy_find policy
           in if p = policies (- 1) then (- 1, cfg, s\<lparr>errno := EINVAL\<rparr>)
              else (0, cfg\<lparr>cf_policies := (cf_policies cfg)(ff_enum f := p)\<rparr>, s))"

definition assign_category :: "Category_Type \<Rightarrow> Policy \<Rightarrow> nat \<Rightarrow> (FuseFunc_Type \<Rightarrow> Policy) \<Rightarrow> FuseFunc_Type \<Rightarrow> Policy" where
  "assign_category category p i table =
     (if ff_category (fusefuncs (int i)) = category then table(ff_enum (fusefuncs (int i)) := p) else table)"

definition set_category_policy ::
  "string \<Rightarrow> string \<Rightarrow> Config \<Rightarrow> 'w sys \<Rightarrow> int \<times> Config \<times> 'w sys" where
  "set_category_policy category policy cfg s =
     (let c = Category_find category
      in if c = categories (- 1) then (- 1, cfg, s\<lparr>errno := ENODATA\<rparr>)
         else
           let p = Policy_find policy
           in if p = policies (- 1) then (- 1, cfg, s\<lparr>errno := EINVAL\<rparr>)
              else (0, cfg\<lparr>cf_policies := fold (assign_category (cat_enum c) p) [0 ..< FF_END] (cf_policies cfg)\<rparr>, s))"

definition Config_init :: "(FuseFunc_Type \<Rightarrow> Policy) \<Rightarrow> 'w sys \<Rightarrow> Config \<times> 'w sys" where
  "Config_init garbage s =
     (let cfg = \<lparr>cf_destmount = [], cf_branches = [], cf_minfreespace = MINFREESPACE_DEFAULT,
                 cf_moveonenospc = False, cf_direct_io = False, cf_dropcacheonclose = False,
                 cf_symlinkify = False, cf_symlinkify_timeout = 3600, cf_nullrw = False,
                 cf_ignorepponrename = False, cf_security_capability = True, cf_link_cow = False,
                 cf_xattr = 0, cf_statfs = StatFS_BASE, cf_statfs_ignore = StatFSIgnore_NONE,
                 cf_policies = garbage, cf_open_cache = PolicyCache_init, cf_controlfile = ''/.mergerfs''\<rparr>
      in case set_category_policy ''action'' ''epall'' cfg s of (_, cfg, s) \<Rightarrow>
         case set_category_policy ''create'' ''epmfs'' cfg s of (_, cfg, s) \<Rightarrow>
         case set_category_policy ''search'' ''ff'' cfg s of (_, cfg, s) \<Rightarrow>
           (cfg, s))"

section \<open>The table of policies\<close>

definition category_of :: "FuseFunc_Type \<Rightarrow> Category_Type" where
  "category_of f = ff_category (fusefuncs (ff_index f))"

lemma ff_index_nat: "f \<noteq> FF_invalid \<Longrightarrow> \<exists>i < FF_END. ff_index f = int i"
proof -
  assume "f \<noteq> FF_invalid"
  then have "0 \<le> ff_index f \<and> ff_index f < int FF_END" by (cases f) simp_all
  then show ?thesis by (intro exI [of _ "nat (ff_index f)"]) (simp add: nat_less_iff)
qed

lemma ff_entry_index: "i < FF_END \<Longrightarrow> ff_index (ff_enum (fusefuncs (int i))) = int i"
proof -
  have "list_all (\<lambda>i. ff_index (ff_enum (fusefuncs_vec ! (i + 1))) = int i) [0 ..< FF_END]"
    by (simp add: fusefuncs_vec_def upt_rec)
  then show "i < FF_END \<Longrightarrow> ?thesis"
    by (simp add: list_all_iff fusefuncs_def nat_add_distrib)
qed

lemma assign_category_apply:
  assumes "i < FF_END"
  shows "assign_category c p i table f =
    (if ff_index f = int i \<and> category_of f = c then p else table f)"
proof -
  have "f = ff_enum (fusefuncs (int i)) \<longleftrightarrow> ff_index f = int i"
    using ff_entry_index [OF assms] fusefuncs_enum [of f] by metis
  then show ?thesis
    by (auto simp: assign_category_def category_of_def)
qed

lemma assign_all:
  "n \<le> FF_END \<Longrightarrow> fold (assign_category c p) [0 ..< n] table f =
     (if 0 \<le> ff_index f \<and> ff_index f < int n \<and> category_of f = c then p else table f)"
proof (induction n)
  case (Suc n)
  then show ?case by (auto simp: assign_category_apply)
qed auto

lemma category_assigned:
  "f \<noteq> FF_invalid \<Longrightarrow> fold (assign_category c p) [0 ..< FF_END] table f = (if category_of f = c then p else table f)"
  using ff_index_nat [of f] by (auto simp: assign_all simp del: upt_rec_numeral)

lemma category_of_valid: "f \<noteq> FF_invalid \<Longrightarrow> category_of f \<in> {Cat_action, Cat_create, Cat_search}"
  by (cases f) (simp_all add: category_of_def fusefuncs_def fusefuncs_vec_def)

definition category_entry :: "Category_Type \<Rightarrow> Category" where
  "category_entry c = categories (cat_index c)"

lemma category_entry_find: "c \<noteq> Cat_invalid \<Longrightarrow> Category_find (cat_str (category_entry c)) = category_entry c"
proof -
  assume "c \<noteq> Cat_invalid"
  then have "\<exists>i < CAT_END. cat_index c = int i" by (cases c) (auto intro: exI [of _ 0] exI [of _ 1] exI [of _ 2])
  then show ?thesis using Category_find_found by (auto simp: category_entry_def)
qed

lemma policy_of_find: "p \<noteq> Pol_invalid \<Longrightarrow> Policy_find (pol_str (policy_of p)) = policy_of p"
  using pol_index_nat [of p] Policy_find_found by (auto simp: policy_of_def)

lemma function_find: "f \<noteq> FF_invalid \<Longrightarrow> FuseFunc_find (ff_str (fusefuncs (ff_index f))) = fusefuncs (ff_index f)"
  using ff_index_nat [of f] FuseFunc_find_found by auto

lemma entries_valid:
  "c \<noteq> Cat_invalid \<Longrightarrow> category_entry c \<noteq> categories (- 1)"
  "p \<noteq> Pol_invalid \<Longrightarrow> policy_of p \<noteq> policies (- 1)"
  "f \<noteq> FF_invalid \<Longrightarrow> fusefuncs (ff_index f) \<noteq> fusefuncs (- 1)"
  using categories_enum [of c] categories_enum [of Cat_invalid] policies_enum [of p] policies_enum [of Pol_invalid]
    fusefuncs_enum [of f] fusefuncs_enum [of FF_invalid]
  by (auto simp: category_entry_def policy_of_def)

lemma category_entry_enum [simp]: "cat_enum (category_entry c) = c"
  by (simp add: category_entry_def categories_enum)

lemma policy_of_enum [simp]: "pol_enum (policy_of p) = p"
  by (simp add: policy_of_def policies_enum)

lemma set_category_policy_known:
  assumes "c \<noteq> Cat_invalid" "p \<noteq> Pol_invalid"
  shows "set_category_policy (cat_str (category_entry c)) (pol_str (policy_of p)) cfg s =
    (0, cfg\<lparr>cf_policies := fold (assign_category c (policy_of p)) [0 ..< FF_END] (cf_policies cfg)\<rparr>, s)"
  using category_entry_find [OF assms(1)] policy_of_find [OF assms(2)] entries_valid(1) [OF assms(1)]
    entries_valid(2) [OF assms(2)]
  by (simp add: set_category_policy_def Let_def del: upt_rec_numeral)

lemma function_name_cases:
  "FuseFunc_find fn = fusefuncs (- 1) \<or> (\<exists>f. f \<noteq> FF_invalid \<and> fn = ff_str (fusefuncs (ff_index f)))"
proof (rule disjCI)
  assume none: "\<nexists>f. f \<noteq> FF_invalid \<and> fn = ff_str (fusefuncs (ff_index f))"
  show "FuseFunc_find fn = fusefuncs (- 1)"
  proof (rule FuseFunc_find_not_found)
    fix i :: nat
    assume "i < FF_END"
    then have i: "ff_index (ff_enum (fusefuncs (int i))) = int i" by (rule ff_entry_index)
    then have "ff_enum (fusefuncs (int i)) \<noteq> FF_invalid" by (cases "ff_enum (fusefuncs (int i)) = FF_invalid") simp_all
    then show "ff_str (fusefuncs (int i)) \<noteq> fn" using none i by metis
  qed
qed

lemma policy_name_cases:
  "Policy_find pn = policies (- 1) \<or> (\<exists>p. p \<noteq> Pol_invalid \<and> pn = pol_str (policy_of p))"
proof (rule disjCI)
  assume none: "\<nexists>p. p \<noteq> Pol_invalid \<and> pn = pol_str (policy_of p)"
  show "Policy_find pn = policies (- 1)"
  proof (rule Policy_find_not_found)
    fix i :: nat
    assume "i < POL_END"
    then obtain p where p: "pol_index p = int i" using pol_index_onto by blast
    then have "p \<noteq> Pol_invalid" by auto
    then show "pol_str (policies (int i)) \<noteq> pn" using none p by (metis policy_of_def)
  qed
qed

lemma entry_names:
  "cat_str (category_entry Cat_action) = ''action''" "cat_str (category_entry Cat_create) = ''create''"
  "cat_str (category_entry Cat_search) = ''search''" "pol_str (policy_of Pol_epall) = ''epall''"
  "pol_str (policy_of Pol_epmfs) = ''epmfs''" "pol_str (policy_of Pol_ff) = ''ff''"
  by (simp_all add: category_entry_def categories_def categories_vec_def policy_of_def policies_def policies_vec_def)

section \<open>Properties\<close>

text \<open>
  C15: setting the policy of a category by name succeeds for every category and policy and changes the table
  exactly at the functions of that category; every other setting stays.
\<close>

theorem set_category_policy_exact:
  assumes "c \<noteq> Cat_invalid" "p \<noteq> Pol_invalid"
  shows "\<exists>table. set_category_policy (cat_str (category_entry c)) (pol_str (policy_of p)) cfg s
      = (0, cfg\<lparr>cf_policies := table\<rparr>, s)
    \<and> (\<forall>f. f \<noteq> FF_invalid \<longrightarrow> table f = (if category_of f = c then policy_of p else cf_policies cfg f))"
  unfolding set_category_policy_known [OF assms] using category_assigned by blast

theorem set_category_policy_exact_witness:
  "\<exists>table. set_category_policy (cat_str (category_entry Cat_create)) (pol_str (policy_of Pol_mfs))
       (fst (Config_init (\<lambda>_. policy_of Pol_ff) (sample_sys []))) (sample_sys [])
     = (0, (fst (Config_init (\<lambda>_. policy_of Pol_ff) (sample_sys [])))\<lparr>cf_policies := table\<rparr>, sample_sys [])
   \<and> table FF_mkdir = policy_of Pol_mfs"
  using set_category_policy_exact [of Cat_create Pol_mfs "fst (Config_init (\<lambda>_. policy_of Pol_ff) (sample_sys []))"
      "sample_sys []"]
  by (force simp: category_of_def fusefuncs_def fusefuncs_vec_def)

text \<open>
  C16: a new configuration is fully defined: whatever the uninitialised table held, after the constructor every function
  has the default policy of its category, \<^verbatim>\<open>epall\<close> for the actions, \<^verbatim>\<open>epmfs\<close> for the creating
  ones and \<^verbatim>\<open>ff\<close> for the searching ones.
\<close>

theorem Config_defaults:
  assumes "f \<noteq> FF_invalid"
  shows "cf_policies (fst (Config_init garbage s)) f =
    (case category_of f of
       Cat_action \<Rightarrow> policy_of Pol_epall
     | Cat_create \<Rightarrow> policy_of Pol_epmfs
     | _ \<Rightarrow> policy_of Pol_ff)"
  unfolding Config_init_def Let_def entry_names [symmetric]
  using category_of_valid [OF assms]
  by (auto simp: set_category_policy_known category_assigned [OF assms] simp del: upt_rec_numeral)

theorem Config_defaults_witness:
  "cf_policies (fst (Config_init (\<lambda>_. policies (- 1)) (sample_sys []))) FF_create = policy_of Pol_epmfs"
  using Config_defaults [of FF_create "\<lambda>_. policies (- 1)" "sample_sys []"]
  by (simp add: category_of_def fusefuncs_def fusefuncs_vec_def)

text \<open>
  C17: setting the policy of one function by name. For every function and every policy of the tables, by the names the
  tables give them, exactly the entry of that function is replaced by that policy; a name that no function has is refused
  with \<^verbatim>\<open>ENODATA\<close>, and for a function of the table a name that no policy has is refused with \<^verbatim>\<open>EINVAL\<close>; a
  refusal changes nothing of the configuration.
\<close>

theorem set_func_policy_exact:
  "(\<forall>f p. f \<noteq> FF_invalid \<longrightarrow> p \<noteq> Pol_invalid \<longrightarrow>
      set_func_policy (ff_str (fusefuncs (ff_index f))) (pol_str (policy_of p)) cfg s =
        (0, cfg\<lparr>cf_policies := (cf_policies cfg)(f := policy_of p)\<rparr>, s))
   \<and> ((\<forall>f. f \<noteq> FF_invalid \<longrightarrow> ff_str (fusefuncs (ff_index f)) \<noteq> fn) \<longrightarrow>
      set_func_policy fn pn cfg s = (- 1, cfg, s\<lparr>errno := ENODATA\<rparr>))
   \<and> ((\<forall>p. p \<noteq> Pol_invalid \<longrightarrow> pol_str (policy_of p) \<noteq> pn) \<longrightarrow>
      (\<forall>f. f \<noteq> FF_invalid \<longrightarrow>
         set_func_policy (ff_str (fusefuncs (ff_index f))) pn cfg s = (- 1, cfg, s\<lparr>errno := EINVAL\<rparr>)))"
proof (intro conjI impI allI)
  show "set_func_policy (ff_str (fusefuncs (ff_index f))) (pol_str (policy_of p)) cfg s =
      (0, cfg\<lparr>cf_policies := (cf_policies cfg)(f := policy_of p)\<rparr>, s)" if "f \<noteq> FF_invalid" "p \<noteq> Pol_invalid" for f p
    using function_find [OF that(1)] policy_of_find [OF that(2)] entries_valid(2) [OF that(2)] entries_valid(3) [OF that(1)]
    by (simp add: set_func_policy_def fusefuncs_enum)
  show "set_func_policy fn pn cfg s = (- 1, cfg, s\<lparr>errno := ENODATA\<rparr>)"
    if "\<forall>f. f \<noteq> FF_invalid \<longrightarrow> ff_str (fusefuncs (ff_index f)) \<noteq> fn"
  proof -
    have "FuseFunc_find fn = fusefuncs (- 1)" using function_name_cases [of fn] that by metis
    then show ?thesis by (simp add: set_func_policy_def)
  qed
  show "set_func_policy (ff_str (fusefuncs (ff_index f))) pn cfg s = (- 1, cfg, s\<lparr>errno := EINVAL\<rparr>)"
    if "\<forall>p. p \<noteq> Pol_invalid \<longrightarrow> pol_str (policy_of p) \<noteq> pn" "f \<noteq> FF_invalid" for f
  proof -
    have "Policy_find pn = policies (- 1)" using policy_name_cases [of pn] that(1) by metis
    then show ?thesis using function_find [OF that(2)] entries_valid(3) [OF that(2)] by (simp add: set_func_policy_def)
  qed
qed

theorem set_func_policy_exact_witness:
  "set_func_policy ''getattr'' ''newest'' (fst (Config_init (\<lambda>_. policies (- 1)) (sample_sys []))) (sample_sys []) =
     (0, (fst (Config_init (\<lambda>_. policies (- 1)) (sample_sys [])))\<lparr>cf_policies :=
        (cf_policies (fst (Config_init (\<lambda>_. policies (- 1)) (sample_sys []))))(FF_getattr := policy_of Pol_newest)\<rparr>,
      sample_sys [])"
proof -
  have "ff_str (fusefuncs (ff_index FF_getattr)) = ''getattr''" "pol_str (policy_of Pol_newest) = ''newest''"
    by (simp_all add: fusefuncs_def fusefuncs_vec_def policy_of_def policies_def policies_vec_def)
  moreover have "set_func_policy (ff_str (fusefuncs (ff_index FF_getattr))) (pol_str (policy_of Pol_newest))
      (fst (Config_init (\<lambda>_. policies (- 1)) (sample_sys []))) (sample_sys []) =
     (0, (fst (Config_init (\<lambda>_. policies (- 1)) (sample_sys [])))\<lparr>cf_policies :=
        (cf_policies (fst (Config_init (\<lambda>_. policies (- 1)) (sample_sys []))))(FF_getattr := policy_of Pol_newest)\<rparr>,
      sample_sys [])"
    using set_func_policy_exact [of "fst (Config_init (\<lambda>_. policies (- 1)) (sample_sys []))" "sample_sys []"] by blast
  ultimately show ?thesis by simp
qed

end
