(* ===== verification/Actions.thy ===== *)
theory Actions
  imports Config
begin

text \<open>
  The handlers that change what exists on every branch the policy selects: \<^verbatim>\<open>fuse_chmod.cpp\<close>,
  \<^verbatim>\<open>fuse_chown.cpp\<close>, \<^verbatim>\<open>fuse_truncate.cpp\<close>, \<^verbatim>\<open>fuse_utimens.cpp\<close>, \<^verbatim>\<open>fuse_removexattr.cpp\<close>,
  \<^verbatim>\<open>fuse_unlink.cpp\<close>, \<^verbatim>\<open>fuse_rmdir.cpp\<close> and, without the control file, \<^verbatim>\<open>fuse_setxattr.cpp\<close>.
  Each takes on the identity of the caller, asks its action policy for the branches and calls the system on all of them;
  \<^verbatim>\<open>error::calc\<close> (\<^verbatim>\<open>rv.hpp\<close>) accumulates the result. The read lock on the branches is not modelled.
\<close>

definition error_calc :: "int \<Rightarrow> int \<Rightarrow> int \<Rightarrow> int" where
  "error_calc rv prev cur = (if rv = - 1 then (if prev = 0 then 0 else cur) else 0)"

section \<open>chmod\<close>

definition chmod_loop_core :: "'w os \<Rightarrow> string \<Rightarrow> string \<Rightarrow> mode_t \<Rightarrow> int \<Rightarrow> 'w sys \<Rightarrow> int \<times> 'w sys" where
  "chmod_loop_core os basepath fusepath mode error s =
     (let fullpath = path_make basepath fusepath
      in case fs_chmod os fullpath mode s of
           (rv, s) \<Rightarrow> (error_calc rv error (errno s), s))"

definition chmod_loop :: "'w os \<Rightarrow> string list \<Rightarrow> string \<Rightarrow> mode_t \<Rightarrow> 'w sys \<Rightarrow> int \<times> 'w sys" where
  "chmod_loop os basepaths fusepath mode s =
     (case for_each (\<lambda>basepath. chmod_loop_core os basepath fusepath mode) basepaths (- 1) s of
        (error, s) \<Rightarrow> (- error, s))"

definition l_chmod ::
  "'w os \<Rightarrow> Policy \<Rightarrow> Branch list \<Rightarrow> u64 \<Rightarrow> string \<Rightarrow> mode_t \<Rightarrow> 'w sys \<Rightarrow> int \<times> 'w sys" where
  "l_chmod os actionFunc branches minfreespace fusepath mode s =
     (case Func_Base os Cat_action actionFunc branches fusepath minfreespace [] s of
        (rv, basepaths, s) \<Rightarrow>
          if rv = - 1 then (- errno s, s)
          else chmod_loop os basepaths fusepath mode s)"

definition FUSE_chmod ::
  "'w os \<Rightarrow> fuse_context \<Rightarrow> string \<Rightarrow> mode_t \<Rightarrow> Config \<Rightarrow> 'w sys \<Rightarrow> int \<times> 'w sys" where
  "FUSE_chmod os fc fusepath mode cfg s =
     (let s = ugid_Set os (fc_uid fc) (fc_gid fc) s
      in l_chmod os (cf_policies cfg FF_chmod) (cf_branches cfg) (cf_minfreespace cfg) fusepath mode s)"

section \<open>chown\<close>

definition chown_loop_core :: "'w os \<Rightarrow> string \<Rightarrow> string \<Rightarrow> u32 \<Rightarrow> u32 \<Rightarrow> int \<Rightarrow> 'w sys \<Rightarrow> int \<times> 'w sys" where
  "chown_loop_core os basepath fusepath uid gid error s =
     (let fullpath = path_make basepath fusepath
      in case fs_lchown os fullpath uid gid s of
           (rv, s) \<Rightarrow> (error_calc rv error (errno s), s))"

definition chown_loop :: "'w os \<Rightarrow> string list \<Rightarrow> string \<Rightarrow> u32 \<Rightarrow> u32 \<Rightarrow> 'w sys \<Rightarrow> int \<times> 'w sys" where
  "chown_loop os basepaths fusepath uid gid s =
     (case for_each (\<lambda>basepath. chown_loop_core os basepath fusepath uid gid) basepaths (- 1) s of
        (error, s) \<Rightarrow> (- error, s))"

definition l_chown ::
  "'w os \<Rightarrow> Policy \<Rightarrow> Branch list \<Rightarrow> u64 \<Rightarrow> string \<Rightarrow> u32 \<Rightarrow> u32 \<Rightarrow> 'w sys \<Rightarrow> int \<times> 'w sys" where
  "l_chown os actionFunc branches minfreespace fusepath uid gid s =
     (case Func_Base os Cat_action actionFunc branches fusepath minfreespace [] s of
        (rv, basepaths, s) \<Rightarrow>
          if rv = - 1 then (- errno s, s)
          else chown_loop os basepaths fusepath uid gid s)"

definition FUSE_chown ::
  "'w os \<Rightarrow> fuse_context \<Rightarrow> string \<Rightarrow> u32 \<Rightarrow> u32 \<Rightarrow> Config \<Rightarrow> 'w sys \<Rightarrow> int \<times> 'w sys" where
  "FUSE_chown os fc fusepath uid gid cfg s =
     (let s = ugid_Set os (fc_uid fc) (fc_gid fc) s
      in l_chown os (cf_policies cfg FF_chown) (cf_branches cfg) (cf_minfreespace cfg) fusepath uid gid s)"

section \<open>truncate\<close>

definition truncate_loop_core :: "'w os \<Rightarrow> string \<Rightarrow> string \<Rightarrow> (64 word) \<Rightarrow> int \<Rightarrow> 'w sys \<Rightarrow> int \<times> 'w sys" where
  "truncate_loop_core os basepath fusepath newsize error s =
     (let fullpath = path_make basepath fusepath
      in case fs_truncate os fullpath newsize s of
           (rv, s) \<Rightarrow> (error_calc rv error (errno s), s))"

definition truncate_loop :: "'w os \<Rightarrow> string list \<Rightarrow> string \<Rightarrow> (64 word) \<Rightarrow> 'w sys \<Rightarrow> int \<times> 'w sys" where
  "truncate_loop os basepaths fusepath newsize s =
     (case for_each (\<lambda>basepath. truncate_loop_core os basepath fusepath newsize) basepaths (- 1) s of
        (error, s) \<Rightarrow> (- error, s))"

definition l_truncate ::
  "'w os \<Rightarrow> Policy \<Rightarrow> Branch list \<Rightarrow> u64 \<Rightarrow> string \<Rightarrow> (64 word) \<Rightarrow> 'w sys \<Rightarrow> int \<times> 'w sys" where
  "l_truncate os actionFunc branches minfreespace fusepath newsize s =
     (case Func_Base os Cat_action actionFunc branches fusepath minfreespace [] s of
        (rv, basepaths, s) \<Rightarrow>
          if rv = - 1 then (- errno s, s)
          else truncate_loop os basepaths fusepath newsize s)"

definition FUSE_truncate ::
  "'w os \<Rightarrow> fuse_context \<Rightarrow> string \<Rightarrow> (64 word) \<Rightarrow> Config \<Rightarrow> 'w sys \<Rightarrow> int \<times> 'w sys" where
  "FUSE_truncate os fc fusepath newsize cfg s =
     (let s = ugid_Set os (fc_uid fc) (fc_gid fc) s
      in l_truncate os (cf_policies cfg FF_truncate) (cf_branches cfg) (cf_minfreespace cfg) fusepath newsize s)"

section \<open>utimens\<close>

definition utimens_loop_core :: "'w os \<Rightarrow> string \<Rightarrow> string \<Rightarrow> (timespec \<times> timespec) \<Rightarrow> int \<Rightarrow> 'w sys \<Rightarrow> int \<times> 'w sys" where
  "utimens_loop_core os basepath fusepath ts error s =
     (let fullpath = path_make basepath fusepath
      in case fs_lutime os fullpath ts s of
           (rv, s) \<Rightarrow> (error_calc rv error (errno s), s))"

definition utimens_loop :: "'w os \<Rightarrow> string list \<Rightarrow> string \<Rightarrow> (timespec \<times> timespec) \<Rightarrow> 'w sys \<Rightarrow> int \<times> 'w sys" where
  "utimens_loop os basepaths fusepath ts s =
     (case for_each (\<lambda>basepath. utimens_loop_core os basepath fusepath ts) basepaths (- 1) s of
        (error, s) \<Rightarrow> (- error, s))"

definition l_utimens ::
  "'w os \<Rightarrow> Policy \<Rightarrow> Branch list \<Rightarrow> u64 \<Rightarrow> string \<Rightarrow> (timespec \<times> timespec) \<Rightarrow> 'w sys \<Rightarrow> int \<times> 'w sys" where
  "l_utimens os actionFunc branches minfreespace fusepath ts s =
     (case Func_Base os Cat_action actionFunc branches fusepath minfreespace [] s of
        (rv, basepaths, s) \<Rightarrow>
          if rv = - 1 then (- errno s, s)
          else utimens_loop os basepaths fusepath ts s)"

definition FUSE_utimens ::
  "'w os \<Rightarrow> fuse_context \<Rightarrow> string \<Rightarrow> (timespec \<times> timespec) \<Rightarrow> Config \<Rightarrow> 'w sys \<Rightarrow> int \<times> 'w sys" where
  "FUSE_utimens os fc fusepath ts cfg s =
     (let s = ugid_Set os (fc_uid fc) (fc_gid fc) s
      in l_utimens os (cf_policies cfg FF_utimens) (cf_branches cfg) (cf_minfreespace cfg) fusepath ts s)"

section \<open>removexattr\<close>

definition removexattr_loop_core :: "'w os \<Rightarrow> string \<Rightarrow> string \<Rightarrow> string \<Rightarrow> int \<Rightarrow> 'w sys \<Rightarrow> int \<times> 'w sys" where
  "removexattr_loop_core os basepath fusepath attrname error s =
     (let fullpath = path_make basepath fusepath
      in case fs_lremovexattr os fullpath attrname s of
           (rv, s) \<Rightarrow> (error_calc rv error (errno s), s))"

definition removexattr_loop :: "'w os \<Rightarrow> string list \<Rightarrow> string \<Rightarrow> string \<Rightarrow> 'w sys \<Rightarrow> int \<times> 'w sys" where
  "removexattr_loop os basepaths fusepath attrname s =
     (case for_each (\<lambda>basepath. removexattr_loop_core os basepath fusepath attrname) basepaths (- 1) s of
        (error, s) \<Rightarrow> (- error, s))"

definition l_removexattr ::
  "'w os \<Rightarrow> Policy \<Rightarrow> Branch list \<Rightarrow> u64 \<Rightarrow> string \<Rightarrow> string \<Rightarrow> 'w sys \<Rightarrow> int \<times> 'w sys" where
  "l_removexattr os actionFunc branches minfreespace fusepath attrname s =
     (case Func_Base os Cat_action actionFunc branches fusepath minfreespace [] s of
        (rv, basepaths, s) \<Rightarrow>
          if rv = - 1 then (- errno s, s)
          else removexattr_loop os basepaths fusepath attrname s)"

definition FUSE_removexattr ::
  "'w os \<Rightarrow> fuse_context \<Rightarrow> string \<Rightarrow> string \<Rightarrow> Config \<Rightarrow> 'w sys \<Rightarrow> int \<times> 'w sys" where
  "FUSE_removexattr os fc fusepath attrname cfg s =
     (if fusepath = cf_controlfile cfg then (- ENOATTR, s)
      else if cf_xattr cfg \<noteq> 0 then (- cf_xattr cfg, s)
      else
        let s = ugid_Set os (fc_uid fc) (fc_gid fc) s
        in l_removexattr os (cf_policies cfg FF_removexattr) (cf_branches cfg) (cf_minfreespace cfg) fusepath attrname s)"

section \<open>setxattr\<close>

definition setxattr_loop_core :: "'w os \<Rightarrow> string \<Rightarrow> string \<Rightarrow> string \<Rightarrow> string \<Rightarrow> u32 \<Rightarrow> int \<Rightarrow> 'w sys \<Rightarrow> int \<times> 'w sys" where
  "setxattr_loop_core os basepath fusepath attrname attrval flags error s =
     (let fullpath = path_make basepath fusepath
      in case fs_lsetxattr os fullpath attrname attrval flags s of
           (rv, s) \<Rightarrow> (error_calc rv error (errno s), s))"

definition setxattr_loop :: "'w os \<Rightarrow> string list \<Rightarrow> string \<Rightarrow> string \<Rightarrow> string \<Rightarrow> u32 \<Rightarrow> 'w sys \<Rightarrow> int \<times> 'w sys" where
  "setxattr_loop os basepaths fusepath attrname attrval flags s =
     (case for_each (\<lambda>basepath. setxattr_loop_core os basepath fusepath attrname attrval flags) basepaths (- 1) s of
        (error, s) \<Rightarrow> (- error, s))"

definition l_setxattr ::
  "'w os \<Rightarrow> Policy \<Rightarrow> Branch list \<Rightarrow> u64 \<Rightarrow> string \<Rightarrow> string \<Rightarrow> string \<Rightarrow> u32 \<Rightarrow> 'w sys \<Rightarrow> int \<times> 'w sys" where
  "l_setxattr os actionFunc branches minfreespace fusepath attrname attrval flags s =
     (case Func_Base os Cat_action actionFunc branches fusepath minfreespace [] s of
        (rv, basepaths, s) \<Rightarrow>
          if rv = - 1 then (- errno s, s)
          else setxattr_loop os basepaths fusepath attrname attrval flags s)"

section \<open>unlink\<close>

definition unlink_loop_core :: "'w os \<Rightarrow> string \<Rightarrow> string \<Rightarrow> int \<Rightarrow> 'w sys \<Rightarrow> int \<times> 'w sys" where
  "unlink_loop_core os basepath fusepath error s =
     (let fullpath = path_make basepath fusepath
      in case fs_unlink os fullpath s of
           (rv, s) \<Rightarrow> (error_calc rv error (errno s), s))"

definition unlink_loop :: "'w os \<Rightarrow> string list \<Rightarrow> string \<Rightarrow> 'w sys \<Rightarrow> int \<times> 'w sys" where
  "unlink_loop os basepaths fusepath s =
     (case for_each (\<lambda>basepath. unlink_loop_core os basepath fusepath) basepaths (- 1) s of
        (error, s) \<Rightarrow> (- error, s))"

definition l_unlink ::
  "'w os \<Rightarrow> Policy \<Rightarrow> Branch list \<Rightarrow> u64 \<Rightarrow> string \<Rightarrow> 'w sys \<Rightarrow> int \<times> 'w sys" where
  "l_unlink os actionFunc branches minfreespace fusepath s =
     (case Func_Base os Cat_action actionFunc branches fusepath minfreespace [] s of
        (rv, basepaths, s) \<Rightarrow>
          if rv = - 1 then (- errno s, s)
          else unlink_loop os basepaths fusepath s)"

definition FUSE_unlink ::
  "'w os \<Rightarrow> fuse_context \<Rightarrow> string \<Rightarrow> Config \<Rightarrow> 'w sys \<Rightarrow> int \<times> Config \<times> 'w sys" where
  "FUSE_unlink os fc fusepath cfg s =
     (let s = ugid_Set os (fc_uid fc) (fc_gid fc) s;
          cfg = cfg\<lparr>cf_open_cache := PolicyCache_erase fusepath (cf_open_cache cfg)\<rparr>
      in case l_unlink os (cf_policies cfg FF_unlink) (cf_branches cfg) (cf_minfreespace cfg) fusepath s of
           (rv, s) \<Rightarrow> (rv, cfg, s))"

section \<open>rmdir\<close>

definition rmdir_loop_core :: "'w os \<Rightarrow> string \<Rightarrow> string \<Rightarrow> int \<Rightarrow> 'w sys \<Rightarrow> int \<times> 'w sys" where
  "rmdir_loop_core os basepath fusepath error s =
     (let fullpath = path_make basepath fusepath
      in case fs_rmdir os fullpath s of
           (rv, s) \<Rightarrow> (error_calc rv error (errno s), s))"

definition rmdir_loop :: "'w os \<Rightarrow> string list \<Rightarrow> string \<Rightarrow> 'w sys \<Rightarrow> int \<times> 'w sys" where
  "rmdir_loop os basepaths fusepath s =
     (case for_each (\<lambda>basepath. rmdir_loop_core os basepath fusepath) basepaths (- 1) s of
        (error, s) \<Rightarrow> (- error, s))"

definition l_rmdir ::
  "'w os \<Rightarrow> Policy \<Rightarrow> Branch list \<Rightarrow> u64 \<Rightarrow> string \<Rightarrow> 'w sys \<Rightarrow> int \<times> 'w sys" where
  "l_rmdir os actionFunc branches minfreespace fusepath s =
     (case Func_Base os Cat_action actionFunc branches fusepath minfreespace [] s of
        (rv, basepaths, s) \<Rightarrow>
          if rv = - 1 then (- errno s, s)
          else rmdir_loop os basepaths fusepath s)"

definition FUSE_rmdir ::
  "'w os \<Rightarrow> fuse_context \<Rightarrow> string \<Rightarrow> Config \<Rightarrow> 'w sys \<Rightarrow> int \<times> 'w sys" where
  "FUSE_rmdir os fc fusepath cfg s =
     (let s = ugid_Set os (fc_uid fc) (fc_gid fc) s
      in l_rmdir os (cf_policies cfg FF_rmdir) (cf_branches cfg) (cf_minfreespace cfg) fusepath s)"

section \<open>The contract of an operation on the selected branches\<close>

text \<open>
  \<open>op_results\<close> is what the calls return one after the other, \<open>0\<close> or the error number; \<open>merged\<close> is what the handler makes of
  it: success when a call succeeded, otherwise the error of the last one.
\<close>

fun op_results :: "(string \<Rightarrow> 'w sys \<Rightarrow> int \<times> 'w sys) \<Rightarrow> string list \<Rightarrow> 'w sys \<Rightarrow> int list \<times> 'w sys" where
  "op_results op [] s = ([], s)"
| "op_results op (b # bs) s =
     (case op b s of (rv, s) \<Rightarrow>
      case op_results op bs s of (es, t) \<Rightarrow> ((if rv = - 1 then errno s else 0) # es, t))"

definition merged :: "int list \<Rightarrow> int" where
  "merged es = (if 0 \<in> set es then 0 else if es = [] then - 1 else last es)"

definition act_spec ::
  "'w os \<Rightarrow> Policy \<Rightarrow> Branch list \<Rightarrow> u64 \<Rightarrow> string \<Rightarrow> (string \<Rightarrow> 'w sys \<Rightarrow> int \<times> 'w sys) \<Rightarrow> 'w sys \<Rightarrow> int \<times> 'w sys" where
  "act_spec os p branches minfreespace fusepath op s =
     (case Func_Base os Cat_action p branches fusepath minfreespace [] s of
        (rv, basepaths, s) \<Rightarrow>
          if rv = - 1 then (- errno s, s)
          else (case op_results (\<lambda>b. op (path_make b fusepath)) basepaths s of
                  (es, s) \<Rightarrow> (- merged es, s)))"

lemma op_results_length: "length (fst (op_results op bs s)) = length bs"
  by (induction bs arbitrary: s) (auto simp: case_prod_beta)

locale branch_op =
  fixes op :: "string \<Rightarrow> 'w sys \<Rightarrow> int \<times> 'w sys"
    and core :: "string \<Rightarrow> int \<Rightarrow> 'w sys \<Rightarrow> int \<times> 'w sys"
  assumes core_op: "core b e s = (case op b s of (rv, s') \<Rightarrow> (error_calc rv e (errno s'), s'))"
begin

lemma loop_from:
  "for_each core bs e s =
     (case op_results op bs s of
        (es, t) \<Rightarrow> (if e = 0 \<or> 0 \<in> set es then 0 else if es = [] then e else last es, t))"
proof (induction bs arbitrary: e s)
  case (Cons b bs)
  then show ?case by (auto simp: core_op error_calc_def split: prod.splits)
qed auto

lemma loop: "for_each core bs (- 1) s = (case op_results op bs s of (es, t) \<Rightarrow> (merged es, t))"
  by (auto simp: loop_from merged_def split: prod.splits)

end

locale plain_op = branch_op +
  assumes op_keeps: "keeps s (snd (op b s))"
begin

lemma results_keeps: "keeps s (snd (op_results op bs s))"
proof (induction bs arbitrary: s)
  case (Cons b bs)
  then show ?case using op_keeps [of s b] keeps_trans by (fastforce split: prod.splits)
qed simp

end

interpretation chmod_op: plain_op "\<lambda>b. fs_chmod os (path_make b fusepath) mode" "\<lambda>b. chmod_loop_core os b fusepath mode"
  for os :: "'w os" and fusepath and mode
  by unfold_locales (auto simp: chmod_loop_core_def fs_defs intro!: keeps_intros)

interpretation chown_op: plain_op "\<lambda>b. fs_lchown os (path_make b fusepath) uid gid" "\<lambda>b. chown_loop_core os b fusepath uid gid"
  for os :: "'w os" and fusepath and uid and gid
  by unfold_locales (auto simp: chown_loop_core_def fs_defs intro!: keeps_intros)

interpretation truncate_op: plain_op "\<lambda>b. fs_truncate os (path_make b fusepath) newsize" "\<lambda>b. truncate_loop_core os b fusepath newsize"
  for os :: "'w os" and fusepath and newsize
  by unfold_locales (auto simp: truncate_loop_core_def fs_defs intro!: keeps_intros)

interpretation utimens_op: plain_op "\<lambda>b. fs_lutime os (path_make b fusepath) ts" "\<lambda>b. utimens_loop_core os b fusepath ts"
  for os :: "'w os" and fusepath and ts
  by unfold_locales (auto simp: utimens_loop_core_def fs_defs intro!: keeps_intros)

interpretation removexattr_op: plain_op "\<lambda>b. fs_lremovexattr os (path_make b fusepath) attrname" "\<lambda>b. removexattr_loop_core os b fusepath attrname"
  for os :: "'w os" and fusepath and attrname
  by unfold_locales (auto simp: removexattr_loop_core_def fs_defs intro!: keeps_intros)

interpretation setxattr_op: plain_op "\<lambda>b. fs_lsetxattr os (path_make b fusepath) attrname attrval flags" "\<lambda>b. setxattr_loop_core os b fusepath attrname attrval flags"
  for os :: "'w os" and fusepath and attrname and attrval and flags
  by unfold_locales (auto simp: setxattr_loop_core_def fs_defs intro!: keeps_intros)

interpretation unlink_op: plain_op "\<lambda>b. fs_unlink os (path_make b fusepath)" "\<lambda>b. unlink_loop_core os b fusepath"
  for os :: "'w os" and fusepath
  by unfold_locales (auto simp: unlink_loop_core_def fs_defs intro!: keeps_intros)

interpretation rmdir_op: plain_op "\<lambda>b. fs_rmdir os (path_make b fusepath)" "\<lambda>b. rmdir_loop_core os b fusepath"
  for os :: "'w os" and fusepath
  by unfold_locales (auto simp: rmdir_loop_core_def fs_defs intro!: keeps_intros)

text \<open>The body of each handler implements the contract.\<close>

lemma l_chmod_spec:
  "l_chmod os f bs m fp mode s = act_spec os f bs m fp (\<lambda>p. fs_chmod os p mode) s"
  by (simp add: l_chmod_def act_spec_def chmod_loop_def chmod_op.loop case_prod_beta)

lemma l_chown_spec:
  "l_chown os f bs m fp uid gid s = act_spec os f bs m fp (\<lambda>p. fs_lchown os p uid gid) s"
  by (simp add: l_chown_def act_spec_def chown_loop_def chown_op.loop case_prod_beta)

lemma l_truncate_spec:
  "l_truncate os f bs m fp newsize s = act_spec os f bs m fp (\<lambda>p. fs_truncate os p newsize) s"
  by (simp add: l_truncate_def act_spec_def truncate_loop_def truncate_op.loop case_prod_beta)

lemma l_utimens_spec:
  "l_utimens os f bs m fp ts s = act_spec os f bs m fp (\<lambda>p. fs_lutime os p ts) s"
  by (simp add: l_utimens_def act_spec_def utimens_loop_def utimens_op.loop case_prod_beta)

lemma l_removexattr_spec:
  "l_removexattr os f bs m fp attrname s = act_spec os f bs m fp (\<lambda>p. fs_lremovexattr os p attrname) s"
  by (simp add: l_removexattr_def act_spec_def removexattr_loop_def removexattr_op.loop case_prod_beta)

lemma l_setxattr_spec:
  "l_setxattr os f bs m fp attrname attrval flags s = act_spec os f bs m fp (\<lambda>p. fs_lsetxattr os p attrname attrval flags) s"
  by (simp add: l_setxattr_def act_spec_def setxattr_loop_def setxattr_op.loop case_prod_beta)

lemma l_unlink_spec:
  "l_unlink os f bs m fp s = act_spec os f bs m fp (\<lambda>p. fs_unlink os p) s"
  by (simp add: l_unlink_def act_spec_def unlink_loop_def unlink_op.loop case_prod_beta)

lemma l_rmdir_spec:
  "l_rmdir os f bs m fp s = act_spec os f bs m fp (\<lambda>p. fs_rmdir os p) s"
  by (simp add: l_rmdir_def act_spec_def rmdir_loop_def rmdir_op.loop case_prod_beta)

section \<open>What the calls do to the kernel state\<close>

fun calls :: "('b \<Rightarrow> 'w \<Rightarrow> unit ret \<times> 'w) \<Rightarrow> 'b list \<Rightarrow> 'w \<Rightarrow> unit ret list" where
  "calls k [] w = []"
| "calls k (b # bs) w = (case k b w of (r, w') \<Rightarrow> r # calls k bs w')"

definition error_of :: "unit ret \<Rightarrow> int" where
  "error_of r = (case r of Inl e \<Rightarrow> e | Inr _ \<Rightarrow> 0)"

lemma op_results_calls:
  "fst (op_results (\<lambda>b s. sys_unit (k b (world s)) s) bs s) = map error_of (calls k bs (world s))
   \<and> world (snd (op_results (\<lambda>b s. sys_unit (k b (world s)) s) bs s)) = fold (\<lambda>b w. snd (k b w)) bs (world s)"
proof (induction bs arbitrary: s)
  case (Cons b bs)
  show ?case
    using Cons by (auto simp: sys_unit_def error_of_def case_prod_beta split: prod.splits sum.splits)
qed simp

lemma merged_calls:
  assumes "\<And>b w e w'. k b w = (Inl e, w') \<Longrightarrow> 0 < e" "bs \<noteq> []"
  shows "merged (map error_of (calls k bs w)) =
    (if \<exists>u. Inr u \<in> set (calls k bs w) then 0 else error_of (last (calls k bs w)))"
proof -
  have pos: "0 < e" if "Inl e \<in> set (calls k bs w)" for e
    using that
  proof (induction bs arbitrary: w)
    case (Cons b bs)
    then show ?case using assms(1) [of b w] by (cases "k b w") auto
  qed simp
  have "calls k bs w \<noteq> []" using assms(2) by (cases bs) (auto split: prod.splits)
  moreover have "0 \<in> error_of ` set (calls k bs w) \<longleftrightarrow> (\<exists>u. Inr u \<in> set (calls k bs w))"
  proof
    assume "0 \<in> error_of ` set (calls k bs w)"
    then obtain r where r: "r \<in> set (calls k bs w)" "error_of r = 0" by auto
    show "\<exists>u. Inr u \<in> set (calls k bs w)"
    proof (cases r)
      case (Inl e)
      then have "0 < e" using pos r(1) by simp
      then show ?thesis using r(2) Inl by (simp add: error_of_def)
    qed (use r in auto)
  qed (force simp: error_of_def)
  ultimately show ?thesis by (auto simp: merged_def last_map)
qed

lemma shuffle_holds:
  assumes "\<And>w. Q w \<Longrightarrow> Q (snd (k_rand os w))"
  shows "holds Q s \<Longrightarrow> holds Q (snd (random_shuffle os xs s))"
  unfolding random_shuffle_def shuffle_step_def
  by (rule holds_for_each) (auto simp: case_prod_beta holds_def assms)

lemma policy_holds:
  assumes "\<And>w. Q w \<Longrightarrow> Q (snd (k_rand os w))" "holds Q s"
  shows "holds Q (state_of (policy_func os p T bs fp m ps s))"
proof -
  have plain: "holds Q (state_of (policy_func os q T bs fp m ps s))" if "q \<notin> {Pol_rand, Pol_eprand}" for q
    using policy_world [of q os T bs fp m ps s] that assms(2) by (simp add: holds_def)
  have "holds Q (state_of (Func_rand os T bs fp m ps s))" "holds Q (state_of (Func_eprand os T bs fp m ps s))"
    using plain [of Pol_all] plain [of Pol_epall]
      shuffle_holds [of Q os, OF assms(1)]
    by (auto simp: Func_rand_def Func_eprand_def policy_func_def case_prod_beta)
  then show ?thesis using plain [of p] by (cases p) (simp_all add: policy_func_def)
qed

lemma op_results_holds:
  assumes "\<And>b t. b \<in> set bs \<Longrightarrow> holds Q t \<Longrightarrow> holds Q (snd (op b t))"
  shows "holds Q s \<Longrightarrow> holds Q (snd (op_results op bs s))"
  using assms
proof (induction bs arbitrary: s)
  case (Cons b bs)
  have "holds Q (snd (op b s))" using Cons.prems by simp
  then have "holds Q (snd (op_results op bs (snd (op b s))))" using Cons by simp
  then show ?case by (simp add: case_prod_beta)
qed simp

lemma act_spec_holds:
  assumes "steady s bs" "\<And>w. Q w \<Longrightarrow> Q (snd (k_rand os w))"
    and "\<And>b t. b \<in> set bs \<Longrightarrow> \<not> ro b \<Longrightarrow> has_path os fp s b \<Longrightarrow> holds Q t \<Longrightarrow>
      holds Q (snd (op (path_make (br_path b) fp) t))"
    and "holds Q s"
  shows "holds Q (snd (act_spec os p bs m fp op s))"
proof -
  obtain rv ps t where c: "policy_func os (pol_enum p) Cat_action bs fp m [] s = (rv, ps, t)"
    by (cases "policy_func os (pol_enum p) Cat_action bs fp m [] s") blast
  have "holds Q t" using policy_holds [OF assms(2,4), of "pol_enum p" Cat_action bs fp m "[]"] c by simp
  moreover have "\<exists>b \<in> set bs. br_path b = x \<and> \<not> ro b \<and> has_path os fp s b" if "x \<in> set ps" for x
    using policy_eligible [OF assms(1), of x os "pol_enum p" Cat_action fp m] c that
    by (auto simp: eligible_def can_act_def)
  ultimately have "holds Q (snd (op_results (\<lambda>b. op (path_make b fp)) ps t))"
    using assms(3) by (intro op_results_holds) auto
  then show ?thesis using c \<open>holds Q t\<close> by (simp add: act_spec_def Func_Base_def case_prod_beta)
qed

section \<open>Properties\<close>

text \<open>
  C18: the action handlers share one contract. Each takes on the caller's identity, lets its action policy choose branches, makes
  its system call on every chosen branch in order, and returns success when one of the calls succeeded, otherwise the negated error of
  the last call, or of the policy when it chose none; \<^verbatim>\<open>unlink\<close> also drops the path from the cache of open files.
\<close>

theorem action_handlers_meet_contract:
  fixes cfg :: Config and os :: "'w os" and fc :: fuse_context and s :: "'w sys"
  defines "t \<equiv> ugid_Set os (fc_uid fc) (fc_gid fc) s"
    and "spec \<equiv> \<lambda>f. act_spec os (cf_policies cfg f) (cf_branches cfg) (cf_minfreespace cfg)"
  shows "FUSE_chmod os fc p mode cfg s = spec FF_chmod p (\<lambda>q. fs_chmod os q mode) t
    \<and> FUSE_chown os fc p uid gid cfg s = spec FF_chown p (\<lambda>q. fs_lchown os q uid gid) t
    \<and> FUSE_truncate os fc p n cfg s = spec FF_truncate p (\<lambda>q. fs_truncate os q n) t
    \<and> FUSE_utimens os fc p ts cfg s = spec FF_utimens p (\<lambda>q. fs_lutime os q ts) t
    \<and> FUSE_rmdir os fc p cfg s = spec FF_rmdir p (fs_rmdir os) t
    \<and> FUSE_removexattr os fc p a cfg s =
        (if p = cf_controlfile cfg then (- ENOATTR, s)
         else if cf_xattr cfg \<noteq> 0 then (- cf_xattr cfg, s)
         else spec FF_removexattr p (\<lambda>q. fs_lremovexattr os q a) t)
    \<and> FUSE_unlink os fc p cfg s =
        (fst (spec FF_unlink p (fs_unlink os) t),
         cfg\<lparr>cf_open_cache := PolicyCache_erase p (cf_open_cache cfg)\<rparr>,
         snd (spec FF_unlink p (fs_unlink os) t))"
  by (simp add: t_def spec_def FUSE_chmod_def FUSE_chown_def FUSE_truncate_def FUSE_utimens_def FUSE_rmdir_def
      FUSE_removexattr_def FUSE_unlink_def l_chmod_spec l_chown_spec l_truncate_spec l_utimens_spec l_rmdir_spec
      l_removexattr_spec l_unlink_spec Let_def case_prod_beta)

text \<open>
  C19: one success is enough. When the policy has chosen the branches \<open>ps\<close>, \<^verbatim>\<open>unlink\<close> is called on all of
  them; the handler returns 0 exactly when at least one call succeeded, and otherwise the negated error of the last call. The
  law used is that a failing \<^verbatim>\<open>unlink(2)\<close> has a positive error number.
\<close>

theorem unlink_any_success:
  assumes "\<forall>q w e w'. k_unlink os q w = (Inl e, w') \<longrightarrow> 0 < e"
    and "Func_Base os Cat_action (cf_policies cfg FF_unlink) (cf_branches cfg) p (cf_minfreespace cfg) []
          (ugid_Set os (fc_uid fc) (fc_gid fc) s) = (0, ps, t)"
    and "ps \<noteq> []"
  defines "rs \<equiv> calls (\<lambda>b. k_unlink os (path_make b p)) ps (world t)"
  shows "fst (FUSE_unlink os fc p cfg s) = (if \<exists>u. Inr u \<in> set rs then 0 else - error_of (last rs))
    \<and> world (snd (snd (FUSE_unlink os fc p cfg s))) = fold (\<lambda>b w. snd (k_unlink os (path_make b p) w)) ps (world t)"
  using op_results_calls [of "\<lambda>b. k_unlink os (path_make b p)" ps t]
    merged_calls [of "\<lambda>b. k_unlink os (path_make b p)" ps "world t"] assms(1-3)
  by (simp add: FUSE_unlink_def l_unlink_spec act_spec_def fs_unlink_def [abs_def] rs_def Let_def case_prod_beta)

definition sample_config :: "Branch list \<Rightarrow> (FuseFunc_Type \<Rightarrow> Policy) \<Rightarrow> Config" where
  "sample_config bs table = \<lparr>cf_destmount = [], cf_branches = bs, cf_minfreespace = 0,
     cf_moveonenospc = False, cf_direct_io = False, cf_dropcacheonclose = False,
     cf_symlinkify = False, cf_symlinkify_timeout = 3600, cf_nullrw = False,
     cf_ignorepponrename = False, cf_security_capability = True, cf_link_cow = False,
     cf_xattr = 0, cf_statfs = StatFS_BASE, cf_statfs_ignore = StatFSIgnore_NONE,
     cf_policies = table, cf_open_cache = PolicyCache_init, cf_controlfile = ''/.mergerfs''\<rparr>"

definition sample_root :: fuse_context where
  "sample_root = \<lparr>fc_uid = 0, fc_gid = 0, fc_umask = 0\<rparr>"

definition sample_policy :: "Policy_Type \<Rightarrow> Policy" where
  "sample_policy p = \<lparr>pol_enum = p, pol_str = [], path_preserving = False\<rparr>"

theorem unlink_any_success_witness:
  "let cfg = sample_config two_branches (\<lambda>_. sample_policy Pol_all)
   in fst (FUSE_unlink sample_os sample_root ''/x'' cfg (sample_sys [''/b/x'', ''/a/x''])) = 0
      \<and> world (snd (snd (FUSE_unlink sample_os sample_root ''/x'' cfg (sample_sys [''/b/x'', ''/a/x''])))) = []"
proof -
  let ?cfg = "sample_config two_branches (\<lambda>_. sample_policy Pol_all)"
  let ?s = "ugid_Set sample_os (fc_uid sample_root) (fc_gid sample_root) (sample_sys [''/b/x'', ''/a/x''])"
  let ?r = "Func_Base sample_os Cat_action (cf_policies ?cfg FF_unlink) (cf_branches ?cfg) ''/x'' (cf_minfreespace ?cfg) [] ?s"
  have "fst ?r = 0" "fst (snd ?r) = [''/a'', ''/b'']" "world (snd (snd ?r)) = [''/b/x'', ''/a/x'']"
    by code_simp+
  moreover from this have r: "?r = (0, [''/a'', ''/b''], snd (snd ?r))" by (simp add: prod_eq_iff)
  moreover have law: "\<forall>q w e w'. k_unlink sample_os q w = (Inl e, w') \<longrightarrow> 0 < e"
    by (auto simp: sample_defs split: if_splits)
  ultimately show ?thesis
    using unlink_any_success [OF law r]
    by (simp add: Let_def path_make_def c_str_def sample_defs)
qed

definition kept_by_writable :: "'w os \<Rightarrow> ('w \<Rightarrow> bool) \<Rightarrow> Branch list \<Rightarrow> string \<Rightarrow> bool" where
  "kept_by_writable os Q bs p \<longleftrightarrow>
     (\<forall>b \<in> set bs. \<not> ro b \<longrightarrow> (\<forall>w. Q w \<longrightarrow>
        (let q = path_make (br_path b) p
         in (\<forall>m. Q (snd (k_chmod os q m w))) \<and> (\<forall>u g. Q (snd (k_lchown os q u g w)))
            \<and> (\<forall>n. Q (snd (k_truncate os q n w))) \<and> (\<forall>a m l. Q (snd (k_utimensat os q a m l w)))
            \<and> (\<forall>a. Q (snd (k_lremovexattr os q a w))) \<and> (\<forall>a v f. Q (snd (k_lsetxattr os q a v f w)))
            \<and> Q (snd (k_unlink os q w)) \<and> Q (snd (k_rmdir os q w)))))"

lemma act_handler_holds:
  assumes "steady s bs" "cred_preserves os Q" "holds Q s"
    and "\<And>b w. b \<in> set bs \<Longrightarrow> \<not> ro b \<Longrightarrow> Q w \<Longrightarrow> Q (snd (k (path_make (br_path b) fp) w))"
  shows "Q (world (snd (act_spec os p bs m fp (\<lambda>q t. sys_unit (k q (world t)) t) (ugid_Set os u g s))))"
proof -
  have "holds Q (snd (act_spec os p bs m fp (\<lambda>q t. sys_unit (k q (world t)) t) (ugid_Set os u g s)))"
  proof (rule act_spec_holds)
    show "steady (ugid_Set os u g s) bs" using assms(1) by (simp add: steady_def)
    show "Q (snd (k_rand os w))" if "Q w" for w using assms(2) that by (simp add: cred_preserves_def)
    show "holds Q (ugid_Set os u g s)" by (rule holds_ugid_Set [OF assms(2,3)])
  next
    fix b :: Branch and t :: "'a sys"
    assume "b \<in> set bs" "\<not> ro b" "holds Q t"
    then show "holds Q (snd (sys_unit (k (path_make (br_path b) fp) (world t)) t))"
      using assms(4) by (intro holds_intros) (simp add: holds_def)
  qed
  then show ?thesis by (simp add: holds_def)
qed

text \<open>
  C20: \<^verbatim>\<open>chmod\<close>, \<^verbatim>\<open>chown\<close>, \<^verbatim>\<open>truncate\<close>, \<^verbatim>\<open>utimens\<close>, \<^verbatim>\<open>rmdir\<close>, \<^verbatim>\<open>removexattr\<close> and \<^verbatim>\<open>unlink\<close> leave
  read-only branches alone, on a pool in which no path is listed twice or with the statvfs cache off. A property of the kernel state that changing the credentials keeps, and that survives the call
  of the handler on every branch not tagged RO, holds after the handler: whatever the policy and whatever happens, no call
  is made for a branch tagged RO. The other functions of the action category are not covered: \<^verbatim>\<open>link\<close>, \<^verbatim>\<open>rename\<close>, which
  removes files of the new name also on branches tagged RO, and \<^verbatim>\<open>setxattr\<close>.
\<close>

theorem action_handlers_spare_readonly:
  assumes "steady s (cf_branches cfg)" "cred_preserves os Q" "kept_by_writable os Q (cf_branches cfg) p" "Q (world s)"
  shows "Q (world (snd (FUSE_chmod os fc p mode cfg s)))
    \<and> Q (world (snd (FUSE_chown os fc p uid gid cfg s)))
    \<and> Q (world (snd (FUSE_truncate os fc p n cfg s)))
    \<and> Q (world (snd (FUSE_utimens os fc p ts cfg s)))
    \<and> Q (world (snd (FUSE_rmdir os fc p cfg s)))
    \<and> Q (world (snd (FUSE_removexattr os fc p a cfg s)))
    \<and> Q (world (snd (snd (FUSE_unlink os fc p cfg s))))"
proof -
  note kept = act_handler_holds [OF assms(1,2) assms(4) [folded holds_def]]
  show ?thesis
    using kept [of "\<lambda>q. k_chmod os q mode" p] kept [of "\<lambda>q. k_lchown os q uid gid" p]
      kept [of "\<lambda>q. k_truncate os q n" p] kept [of "\<lambda>q. k_utimensat os q (fst ts) (snd ts) True" p]
      kept [of "k_rmdir os" p] kept [of "\<lambda>q. k_lremovexattr os q a" p] kept [of "k_unlink os" p] assms(3,4)
    by (simp add: FUSE_chmod_def FUSE_chown_def FUSE_truncate_def FUSE_utimens_def FUSE_rmdir_def
      FUSE_removexattr_def FUSE_unlink_def l_chmod_spec l_chown_spec l_truncate_spec l_utimens_spec l_rmdir_spec
      l_removexattr_spec l_unlink_spec Let_def case_prod_beta fs_chmod_def [abs_def]
      fs_lchown_def [abs_def] fs_truncate_def [abs_def] fs_lutime_def [abs_def] fs_lremovexattr_def [abs_def]
      fs_rmdir_def [abs_def] fs_unlink_def [abs_def] kept_by_writable_def)
qed

theorem action_handlers_spare_readonly_witness:
  "''/a/x'' \<in> set (world (snd (snd (FUSE_unlink sample_os sample_root ''/x''
     (sample_config nc_branches (\<lambda>_. sample_policy Pol_all)) (sample_sys [''/a/x'', ''/b/x''])))))"
proof -
  let ?Q = "\<lambda>w. ''/a/x'' \<in> set w"
  let ?cfg = "sample_config nc_branches (\<lambda>_. sample_policy Pol_all)"
  have "cred_preserves sample_os ?Q" by (simp add: cred_preserves_def sample_os_def)
  moreover have "kept_by_writable sample_os ?Q (cf_branches ?cfg) ''/x''"
    by (auto simp: kept_by_writable_def sample_config_def nc_branches_def ro_def path_make_def c_str_def sample_defs)
  ultimately show ?thesis
    using action_handlers_spare_readonly [of "sample_sys [''/a/x'', ''/b/x'']" ?cfg sample_os ?Q "''/x''"]
    by (simp add: sample_sys_def [of "[''/a/x'', ''/b/x'']"] steady_def)
qed

end
