(* ===== verification/Creates.thy ===== *)
theory Creates
  imports Actions
begin

text \<open>
  The handlers that create: \<^verbatim>\<open>fuse_create.cpp\<close>, \<^verbatim>\<open>fuse_mkdir.cpp\<close>, \<^verbatim>\<open>fuse_mknod.cpp\<close>,
  \<^verbatim>\<open>fuse_symlink.cpp\<close>, with \<^verbatim>\<open>fs_acl.cpp\<close>. Each looks for a branch that has the parent directory, asks
  the create policy for the branches to create on, clones the parent there and creates. \<open>FileInfo\<close> is the structure of
  \<^verbatim>\<open>fileinfo.hpp\<close>, and \<open>fuse_file_info\<close> the fields of the one in \<^verbatim>\<open>fuse_common.h\<close> that the handlers use.
\<close>

unbundle bit_operations_syntax

record FileInfo =
  fi_fd :: int
  fi_fusepath :: string

record fuse_file_info =
  ffi_flags :: u32
  ffi_fh :: "FileInfo option"
  ffi_direct_io :: bool
  ffi_keep_cache :: bool

abbreviation POSIX_ACL_DEFAULT_XATTR :: string where
  "POSIX_ACL_DEFAULT_XATTR \<equiv> ''system.posix_acl_default''"

definition dir_has_defaults :: "'w os \<Rightarrow> string \<Rightarrow> 'w sys \<Rightarrow> bool \<times> 'w sys" where
  "dir_has_defaults os fullpath s =
     (case fs_lgetxattr os (dirname fullpath) POSIX_ACL_DEFAULT_XATTR 0 s of
        (rv, s) \<Rightarrow> (rv \<noteq> None, s))"

section \<open>create\<close>

definition create_open :: "'w os \<Rightarrow> string \<Rightarrow> mode_t \<Rightarrow> mode_t \<Rightarrow> u32 \<Rightarrow> 'w sys \<Rightarrow> int \<times> 'w sys" where
  "create_open os fullpath mode umask flags s =
     (case dir_has_defaults os fullpath s of (acl, s) \<Rightarrow>
        let mode = (if \<not> acl then mode AND NOT umask else mode)
        in fs_open os fullpath flags mode s)"

definition create_core ::
  "'w os \<Rightarrow> string \<Rightarrow> string \<Rightarrow> mode_t \<Rightarrow> mode_t \<Rightarrow> u32 \<Rightarrow> FileInfo option \<Rightarrow> 'w sys \<Rightarrow>
   int \<times> FileInfo option \<times> 'w sys" where
  "create_core os createpath fusepath mode umask flags fh s =
     (case create_open os (path_make createpath fusepath) mode umask flags s of (rv, s) \<Rightarrow>
        if rv = - 1 then (- errno s, fh, s)
        else (0, Some \<lparr>fi_fd = rv, fi_fusepath = fusepath\<rparr>, s))"

definition l_create ::
  "'w os \<Rightarrow> Policy \<Rightarrow> Policy \<Rightarrow> Branch list \<Rightarrow> u64 \<Rightarrow> string \<Rightarrow> mode_t \<Rightarrow> mode_t \<Rightarrow> u32 \<Rightarrow> FileInfo option \<Rightarrow> 'w sys \<Rightarrow>
   int \<times> FileInfo option \<times> 'w sys" where
  "l_create os searchFunc createFunc branches minfreespace fusepath mode umask flags fh s =
     (let fusedirpath = dirname fusepath
      in case Func_Base os Cat_search searchFunc branches fusedirpath minfreespace [] s of (rv, existingpaths, s) \<Rightarrow>
         if rv = - 1 then (- errno s, fh, s)
         else case Func_Base os Cat_create createFunc branches fusedirpath minfreespace [] s of (rv, createpaths, s) \<Rightarrow>
           if rv = - 1 then (- errno s, fh, s)
           else case clonepath_as_root os (existingpaths ! 0) (createpaths ! 0) fusedirpath s of (rv, s) \<Rightarrow>
             if rv = - 1 then (- errno s, fh, s)
             else create_core os (createpaths ! 0) fusepath mode umask flags fh s)"

definition FUSE_create ::
  "'w os \<Rightarrow> fuse_context \<Rightarrow> string \<Rightarrow> mode_t \<Rightarrow> fuse_file_info \<Rightarrow> Config \<Rightarrow> 'w sys \<Rightarrow>
   int \<times> fuse_file_info \<times> 'w sys" where
  "FUSE_create os fc fusepath mode ffi cfg s =
     (let s = ugid_Set os (fc_uid fc) (fc_gid fc) s;
          ffi = ffi\<lparr>ffi_direct_io := cf_direct_io cfg\<rparr>
      in case l_create os (cf_policies cfg FF_getattr) (cf_policies cfg FF_create) (cf_branches cfg)
                (cf_minfreespace cfg) fusepath mode (fc_umask fc) (ffi_flags ffi) (ffi_fh ffi) s of
           (rv, fh, s) \<Rightarrow> (rv, ffi\<lparr>ffi_fh := fh\<rparr>, s))"

section \<open>mkdir\<close>

definition mkdir_core :: "'w os \<Rightarrow> string \<Rightarrow> mode_t \<Rightarrow> mode_t \<Rightarrow> 'w sys \<Rightarrow> int \<times> 'w sys" where
  "mkdir_core os fullpath mode umask s =
     (case dir_has_defaults os fullpath s of (acl, s) \<Rightarrow>
        let mode = (if \<not> acl then mode AND NOT umask else mode)
        in fs_mkdir os fullpath mode s)"

definition mkdir_loop_core ::
  "'w os \<Rightarrow> string \<Rightarrow> string \<Rightarrow> mode_t \<Rightarrow> mode_t \<Rightarrow> int \<Rightarrow> 'w sys \<Rightarrow> int \<times> 'w sys" where
  "mkdir_loop_core os createpath fusepath mode umask error s =
     (case mkdir_core os (path_make createpath fusepath) mode umask s of
        (rv, s) \<Rightarrow> (error_calc rv error (errno s), s))"

definition mkdir_loop_body ::
  "'w os \<Rightarrow> string \<Rightarrow> string \<Rightarrow> string \<Rightarrow> mode_t \<Rightarrow> mode_t \<Rightarrow> string \<Rightarrow> int \<Rightarrow> 'w sys \<Rightarrow> int \<times> 'w sys" where
  "mkdir_loop_body os existingpath fusepath fusedirpath mode umask createpath error s =
     (case clonepath_as_root os existingpath createpath fusedirpath s of (rv, s) \<Rightarrow>
        if rv = - 1 then (error_calc rv error (errno s), s)
        else mkdir_loop_core os createpath fusepath mode umask error s)"

definition mkdir_loop ::
  "'w os \<Rightarrow> string \<Rightarrow> string list \<Rightarrow> string \<Rightarrow> string \<Rightarrow> mode_t \<Rightarrow> mode_t \<Rightarrow> 'w sys \<Rightarrow> int \<times> 'w sys" where
  "mkdir_loop os existingpath createpaths fusepath fusedirpath mode umask s =
     (case for_each (mkdir_loop_body os existingpath fusepath fusedirpath mode umask) createpaths (- 1) s of
        (error, s) \<Rightarrow> (- error, s))"

definition l_mkdir ::
  "'w os \<Rightarrow> Policy \<Rightarrow> Policy \<Rightarrow> Branch list \<Rightarrow> u64 \<Rightarrow> string \<Rightarrow> mode_t \<Rightarrow> mode_t \<Rightarrow> 'w sys \<Rightarrow> int \<times> 'w sys" where
  "l_mkdir os searchFunc createFunc branches minfreespace fusepath mode umask s =
     (let fusedirpath = dirname fusepath
      in case Func_Base os Cat_search searchFunc branches fusedirpath minfreespace [] s of (rv, existingpaths, s) \<Rightarrow>
         if rv = - 1 then (- errno s, s)
         else case Func_Base os Cat_create createFunc branches fusedirpath minfreespace [] s of (rv, createpaths, s) \<Rightarrow>
           if rv = - 1 then (- errno s, s)
           else mkdir_loop os (existingpaths ! 0) createpaths fusepath fusedirpath mode umask s)"

definition FUSE_mkdir ::
  "'w os \<Rightarrow> fuse_context \<Rightarrow> string \<Rightarrow> mode_t \<Rightarrow> Config \<Rightarrow> 'w sys \<Rightarrow> int \<times> 'w sys" where
  "FUSE_mkdir os fc fusepath mode cfg s =
     (let s = ugid_Set os (fc_uid fc) (fc_gid fc) s
      in l_mkdir os (cf_policies cfg FF_getattr) (cf_policies cfg FF_mkdir) (cf_branches cfg) (cf_minfreespace cfg)
           fusepath mode (fc_umask fc) s)"

section \<open>mknod\<close>

definition mknod_core :: "'w os \<Rightarrow> string \<Rightarrow> mode_t \<Rightarrow> mode_t \<Rightarrow> u64 \<Rightarrow> 'w sys \<Rightarrow> int \<times> 'w sys" where
  "mknod_core os fullpath mode umask dev s =
     (case dir_has_defaults os fullpath s of (acl, s) \<Rightarrow>
        let mode = (if \<not> acl then mode AND NOT umask else mode)
        in fs_mknod os fullpath mode dev s)"

definition mknod_loop_core ::
  "'w os \<Rightarrow> string \<Rightarrow> string \<Rightarrow> mode_t \<Rightarrow> mode_t \<Rightarrow> u64 \<Rightarrow> int \<Rightarrow> 'w sys \<Rightarrow> int \<times> 'w sys" where
  "mknod_loop_core os createpath fusepath mode umask dev error s =
     (case mknod_core os (path_make createpath fusepath) mode umask dev s of
        (rv, s) \<Rightarrow> (error_calc rv error (errno s), s))"

definition mknod_loop_body ::
  "'w os \<Rightarrow> string \<Rightarrow> string \<Rightarrow> string \<Rightarrow> mode_t \<Rightarrow> mode_t \<Rightarrow> u64 \<Rightarrow> string \<Rightarrow> int \<Rightarrow> 'w sys \<Rightarrow> int \<times> 'w sys" where
  "mknod_loop_body os existingpath fusepath fusedirpath mode umask dev createpath error s =
     (case clonepath_as_root os existingpath createpath fusedirpath s of (rv, s) \<Rightarrow>
        if rv = - 1 then (error_calc rv error (errno s), s)
        else mknod_loop_core os createpath fusepath mode umask dev error s)"

definition mknod_loop ::
  "'w os \<Rightarrow> string \<Rightarrow> string list \<Rightarrow> string \<Rightarrow> string \<Rightarrow> mode_t \<Rightarrow> mode_t \<Rightarrow> u64 \<Rightarrow> 'w sys \<Rightarrow> int \<times> 'w sys" where
  "mknod_loop os existingpath createpaths fusepath fusedirpath mode umask dev s =
     (case for_each (mknod_loop_body os existingpath fusepath fusedirpath mode umask dev) createpaths (- 1) s of
        (error, s) \<Rightarrow> (- error, s))"

definition l_mknod ::
  "'w os \<Rightarrow> Policy \<Rightarrow> Policy \<Rightarrow> Branch list \<Rightarrow> u64 \<Rightarrow> string \<Rightarrow> mode_t \<Rightarrow> mode_t \<Rightarrow> u64 \<Rightarrow> 'w sys \<Rightarrow> int \<times> 'w sys" where
  "l_mknod os searchFunc createFunc branches minfreespace fusepath mode umask dev s =
     (let fusedirpath = dirname fusepath
      in case Func_Base os Cat_search searchFunc branches fusedirpath minfreespace [] s of (rv, existingpaths, s) \<Rightarrow>
         if rv = - 1 then (- errno s, s)
         else case Func_Base os Cat_create createFunc branches fusedirpath minfreespace [] s of (rv, createpaths, s) \<Rightarrow>
           if rv = - 1 then (- errno s, s)
           else mknod_loop os (existingpaths ! 0) createpaths fusepath fusedirpath mode umask dev s)"

definition FUSE_mknod ::
  "'w os \<Rightarrow> fuse_context \<Rightarrow> string \<Rightarrow> mode_t \<Rightarrow> u64 \<Rightarrow> Config \<Rightarrow> 'w sys \<Rightarrow> int \<times> 'w sys" where
  "FUSE_mknod os fc fusepath mode rdev cfg s =
     (let s = ugid_Set os (fc_uid fc) (fc_gid fc) s
      in l_mknod os (cf_policies cfg FF_getattr) (cf_policies cfg FF_mknod) (cf_branches cfg) (cf_minfreespace cfg)
           fusepath mode (fc_umask fc) rdev s)"

section \<open>symlink\<close>

definition symlink_loop_core ::
  "'w os \<Rightarrow> string \<Rightarrow> string \<Rightarrow> string \<Rightarrow> int \<Rightarrow> 'w sys \<Rightarrow> int \<times> 'w sys" where
  "symlink_loop_core os newbasepath oldpath newpath error s =
     (case fs_symlink os oldpath (path_make newbasepath newpath) s of
        (rv, s) \<Rightarrow> (error_calc rv error (errno s), s))"

definition symlink_loop_body ::
  "'w os \<Rightarrow> string \<Rightarrow> string \<Rightarrow> string \<Rightarrow> string \<Rightarrow> string \<Rightarrow> int \<Rightarrow> 'w sys \<Rightarrow> int \<times> 'w sys" where
  "symlink_loop_body os existingpath oldpath newpath newdirpath newbasepath error s =
     (case clonepath_as_root os existingpath newbasepath newdirpath s of (rv, s) \<Rightarrow>
        if rv = - 1 then (error_calc rv error (errno s), s)
        else symlink_loop_core os newbasepath oldpath newpath error s)"

definition symlink_loop ::
  "'w os \<Rightarrow> string \<Rightarrow> string list \<Rightarrow> string \<Rightarrow> string \<Rightarrow> string \<Rightarrow> 'w sys \<Rightarrow> int \<times> 'w sys" where
  "symlink_loop os existingpath newbasepaths oldpath newpath newdirpath s =
     (case for_each (symlink_loop_body os existingpath oldpath newpath newdirpath) newbasepaths (- 1) s of
        (error, s) \<Rightarrow> (- error, s))"

definition l_symlink ::
  "'w os \<Rightarrow> Policy \<Rightarrow> Policy \<Rightarrow> Branch list \<Rightarrow> u64 \<Rightarrow> string \<Rightarrow> string \<Rightarrow> 'w sys \<Rightarrow> int \<times> 'w sys" where
  "l_symlink os searchFunc createFunc branches minfreespace oldpath newpath s =
     (let newdirpath = dirname newpath
      in case Func_Base os Cat_search searchFunc branches newdirpath minfreespace [] s of (rv, existingpaths, s) \<Rightarrow>
         if rv = - 1 then (- errno s, s)
         else case Func_Base os Cat_create createFunc branches newdirpath minfreespace [] s of (rv, newbasepaths, s) \<Rightarrow>
           if rv = - 1 then (- errno s, s)
           else symlink_loop os (existingpaths ! 0) newbasepaths oldpath newpath newdirpath s)"

definition FUSE_symlink ::
  "'w os \<Rightarrow> fuse_context \<Rightarrow> string \<Rightarrow> string \<Rightarrow> Config \<Rightarrow> 'w sys \<Rightarrow> int \<times> 'w sys" where
  "FUSE_symlink os fc oldpath newpath cfg s =
     (let s = ugid_Set os (fc_uid fc) (fc_gid fc) s
      in l_symlink os (cf_policies cfg FF_getattr) (cf_policies cfg FF_symlink) (cf_branches cfg) (cf_minfreespace cfg)
           oldpath newpath s)"

section \<open>The contract of creating on the selected branches\<close>

definition clone_then ::
  "'w os \<Rightarrow> string \<Rightarrow> string \<Rightarrow> (string \<Rightarrow> 'w sys \<Rightarrow> int \<times> 'w sys) \<Rightarrow> string \<Rightarrow> 'w sys \<Rightarrow> int \<times> 'w sys" where
  "clone_then os existing dir op b s =
     (case clonepath_as_root os existing b dir s of (rv, s) \<Rightarrow> if rv = - 1 then (- 1, s) else op b s)"

definition make_spec ::
  "'w os \<Rightarrow> Policy \<Rightarrow> Policy \<Rightarrow> Branch list \<Rightarrow> u64 \<Rightarrow> string \<Rightarrow> (string \<Rightarrow> 'w sys \<Rightarrow> int \<times> 'w sys) \<Rightarrow> 'w sys \<Rightarrow>
   int \<times> 'w sys" where
  "make_spec os search create bs m path op s =
     (case Func_Base os Cat_search search bs (dirname path) m [] s of (rv, existing, s) \<Rightarrow>
      if rv = - 1 then (- errno s, s)
      else case Func_Base os Cat_create create bs (dirname path) m [] s of (rv, chosen, s) \<Rightarrow>
      if rv = - 1 then (- errno s, s)
      else case op_results (clone_then os (existing ! 0) (dirname path) (\<lambda>b. op (path_make b path))) chosen s of
        (es, s) \<Rightarrow> (- merged es, s))"

interpretation mkdir_op: branch_op
  "clone_then os existingpath fusedirpath (\<lambda>b. mkdir_core os (path_make b fusepath) mode umask)"
  "mkdir_loop_body os existingpath fusepath fusedirpath mode umask"
  for os :: "'w os" and existingpath fusepath fusedirpath mode umask
  by unfold_locales (simp add: mkdir_loop_body_def mkdir_loop_core_def clone_then_def split: prod.splits)

interpretation mknod_op: branch_op
  "clone_then os existingpath fusedirpath (\<lambda>b. mknod_core os (path_make b fusepath) mode umask dev)"
  "mknod_loop_body os existingpath fusepath fusedirpath mode umask dev"
  for os :: "'w os" and existingpath fusepath fusedirpath mode umask dev
  by unfold_locales (simp add: mknod_loop_body_def mknod_loop_core_def clone_then_def split: prod.splits)

interpretation symlink_op: branch_op
  "clone_then os existingpath newdirpath (\<lambda>b. fs_symlink os oldpath (path_make b newpath))"
  "symlink_loop_body os existingpath oldpath newpath newdirpath"
  for os :: "'w os" and existingpath oldpath newpath newdirpath
  by unfold_locales (simp add: symlink_loop_body_def symlink_loop_core_def clone_then_def split: prod.splits)

lemma policy_steady: "steady s bs \<Longrightarrow> steady (state_of (policy_func os p T bs' fp m ps s)) bs"
  using policy_frame [of os p T bs' fp m ps s] by (simp add: steady_def view_of_def)

lemma ugid_steady: "steady s bs \<Longrightarrow> steady (ugid_Set os u g s) bs"
  by (simp add: steady_def)

lemma policy_first:
  assumes "steady s bs" "policy_func os p T bs fp m [] s = (rv, ps, t)" "rv \<noteq> - 1"
  shows "\<exists>b \<in> set bs. br_path b = ps ! 0 \<and> eligible os p T fp m s b"
proof -
  have "ps \<noteq> []"
    using policy_outcome [OF assms(1), of os p T fp m] assms(2,3) by (auto simp: outcome_def split: if_splits)
  then show ?thesis
    using policy_eligible [OF assms(1), of "ps ! 0" os p T fp m] assms(2) by simp
qed

section \<open>Properties\<close>

text \<open>
  C21: the handlers that create share one contract. Each finds a branch with the parent directory, lets its create policy choose the
  branches, and on each of them first clones the parent and then creates; it succeeds when one of the branches
  succeeded and otherwise returns the negated error of the last. The search policy is the one of \<^verbatim>\<open>getattr\<close>.
\<close>

theorem create_handlers_meet_contract:
  fixes cfg :: Config and os :: "'w os" and fc :: fuse_context and s :: "'w sys"
  defines "t \<equiv> ugid_Set os (fc_uid fc) (fc_gid fc) s"
    and "spec \<equiv> \<lambda>f. make_spec os (cf_policies cfg FF_getattr) (cf_policies cfg f) (cf_branches cfg) (cf_minfreespace cfg)"
  shows "FUSE_mkdir os fc p mode cfg s = spec FF_mkdir p (\<lambda>q. mkdir_core os q mode (fc_umask fc)) t
    \<and> FUSE_mknod os fc p mode dev cfg s = spec FF_mknod p (\<lambda>q. mknod_core os q mode (fc_umask fc) dev) t
    \<and> FUSE_symlink os fc target p cfg s = spec FF_symlink p (fs_symlink os target) t"
  by (simp add: t_def spec_def FUSE_mkdir_def FUSE_mknod_def FUSE_symlink_def l_mkdir_def l_mknod_def l_symlink_def
      make_spec_def mkdir_loop_def mknod_loop_def symlink_loop_def mkdir_op.loop mknod_op.loop symlink_op.loop
      Let_def case_prod_beta)

text \<open>
  C22: a created file is where the policy put it. When \<^verbatim>\<open>create\<close> hands out a file, it reports success, and the file was opened
  with the caller's flags on a branch of the pool that is neither tagged RO nor NC, is not mounted read-only and has the required
  free space; the umask is applied exactly when the parent directory has no default ACL there.
\<close>

theorem create_opens_on_eligible_branch:
  assumes "steady s (cf_branches cfg)" "ffi_fh ffi = None"
    and "FUSE_create os fc p mode ffi cfg s = (rv, ffi', s')" "ffi_fh ffi' = Some fi"
  defines "t \<equiv> state_of (policy_func os (pol_enum (cf_policies cfg FF_getattr)) Cat_search (cf_branches cfg) (dirname p)
      (cf_minfreespace cfg) [] (ugid_Set os (fc_uid fc) (fc_gid fc) s))"
  shows "rv = 0 \<and> fi_fusepath fi = p
    \<and> (\<exists>b \<in> set (cf_branches cfg). \<exists>w. can_create os (cf_minfreespace cfg) t b
        \<and> (let q = path_make (br_path b) p;
               acl = (\<exists>v. k_lgetxattr os (dirname q) POSIX_ACL_DEFAULT_XATTR 0 w = Inr v)
           in k_open os q (ffi_flags ffi) (if acl then mode else mode AND NOT (fc_umask fc)) w
              = (Inr (fi_fd fi), world s')))"
proof -
  let ?u = "ugid_Set os (fc_uid fc) (fc_gid fc) s" and ?bs = "cf_branches cfg" and ?m = "cf_minfreespace cfg"
  let ?pc = "policy_func os (pol_enum (cf_policies cfg FF_create)) Cat_create ?bs (dirname p) ?m [] t"
  obtain r1 ex t1 where se: "policy_func os (pol_enum (cf_policies cfg FF_getattr)) Cat_search ?bs (dirname p) ?m [] ?u = (r1, ex, t1)"
    by (metis prod_cases3)
  obtain r2 ch t2 where cr: "?pc = (r2, ch, t2)" by (metis prod_cases3)
  obtain r3 t3 where cl: "clonepath_as_root os (ex ! 0) (ch ! 0) (dirname p) t2 = (r3, t3)" by fastforce
  have t: "t = t1" using se by (simp add: t_def)
  have r: "r1 \<noteq> - 1" "r2 \<noteq> - 1" "r3 \<noteq> - 1"
    and co: "create_core os (ch ! 0) p mode (fc_umask fc) (ffi_flags ffi) None t3 = (rv, Some fi, s')"
    using assms(2-4) se cr cl
    by (auto simp: FUSE_create_def l_create_def Func_Base_def Let_def t split: prod.splits if_splits)
  have "steady t ?bs" unfolding t_def by (intro policy_steady ugid_steady assms(1))
  then obtain b where b: "b \<in> set ?bs" "br_path b = ch ! 0" "can_create os ?m t b"
    using policy_first [OF _ cr r(2)] by (auto simp: eligible_def)
  have "rv = 0 \<and> fi_fusepath fi = p \<and>
    (let q = path_make (br_path b) p;
         acl = (\<exists>v. k_lgetxattr os (dirname q) POSIX_ACL_DEFAULT_XATTR 0 (world t3) = Inr v)
     in k_open os q (ffi_flags ffi) (if acl then mode else mode AND NOT (fc_umask fc)) (world t3) = (Inr (fi_fd fi), world s'))"
    using co
    by (auto simp: create_core_def create_open_def dir_has_defaults_def fs_lgetxattr_def fs_open_def sys_val_def
        sys_fd_def Let_def b(2) split: prod.splits sum.splits if_splits)
  then show ?thesis using b by blast
qed

definition sample_ffi :: fuse_file_info where
  "sample_ffi = \<lparr>ffi_flags = 0x41, ffi_fh = None, ffi_direct_io = False, ffi_keep_cache = False\<rparr>"

definition sample_create :: "int \<times> fuse_file_info \<times> sample_world sys" where
  "sample_create = FUSE_create sample_os sample_root ''/d/x'' 0x1A4 sample_ffi
     (sample_config two_branches (\<lambda>f. sample_policy (if f = FF_create then Pol_mfs else Pol_ff)))
     (sample_sys [''/a/d''])"

theorem create_opens_on_eligible_branch_witness:
  "fst sample_create = 0
   \<and> ffi_fh (fst (snd sample_create)) = Some \<lparr>fi_fd = 3, fi_fusepath = ''/d/x''\<rparr>
   \<and> (\<exists>b \<in> set two_branches. \<exists>w m. k_open sample_os (path_make (br_path b) ''/d/x'') 0x41 m w = (Inr 3, world (snd (snd sample_create))))"
proof -
  let ?cfg = "sample_config two_branches (\<lambda>f. sample_policy (if f = FF_create then Pol_mfs else Pol_ff))"
  let ?s = "sample_sys [''/a/d'']"
  have fh: "ffi_fh (fst (snd sample_create)) = Some \<lparr>fi_fd = 3, fi_fusepath = ''/d/x''\<rparr>"
    by code_simp
  have r: "FUSE_create sample_os sample_root ''/d/x'' 0x1A4 sample_ffi ?cfg ?s =
    (fst sample_create, fst (snd sample_create), snd (snd sample_create))"
    by (simp add: sample_create_def)
  have none: "ffi_fh sample_ffi = None" and flags: "ffi_flags sample_ffi = 0x41" and bs: "cf_branches ?cfg = two_branches"
    by (simp_all add: sample_ffi_def sample_config_def)
  show ?thesis
    using create_opens_on_eligible_branch [OF steady_sample none r fh] fh unfolding flags bs Let_def
    by (simp only: FileInfo.select_convs) blast
qed

end
