(* ===== verification/Renames.thy ===== *)
theory Renames
  imports Creates
begin

text \<open>
  The handlers with two paths, \<^verbatim>\<open>fuse_link.cpp\<close> and \<^verbatim>\<open>fuse_rename.cpp\<close>. With a path-preserving create policy the new
  name must be on the branch of the old one; otherwise the directory of the new name is cloned to every branch that
  has the old one. A rename collects what it makes stale, the old name where it failed and the new name on every other
  branch, and removes it when at least one rename succeeded.
\<close>

section \<open>link\<close>

definition link_create_path_core ::
  "'w os \<Rightarrow> string \<Rightarrow> string \<Rightarrow> string \<Rightarrow> string \<Rightarrow> int \<Rightarrow> 'w sys \<Rightarrow> int \<times> 'w sys" where
  "link_create_path_core os oldbasepath newbasepath oldfusepath newfusepath error s =
     (let oldfullpath = path_make oldbasepath oldfusepath;
          newfullpath = path_make oldbasepath newfusepath
      in case fs_link os oldfullpath newfullpath s of
           (rv, s) \<Rightarrow> (error_calc rv error (errno s), s))"

definition link_create_path_body ::
  "'w os \<Rightarrow> string \<Rightarrow> string \<Rightarrow> string \<Rightarrow> string \<Rightarrow> string \<Rightarrow> int \<Rightarrow> 'w sys \<Rightarrow> int \<times> 'w sys" where
  "link_create_path_body os newbasepath oldfusepath newfusepath newfusedirpath oldbasepath error s =
     (case clonepath_as_root os newbasepath oldbasepath newfusedirpath s of (rv, s) \<Rightarrow>
        if rv = - 1 then (error_calc rv error (errno s), s)
        else link_create_path_core os oldbasepath newbasepath oldfusepath newfusepath error s)"

definition link_create_path_loop ::
  "'w os \<Rightarrow> string list \<Rightarrow> string \<Rightarrow> string \<Rightarrow> string \<Rightarrow> string \<Rightarrow> 'w sys \<Rightarrow> int \<times> 'w sys" where
  "link_create_path_loop os oldbasepaths newbasepath oldfusepath newfusepath newfusedirpath s =
     (case for_each (link_create_path_body os newbasepath oldfusepath newfusepath newfusedirpath) oldbasepaths (- 1) s of
        (error, s) \<Rightarrow> (- error, s))"

definition link_create_path ::
  "'w os \<Rightarrow> Policy \<Rightarrow> Policy \<Rightarrow> Branch list \<Rightarrow> u64 \<Rightarrow> string \<Rightarrow> string \<Rightarrow> 'w sys \<Rightarrow> int \<times> 'w sys" where
  "link_create_path os searchFunc actionFunc branches minfreespace oldfusepath newfusepath s =
     (case Func_Base os Cat_action actionFunc branches oldfusepath minfreespace [] s of (rv, oldbasepaths, s) \<Rightarrow>
      if rv = - 1 then (- errno s, s)
      else
        let newfusedirpath = dirname newfusepath
        in case Func_Base os Cat_search searchFunc branches newfusedirpath minfreespace [] s of (rv, newbasepaths, s) \<Rightarrow>
           if rv = - 1 then (- errno s, s)
           else link_create_path_loop os oldbasepaths (newbasepaths ! 0) oldfusepath newfusepath newfusedirpath s)"

text \<open>The second policy is handed the vector that holds the answer of the first.\<close>

definition clonepath_if_would_create ::
  "'w os \<Rightarrow> Policy \<Rightarrow> Policy \<Rightarrow> Branch list \<Rightarrow> u64 \<Rightarrow> string \<Rightarrow> string \<Rightarrow> string \<Rightarrow> 'w sys \<Rightarrow> int \<times> 'w sys" where
  "clonepath_if_would_create os searchFunc createFunc branches minfreespace oldbasepath oldfusepath newfusepath s =
     (let newfusedirpath = dirname newfusepath
      in case Func_Base os Cat_create createFunc branches newfusedirpath minfreespace [] s of (rv, newbasepath, s) \<Rightarrow>
         if rv = - 1 then (- 1, s)
         else if oldbasepath \<noteq> newbasepath ! 0 then fail_with EXDEV s
         else case Func_Base os Cat_search searchFunc branches newfusedirpath minfreespace newbasepath s of
                (rv, newbasepath, s) \<Rightarrow>
           if rv = - 1 then (- 1, s)
           else clonepath_as_root os (newbasepath ! 0) oldbasepath newfusedirpath s)"

definition link_preserve_path_core ::
  "'w os \<Rightarrow> Policy \<Rightarrow> Policy \<Rightarrow> Branch list \<Rightarrow> u64 \<Rightarrow> string \<Rightarrow> string \<Rightarrow> string \<Rightarrow> int \<Rightarrow> 'w sys \<Rightarrow> int \<times> 'w sys" where
  "link_preserve_path_core os searchFunc createFunc branches minfreespace oldfusepath newfusepath oldbasepath error s =
     (let oldfullpath = path_make oldbasepath oldfusepath;
          newfullpath = path_make oldbasepath newfusepath
      in case fs_link os oldfullpath newfullpath s of (rv, s) \<Rightarrow>
         case (if rv = - 1 \<and> errno s = ENOENT
               then (case clonepath_if_would_create os searchFunc createFunc branches minfreespace
                            oldbasepath oldfusepath newfusepath s of (rv, s) \<Rightarrow>
                       if rv \<noteq> - 1 then fs_link os oldfullpath newfullpath s else (rv, s))
               else (rv, s)) of (rv, s) \<Rightarrow>
           (error_calc rv error (errno s), s))"

definition link_preserve_path_loop ::
  "'w os \<Rightarrow> Policy \<Rightarrow> Policy \<Rightarrow> Branch list \<Rightarrow> u64 \<Rightarrow> string \<Rightarrow> string \<Rightarrow> string list \<Rightarrow> 'w sys \<Rightarrow> int \<times> 'w sys" where
  "link_preserve_path_loop os searchFunc createFunc branches minfreespace oldfusepath newfusepath oldbasepaths s =
     (case for_each (link_preserve_path_core os searchFunc createFunc branches minfreespace oldfusepath newfusepath)
             oldbasepaths (- 1) s of
        (error, s) \<Rightarrow> (- error, s))"

definition link_preserve_path ::
  "'w os \<Rightarrow> Policy \<Rightarrow> Policy \<Rightarrow> Policy \<Rightarrow> Branch list \<Rightarrow> u64 \<Rightarrow> string \<Rightarrow> string \<Rightarrow> 'w sys \<Rightarrow> int \<times> 'w sys" where
  "link_preserve_path os searchFunc actionFunc createFunc branches minfreespace oldfusepath newfusepath s =
     (case Func_Base os Cat_action actionFunc branches oldfusepath minfreespace [] s of (rv, oldbasepaths, s) \<Rightarrow>
      if rv = - 1 then (- errno s, s)
      else link_preserve_path_loop os searchFunc createFunc branches minfreespace oldfusepath newfusepath oldbasepaths s)"

text \<open>
  In the second case the call passes \<^verbatim>\<open>config.link\<close> where the search policy is expected and \<^verbatim>\<open>config.create\<close> where the
  action policy is.
\<close>

definition FUSE_link ::
  "'w os \<Rightarrow> fuse_context \<Rightarrow> string \<Rightarrow> string \<Rightarrow> Config \<Rightarrow> 'w sys \<Rightarrow> int \<times> 'w sys" where
  "FUSE_link os fc from to cfg s =
     (let s = ugid_Set os (fc_uid fc) (fc_gid fc) s
      in if path_preserving (cf_policies cfg FF_create) \<and> \<not> cf_ignorepponrename cfg
         then link_preserve_path os (cf_policies cfg FF_getattr) (cf_policies cfg FF_link) (cf_policies cfg FF_create)
                (cf_branches cfg) (cf_minfreespace cfg) from to s
         else link_create_path os (cf_policies cfg FF_link) (cf_policies cfg FF_create)
                (cf_branches cfg) (cf_minfreespace cfg) from to s)"

section \<open>rename\<close>

definition rn_member :: "string list \<Rightarrow> string \<Rightarrow> bool" where
  "rn_member haystack needle \<longleftrightarrow> list_ex (\<lambda>x. x = needle) haystack"

definition rn_remove :: "'w os \<Rightarrow> string list \<Rightarrow> 'w sys \<Rightarrow> 'w sys" where
  "rn_remove os toremove s = snd (for_each (\<lambda>p (u :: unit) s. (u, snd (fs_remove os p s))) toremove () s)"

definition rename_create_path_core ::
  "'w os \<Rightarrow> string list \<Rightarrow> string \<Rightarrow> string \<Rightarrow> string \<Rightarrow> string \<Rightarrow> string \<Rightarrow> int \<times> string list \<Rightarrow> 'w sys \<Rightarrow>
   (int \<times> string list) \<times> 'w sys" where
  "rename_create_path_core os oldbasepaths newbasepath oldfusepath newfusepath newfusedirpath oldbasepath acc s =
     (case acc of (error, tounlink) \<Rightarrow>
      if rn_member oldbasepaths oldbasepath
      then (case clonepath_as_root os newbasepath oldbasepath newfusedirpath s of (rv, s) \<Rightarrow>
            case (if rv \<noteq> - 1
                  then (let oldfullpath = path_make oldbasepath oldfusepath;
                            newfullpath = path_make oldbasepath newfusepath
                        in case fs_rename os oldfullpath newfullpath s of (rv, s) \<Rightarrow> (rv, oldfullpath, s))
                  else (rv, [], s)) of (rv, oldfullpath, s) \<Rightarrow>
              ((error_calc rv error (errno s), if rv = - 1 then tounlink @ [oldfullpath] else tounlink), s))
      else ((error, tounlink @ [path_make oldbasepath newfusepath]), s))"

definition rename_create_path ::
  "'w os \<Rightarrow> Policy \<Rightarrow> Policy \<Rightarrow> Branch list \<Rightarrow> u64 \<Rightarrow> string \<Rightarrow> string \<Rightarrow> 'w sys \<Rightarrow> int \<times> 'w sys" where
  "rename_create_path os searchFunc actionFunc branches minfreespace oldfusepath newfusepath s =
     (case Func_Base os Cat_action actionFunc branches oldfusepath minfreespace [] s of (rv, oldbasepaths, s) \<Rightarrow>
      if rv = - 1 then (- errno s, s)
      else
        let newfusedirpath = dirname newfusepath
        in case Func_Base os Cat_search searchFunc branches newfusedirpath minfreespace [] s of (rv, newbasepath, s) \<Rightarrow>
           if rv = - 1 then (- errno s, s)
           else case for_each (\<lambda>b. rename_create_path_core os oldbasepaths (newbasepath ! 0) oldfusepath newfusepath
                                     newfusedirpath (br_path b)) branches (- 1, []) s of
             ((error, toremove), s) \<Rightarrow>
               (- error, if error = 0 then rn_remove os toremove s else s))"

definition rn_clonepath ::
  "'w os \<Rightarrow> Policy \<Rightarrow> Branch list \<Rightarrow> u64 \<Rightarrow> string \<Rightarrow> string \<Rightarrow> 'w sys \<Rightarrow> int \<times> 'w sys" where
  "rn_clonepath os searchFunc branches minfreespace dstbasepath fusedirpath s =
     (case Func_Base os Cat_search searchFunc branches fusedirpath minfreespace [] s of (rv, srcbasepath, s) \<Rightarrow>
      if rv = - 1 then (- errno s, s)
      else (0, snd (clonepath_as_root os (srcbasepath ! 0) dstbasepath fusedirpath s)))"

definition rn_clonepath_if_would_create ::
  "'w os \<Rightarrow> Policy \<Rightarrow> Policy \<Rightarrow> Branch list \<Rightarrow> u64 \<Rightarrow> string \<Rightarrow> string \<Rightarrow> string \<Rightarrow> 'w sys \<Rightarrow> int \<times> 'w sys" where
  "rn_clonepath_if_would_create os searchFunc createFunc branches minfreespace oldbasepath oldfusepath newfusepath s =
     (let newfusedirpath = dirname newfusepath
      in case Func_Base os Cat_create createFunc branches newfusedirpath minfreespace [] s of (rv, newbasepath, s) \<Rightarrow>
         if rv = - 1 then (rv, s)
         else if oldbasepath = newbasepath ! 0
              then rn_clonepath os searchFunc branches minfreespace oldbasepath newfusedirpath s
              else fail_with EXDEV s)"

definition rename_preserve_path_core ::
  "'w os \<Rightarrow> Policy \<Rightarrow> Policy \<Rightarrow> Branch list \<Rightarrow> u64 \<Rightarrow> string list \<Rightarrow> string \<Rightarrow> string \<Rightarrow> string \<Rightarrow> int \<times> string list \<Rightarrow>
   'w sys \<Rightarrow> (int \<times> string list) \<times> 'w sys" where
  "rename_preserve_path_core os searchFunc createFunc branches minfreespace oldbasepaths oldfusepath newfusepath
       oldbasepath acc s =
     (case acc of (error, toremove) \<Rightarrow>
      let newfullpath = path_make oldbasepath newfusepath
      in if rn_member oldbasepaths oldbasepath
         then let oldfullpath = path_make oldbasepath oldfusepath
              in case fs_rename os oldfullpath newfullpath s of (rv, s) \<Rightarrow>
                 case (if rv = - 1 \<and> errno s = ENOENT
                       then (case rn_clonepath_if_would_create os searchFunc createFunc branches minfreespace
                                    oldbasepath oldfusepath newfusepath s of (rv, s) \<Rightarrow>
                               if rv = 0 then fs_rename os oldfullpath newfullpath s else (rv, s))
                       else (rv, s)) of (rv, s) \<Rightarrow>
                   ((error_calc rv error (errno s), if rv = - 1 then toremove @ [oldfullpath] else toremove), s)
         else ((error, toremove @ [newfullpath]), s))"

definition rename_preserve_path ::
  "'w os \<Rightarrow> Policy \<Rightarrow> Policy \<Rightarrow> Policy \<Rightarrow> Branch list \<Rightarrow> u64 \<Rightarrow> string \<Rightarrow> string \<Rightarrow> 'w sys \<Rightarrow> int \<times> 'w sys" where
  "rename_preserve_path os searchFunc actionFunc createFunc branches minfreespace oldfusepath newfusepath s =
     (case Func_Base os Cat_action actionFunc branches oldfusepath minfreespace [] s of (rv, oldbasepaths, s) \<Rightarrow>
      if rv = - 1 then (- errno s, s)
      else case for_each (\<lambda>b. rename_preserve_path_core os searchFunc createFunc branches minfreespace oldbasepaths
                                oldfusepath newfusepath (br_path b)) branches (- 1, []) s of
        ((error, toremove), s) \<Rightarrow>
          (- error, if error = 0 then rn_remove os toremove s else s))"

definition FUSE_rename ::
  "'w os \<Rightarrow> fuse_context \<Rightarrow> string \<Rightarrow> string \<Rightarrow> Config \<Rightarrow> 'w sys \<Rightarrow> int \<times> Config \<times> 'w sys" where
  "FUSE_rename os fc oldpath newpath cfg s =
     (let s = ugid_Set os (fc_uid fc) (fc_gid fc) s;
          cfg = cfg\<lparr>cf_open_cache := PolicyCache_erase oldpath (cf_open_cache cfg)\<rparr>
      in case (if path_preserving (cf_policies cfg FF_create) \<and> \<not> cf_ignorepponrename cfg
               then rename_preserve_path os (cf_policies cfg FF_getattr) (cf_policies cfg FF_rename)
                      (cf_policies cfg FF_create) (cf_branches cfg) (cf_minfreespace cfg) oldpath newpath s
               else rename_create_path os (cf_policies cfg FF_getattr) (cf_policies cfg FF_rename)
                      (cf_branches cfg) (cf_minfreespace cfg) oldpath newpath s) of
           (rv, s) \<Rightarrow> (rv, cfg, s))"

section \<open>Policies that fail say why\<close>

lemma spec_error_pos: "0 < spec_error os p T fp m s bs"
  by (auto simp: spec_error_def worst_error_def split: Category_Type.splits)

lemma policy_fails:
  "steady s bs \<Longrightarrow> policy_func os p T bs fp m [] s = (- 1, ps, t) \<Longrightarrow> 0 < errno t"
  using policy_outcome [of s bs os p T fp m] spec_error_pos [of os p T fp m s bs] by (auto simp: outcome_def split: if_splits)

section \<open>What a rename removes\<close>

lemma rn_remove_world: "world (rn_remove os ps s) = fold (\<lambda>p w. snd (k_remove os p w)) ps (world s)"
  unfolding rn_remove_def
proof (induction ps arbitrary: s)
  case (Cons p ps)
  have "world (snd (fs_remove os p s)) = snd (k_remove os p (world s))"
    by (auto simp: fs_remove_def sys_unit_def split: prod.splits sum.splits)
  then show ?case using Cons by simp
qed simp

lemma rn_member_iff [simp]: "rn_member xs x \<longleftrightarrow> x \<in> set xs"
  by (auto simp: rn_member_def list_ex_iff)

text \<open>A loop that pushes the new name for every branch the action policy has not chosen.\<close>

lemma collects_stale:
  assumes step: "\<And>b e tr s. \<exists>e' tr' s'. f b (e, tr) s = ((e', tr @ tr'), s')"
    and skip: "\<And>b e tr s. br_path b \<notin> set olds \<Longrightarrow> f b (e, tr) s = ((e, tr @ [g b]), s)"
    and run: "for_each f bs (e, tr) s = ((e', tr'), s')"
  shows "set tr \<subseteq> set tr' \<and> (\<forall>b \<in> set bs. br_path b \<notin> set olds \<longrightarrow> g b \<in> set tr')"
  using run
proof (induction bs arbitrary: e tr s)
  case (Cons b bs)
  obtain e1 tr1 s1 where f: "f b (e, tr) s = ((e1, tr @ tr1), s1)" using step by blast
  then have rest: "for_each f bs (e1, tr @ tr1) s1 = ((e', tr'), s')" using Cons.prems by simp
  have "g b \<in> set tr1" if "br_path b \<notin> set olds" using skip [OF that, of e tr s] f by simp
  then show ?case using Cons.IH [OF rest] by auto
qed simp

lemma create_path_step:
  "\<exists>e' tr' s'. rename_create_path_core os olds nb op np nd b (e, tr) s = ((e', tr @ tr'), s')"
  by (auto simp: rename_create_path_core_def Let_def split: prod.splits if_splits)

lemma preserve_path_step:
  "\<exists>e' tr' s'. rename_preserve_path_core os sf cf bs m olds op np b (e, tr) s = ((e', tr @ tr'), s')"
  by (auto simp: rename_preserve_path_core_def Let_def split: prod.splits if_splits)

lemma rename_create_path_removes:
  assumes "steady s bs" "rename_create_path os sf af bs m old new s = (0, s')"
  shows "\<exists>ps w. world s' = fold (\<lambda>p w. snd (k_remove os p w)) ps w
    \<and> (\<forall>b \<in> set bs. br_path b \<notin> set (paths_of (policy_func os (pol_enum af) Cat_action bs old m [] s)) \<longrightarrow>
          path_make (br_path b) new \<in> set ps)"
proof -
  obtain r1 olds t1 where a: "policy_func os (pol_enum af) Cat_action bs old m [] s = (r1, olds, t1)" by (metis prod_cases3)
  have st: "steady t1 bs" using policy_steady [OF assms(1), of os "pol_enum af" Cat_action bs old m "[]"] a by simp
  obtain r2 nb t2 where se: "policy_func os (pol_enum sf) Cat_search bs (dirname new) m [] t1 = (r2, nb, t2)" by (metis prod_cases3)
  have fail: "r1 = - 1 \<Longrightarrow> 0 < errno t1" "r2 = - 1 \<Longrightarrow> 0 < errno t2"
    using policy_fails [OF assms(1)] policy_fails [OF st] a se by blast+
  have r1: "r1 \<noteq> - 1" using assms(2) a fail(1) by (auto simp: rename_create_path_def Func_Base_def)
  moreover have "r2 \<noteq> - 1" using assms(2) a se r1 fail(2) by (auto simp: rename_create_path_def Func_Base_def)
  moreover obtain e ps t3 where l: "for_each (\<lambda>b. rename_create_path_core os olds (nb ! 0) old new (dirname new) (br_path b))
      bs (- 1, []) t2 = ((e, ps), t3)" by (metis prod.collapse)
  ultimately have "e = 0" "s' = rn_remove os ps t3"
    using assms(2) a se by (auto simp: rename_create_path_def Func_Base_def Let_def split: if_splits)
  moreover have "\<forall>b \<in> set bs. br_path b \<notin> set olds \<longrightarrow> path_make (br_path b) new \<in> set ps"
    using collects_stale [OF create_path_step _ l, of olds "\<lambda>b. path_make (br_path b) new"]
    by (simp add: rename_create_path_core_def)
  ultimately show ?thesis using a rn_remove_world by fastforce
qed

lemma rename_preserve_path_removes:
  assumes "steady s bs" "rename_preserve_path os sf af cf bs m old new s = (0, s')"
  shows "\<exists>ps w. world s' = fold (\<lambda>p w. snd (k_remove os p w)) ps w
    \<and> (\<forall>b \<in> set bs. br_path b \<notin> set (paths_of (policy_func os (pol_enum af) Cat_action bs old m [] s)) \<longrightarrow>
          path_make (br_path b) new \<in> set ps)"
proof -
  obtain r1 olds t1 where a: "policy_func os (pol_enum af) Cat_action bs old m [] s = (r1, olds, t1)" by (metis prod_cases3)
  have "r1 = - 1 \<Longrightarrow> 0 < errno t1"
    using policy_fails [OF assms(1)] a by blast
  then have "r1 \<noteq> - 1"
    using assms(2) a by (auto simp: rename_preserve_path_def Func_Base_def)
  moreover obtain e ps t3 where l: "for_each (\<lambda>b. rename_preserve_path_core os sf cf bs m olds old new (br_path b))
      bs (- 1, []) t1 = ((e, ps), t3)" by (metis prod.collapse)
  ultimately have "e = 0" "s' = rn_remove os ps t3"
    using assms(2) a by (auto simp: rename_preserve_path_def Func_Base_def split: if_splits)
  moreover have "\<forall>b \<in> set bs. br_path b \<notin> set olds \<longrightarrow> path_make (br_path b) new \<in> set ps"
    using collects_stale [OF preserve_path_step _ l, of olds "\<lambda>b. path_make (br_path b) new"]
    by (simp add: rename_preserve_path_core_def Let_def)
  ultimately show ?thesis using a rn_remove_world by fastforce
qed

section \<open>A rename that fails\<close>

text \<open>A property that survives cloning and a failing \<^verbatim>\<open>rename(2)\<close>.\<close>

definition kept_by_failing_rename :: "'w os \<Rightarrow> ('w \<Rightarrow> bool) \<Rightarrow> bool" where
  "kept_by_failing_rename os Q \<longleftrightarrow>
     clone_preserves os Q \<and> mkdir_preserves os Q \<and> cred_preserves os Q
     \<and> (\<forall>p q w e w'. k_rename os p q w = (Inl e, w') \<longrightarrow> Q w \<longrightarrow> Q w')"

lemma clonepath_as_root_holds:
  assumes "kept_by_failing_rename os Q" "holds Q s"
  shows "holds Q (snd (clonepath_as_root os src dst rel s))"
  using assms unfolding clonepath_as_root_eq SetRootGuard_def SetRootGuard_end_def kept_by_failing_rename_def
  by (auto simp: case_prod_beta intro!: holds_ugid_Set clonepath_holds)

lemma Func_Base_holds:
  assumes "kept_by_failing_rename os Q" "holds Q s"
  shows "holds Q (state_of (Func_Base os T p bs fp m ps s))"
  using assms by (auto simp: Func_Base_def kept_by_failing_rename_def cred_preserves_def intro!: policy_holds)

lemma failing_rename_holds:
  assumes "kept_by_failing_rename os Q" "fs_rename os p q s = (rv, t)" "rv = - 1" "holds Q s"
  shows "holds Q t"
proof -
  obtain e where "k_rename os p q (world s) = (Inl e, world t)"
    using assms(2,3) by (auto simp: fs_rename_def sys_unit_def split: prod.splits sum.splits)
  then show ?thesis using assms(1,4) by (auto simp: kept_by_failing_rename_def holds_def)
qed

lemma fs_rename_rc: "fs_rename os p q s = (rv, t) \<Longrightarrow> rv = - 1 \<or> rv = 0"
  using sys_unit_rc [of "k_rename os p q (world s)" s] by (auto simp: fs_rename_def is_rc_def)

lemma error_calc_nonzero: "error_calc rv e x \<noteq> 0 \<Longrightarrow> rv = - 1 \<and> e \<noteq> 0"
  by (auto simp: error_calc_def split: if_splits)

lemma create_path_core_holds:
  assumes "kept_by_failing_rename os Q" "fst acc = 0 \<or> holds Q s"
    and "rename_create_path_core os olds nb old new nd b acc s = (acc', s')"
  shows "fst acc' = 0 \<or> holds Q s'"
proof (rule disjCI)
  assume err: "\<not> holds Q s'"
  obtain e tr where acc: "acc = (e, tr)" by fastforce
  obtain r1 t1 where c: "clonepath_as_root os nb b nd s = (r1, t1)" by fastforce
  obtain r2 t2 where r: "fs_rename os (path_make b old) (path_make b new) t1 = (r2, t2)" by fastforce
  have t1: "holds Q s \<Longrightarrow> holds Q t1" using clonepath_as_root_holds [OF assms(1)] c by (metis snd_conv)
  have t2: "r2 = - 1 \<Longrightarrow> holds Q t1 \<Longrightarrow> holds Q t2" using failing_rename_holds [OF assms(1) r] by blast
  show "fst acc' = 0"
    using assms(2,3) err t1 t2 fs_rename_rc [OF r]
    by (auto simp: rename_create_path_core_def acc c r error_calc_def Let_def split: if_splits)
qed

lemma clone_if_would_create_holds:
  assumes "kept_by_failing_rename os Q" "holds Q s"
  shows "holds Q (snd (rn_clonepath_if_would_create os sf cf bs m b old new s))"
  using Func_Base_holds [OF assms(1)] clonepath_as_root_holds [OF assms(1)] assms(2)
  by (simp add: rn_clonepath_if_would_create_def rn_clonepath_def fail_with_def Let_def case_prod_beta)

lemma preserve_path_core_holds:
  assumes "kept_by_failing_rename os Q" "fst acc = 0 \<or> holds Q s"
    and "rename_preserve_path_core os sf cf bs m olds old new b acc s = (acc', s')"
  shows "fst acc' = 0 \<or> holds Q s'"
proof (rule disjCI)
  assume err: "\<not> holds Q s'"
  obtain e tr where acc: "acc = (e, tr)" by fastforce
  obtain r1 t1 where r: "fs_rename os (path_make b old) (path_make b new) s = (r1, t1)" by fastforce
  obtain r2 t2 where c: "rn_clonepath_if_would_create os sf cf bs m b old new t1 = (r2, t2)" by fastforce
  obtain r3 t3 where r': "fs_rename os (path_make b old) (path_make b new) t2 = (r3, t3)" by fastforce
  have t1: "r1 = - 1 \<Longrightarrow> holds Q s \<Longrightarrow> holds Q t1" using failing_rename_holds [OF assms(1) r] by blast
  have t2: "holds Q t1 \<Longrightarrow> holds Q t2" using clone_if_would_create_holds [OF assms(1)] c by (metis snd_conv)
  have t3: "r3 = - 1 \<Longrightarrow> holds Q t2 \<Longrightarrow> holds Q t3" using failing_rename_holds [OF assms(1) r'] by blast
  show "fst acc' = 0"
    using assms(2,3) err t1 t2 t3 fs_rename_rc [OF r] fs_rename_rc [OF r']
    by (auto simp: rename_preserve_path_core_def acc c r r' error_calc_def Let_def split: if_splits)
qed

lemma rename_loop_holds:
  assumes "\<And>b acc s acc' s'. fst acc = 0 \<or> holds Q s \<Longrightarrow> f b acc s = (acc', s') \<Longrightarrow> fst acc' = 0 \<or> holds Q s'"
    and "for_each f bs (- 1, []) s = ((e, tr), t)" "e \<noteq> 0" "holds Q s"
  shows "holds Q t"
  using for_each_inv [of bs "\<lambda>acc s. fst acc = 0 \<or> holds Q s" f "(- 1, [])" s] assms
  by (auto split: prod.splits)

lemma rename_paths_hold:
  assumes "kept_by_failing_rename os Q" "holds Q s"
  shows "rename_create_path os sf af bs m old new s = (rv, s') \<Longrightarrow> rv \<noteq> 0 \<Longrightarrow> holds Q s'"
    and "rename_preserve_path os sf af cf bs m old new s = (rv, s') \<Longrightarrow> rv \<noteq> 0 \<Longrightarrow> holds Q s'"
proof -
  obtain r1 olds t1 where a: "Func_Base os Cat_action af bs old m [] s = (r1, olds, t1)" by (metis prod_cases3)
  obtain r2 nb t2 where se: "Func_Base os Cat_search sf bs (dirname new) m [] t1 = (r2, nb, t2)" by (metis prod_cases3)
  have t1: "holds Q t1" using Func_Base_holds [OF assms, of Cat_action af bs old m "[]"] a by simp
  have t2: "holds Q t2" using Func_Base_holds [OF assms(1) t1, of Cat_search sf bs "dirname new" m "[]"] se by simp
  obtain e tr u where l: "for_each (\<lambda>b. rename_create_path_core os olds (nb ! 0) old new (dirname new) (br_path b))
      bs (- 1, []) t2 = ((e, tr), u)" by (metis prod.collapse)
  obtain e' tr' u' where l': "for_each (\<lambda>b. rename_preserve_path_core os sf cf bs m olds old new (br_path b))
      bs (- 1, []) t1 = ((e', tr'), u')" by (metis prod.collapse)
  have "e \<noteq> 0 \<Longrightarrow> holds Q u" using rename_loop_holds [OF _ l _ t2] create_path_core_holds [OF assms(1)] by blast
  then show "rename_create_path os sf af bs m old new s = (rv, s') \<Longrightarrow> rv \<noteq> 0 \<Longrightarrow> holds Q s'"
    using t1 t2 by (auto simp: rename_create_path_def a se l Let_def split: if_splits)
  have "e' \<noteq> 0 \<Longrightarrow> holds Q u'" using rename_loop_holds [OF _ l' _ t1] preserve_path_core_holds [OF assms(1)] by blast
  then show "rename_preserve_path os sf af cf bs m old new s = (rv, s') \<Longrightarrow> rv \<noteq> 0 \<Longrightarrow> holds Q s'"
    using t1 by (auto simp: rename_preserve_path_def a l' split: if_splits)
qed

section \<open>The vector handed to a search policy\<close>

lemma collect_prefix:
  assumes "for_each (collect_body q) bs (e, ps) s = ((e', ps'), s')"
  shows "\<exists>qs. ps' = ps @ qs"
  using assms
proof (induction bs arbitrary: e ps s)
  case (Cons b bs)
  obtain e1 ps1 s1 where c: "collect_body q b (e, ps) s = ((e1, ps1), s1)" by (metis prod.collapse)
  then have "\<exists>qs. ps1 = ps @ qs" by (auto simp: collect_body_def split: prod.splits sum.splits)
  moreover have "\<exists>qs. ps' = ps1 @ qs" using Cons.IH [of e1 ps1 s1] Cons.prems c by simp
  ultimately show ?case by auto
qed simp

lemma return_prefix:
  "\<exists>qs. paths_of (return_first ps r) = ps @ qs" "\<exists>qs. paths_of (return_best ps r') = ps @ qs"
  by (auto simp: return_first_def return_best_def split: prod.splits sum.splits option.splits)

lemma epall_search_prefix: "\<exists>qs. paths_of (epall_search os bs fp ps s) = ps @ qs"
proof -
  obtain e' ps' s' where c: "for_each (collect_body (at_path os fp any_query)) bs (ENOENT, ps) s = ((e', ps'), s')"
    by (metis prod.collapse)
  then show ?thesis
    using collect_prefix [OF c] by (auto simp: epall_search_def epall_search_loop return_collected_def)
qed

lemma search_prefix:
  "p \<notin> {Pol_rand, Pol_eprand} \<Longrightarrow> \<exists>qs. paths_of (policy_func os p Cat_search bs fp m ps s) = ps @ qs"
  by (cases p; simp add: Func_defs epall_search_prefix epff_search_def epmfs_search_def eplfs_search_def eplus_search_def
      newest_search_def return_prefix case_prod_beta split: sum.split)

section \<open>Properties\<close>

text \<open>
  C23: a rename that fails destroys nothing. When the handler reports an error, every property of the kernel state that survives
  cloning directories, changing credentials and a failing \<^verbatim>\<open>rename(2)\<close> still holds: no file was renamed and none removed.
\<close>

theorem rename_failure_destroys_nothing:
  assumes "kept_by_failing_rename os Q" "Q (world s)"
    and "FUSE_rename os fc old new cfg s = (rv, cfg', s')" "rv \<noteq> 0"
  shows "Q (world s')"
proof -
  have "holds Q (ugid_Set os (fc_uid fc) (fc_gid fc) s)"
    using assms(1,2) holds_ugid_Set by (auto simp: kept_by_failing_rename_def holds_def)
  note kept = rename_paths_hold [OF assms(1) this]
  have "holds Q s'"
    using assms(3,4) kept by (auto simp: FUSE_rename_def Let_def split: prod.splits if_splits)
  then show ?thesis by (simp add: holds_def)
qed

lemma kept_by_failing_rename_sample: "kept_by_failing_rename sample_os (\<lambda>w. p \<in> set w)"
  by (auto simp: kept_by_failing_rename_def clone_preserves_def mkdir_preserves_def cred_preserves_def sample_defs
      split: if_splits)

theorem rename_failure_destroys_nothing_witness:
  "let r = FUSE_rename sample_os sample_root ''/x'' ''/y''
             (sample_config nc_branches (\<lambda>_. sample_policy Pol_all)) (sample_sys [''/a/x'', ''/a/y''])
   in fst r = - EROFS \<and> ''/a/y'' \<in> set (world (snd (snd r)))"
proof -
  let ?r = "FUSE_rename sample_os sample_root ''/x'' ''/y''
             (sample_config nc_branches (\<lambda>_. sample_policy Pol_all)) (sample_sys [''/a/x'', ''/a/y''])"
  have rv: "fst ?r = - EROFS" by code_simp
  have r: "?r = (fst ?r, fst (snd ?r), snd (snd ?r))" by simp
  show ?thesis
    using rename_failure_destroys_nothing [OF kept_by_failing_rename_sample [of "''/a/y''"] _ r] rv
    by (simp add: sample_sys_def Let_def)
qed

text \<open>
  A rename removes the new name from read-only branches. When a rename succeeds, the last thing it does is to remove the new name
  on every branch the action policy did not choose; a branch tagged RO is never chosen, so the file of that name on it is removed,
  although the branch is to be treated as read-only.
\<close>

theorem rename_removes_target_from_readonly:
  assumes "distinct (map br_path (cf_branches cfg))" "b \<in> set (cf_branches cfg)" "ro b"
    and "FUSE_rename os fc old new cfg s = (0, cfg', s')"
  shows "\<exists>ps w. path_make (br_path b) new \<in> set ps \<and> world s' = fold (\<lambda>p w. snd (k_remove os p w)) ps w"
proof -
  let ?t = "ugid_Set os (fc_uid fc) (fc_gid fc) s" and ?bs = "cf_branches cfg"
  have st: "steady ?t ?bs" using assms(1) by (simp add: steady_def)
  have "br_path b \<notin> set (paths_of (policy_func os p Cat_action ?bs old m [] ?t))" for p m
  proof
    assume chosen: "br_path b \<in> set (paths_of (policy_func os p Cat_action ?bs old m [] ?t))"
    obtain c where "c \<in> set ?bs" "br_path c = br_path b" "\<not> ro c"
      using policy_eligible [OF st chosen] by (auto simp: eligible_def can_act_def)
    then show False using assms(1-3) by (metis distinct_map inj_onD)
  qed
  then show ?thesis
    using assms(2,4) rename_create_path_removes [OF st] rename_preserve_path_removes [OF st]
    by (fastforce simp: FUSE_rename_def Let_def split: prod.splits if_splits)
qed

theorem rename_removes_target_from_readonly_witness:
  "let r = FUSE_rename sample_os sample_root ''/x'' ''/y''
             (sample_config nc_branches (\<lambda>_. sample_policy Pol_all)) (sample_sys [''/a'', ''/b'', ''/a/y'', ''/b/x''])
   in fst r = 0 \<and> world (snd (snd r)) = [''/b/y'', ''/a'', ''/b'']
      \<and> (\<exists>ps w. ''/a/y'' \<in> set ps \<and> world (snd (snd r)) = fold (\<lambda>p w. snd (k_remove sample_os p w)) ps w)"
proof -
  let ?cfg = "sample_config nc_branches (\<lambda>_. sample_policy Pol_all)" and ?b = "\<lparr>br_mode = Mode_RO, br_path = ''/a''\<rparr>"
  let ?r = "FUSE_rename sample_os sample_root ''/x'' ''/y'' ?cfg (sample_sys [''/a'', ''/b'', ''/a/y'', ''/b/x''])"
  have rv: "fst ?r = 0" and w: "world (snd (snd ?r)) = [''/b/y'', ''/a'', ''/b'']" by code_simp+
  then have r: "?r = (0, fst (snd ?r), snd (snd ?r))" by (simp add: prod_eq_iff)
  have "distinct (map br_path (cf_branches ?cfg))" "?b \<in> set (cf_branches ?cfg)" "ro ?b"
    by (simp_all add: sample_config_def nc_branches_def ro_def)
  then have "\<exists>ps w. path_make (br_path ?b) ''/y'' \<in> set ps \<and> world (snd (snd ?r)) = fold (\<lambda>p w. snd (k_remove sample_os p w)) ps w"
    using rename_removes_target_from_readonly [OF _ _ _ r] by blast
  then show ?thesis using rv w by (simp add: Let_def path_make_def c_str_def)
qed

text \<open>
  A path-preserving link never makes the directory of the new name. \<^verbatim>\<open>clonepath_if_would_create\<close> asks the search policy
  with the vector that already holds the branch of the link, and clones from the first entry, which is that branch, to itself: it
  leaves the kernel state as it is, and a success it reports has created nothing.
\<close>

theorem link_clones_nothing:
  assumes "pol_enum sf \<notin> {Pol_rand, Pol_eprand}" "pol_enum cf \<notin> {Pol_rand, Pol_eprand}" "steady s bs"
  shows "world (snd (clonepath_if_would_create os sf cf bs m oldbase old new s)) = world s"
proof -
  obtain r1 ps t1 where c: "policy_func os (pol_enum cf) Cat_create bs (dirname new) m [] s = (r1, ps, t1)" by (metis prod_cases3)
  obtain r2 qs t2 where se: "policy_func os (pol_enum sf) Cat_search bs (dirname new) m ps t1 = (r2, qs, t2)" by (metis prod_cases3)
  have w: "world t1 = world s" "world t2 = world t1"
    using policy_world [of "pol_enum cf" os Cat_create bs "dirname new" m "[]" s]
      policy_world [of "pol_enum sf" os Cat_search bs "dirname new" m ps t1] assms c se by simp_all
  have "r1 \<noteq> - 1 \<Longrightarrow> ps \<noteq> []"
    using policy_outcome [OF assms(3), of os "pol_enum cf" Cat_create "dirname new" m] c by (auto simp: outcome_def split: if_splits)
  moreover obtain rs where "qs = ps @ rs" using search_prefix [OF assms(1), of os bs "dirname new" m ps t1] se by auto
  ultimately have "r1 \<noteq> - 1 \<Longrightarrow> qs ! 0 = ps ! 0" by (simp add: nth_append)
  then show ?thesis
    using c se w by (auto simp: clonepath_if_would_create_def Func_Base_def clonepath_as_root_eq fail_with_def Let_def)
qed

theorem link_clones_nothing_witness:
  "world (snd (clonepath_if_would_create sample_os (sample_policy Pol_ff) (sample_policy Pol_mfs) two_branches 0
     ''/b'' ''/x'' ''/d/y'' (sample_sys [''/a/d'', ''/b/x'']))) = [''/a/d'', ''/b/x'']"
  using link_clones_nothing [of "sample_policy Pol_ff" "sample_policy Pol_mfs" "sample_sys [''/a/d'', ''/b/x'']"
      two_branches sample_os 0 "''/b''" "''/x''" "''/d/y''"]
  by (simp add: sample_policy_def sample_sys_def [of "[''/a/d'', ''/b/x'']"] steady_def)

end
