(* ===== verification/File_Copy.thy ===== *)
theory File_Copy
  imports Clonepath_Props
begin

text \<open>
  Copying a file: temporary names (\<^verbatim>\<open>fs_mktemp.cpp\<close>), the data (\<^verbatim>\<open>fs_copyfile.cpp\<close>), data and metadata
  (\<^verbatim>\<open>fs_clonefile.cpp\<close>), and breaking a hard link by copying (\<^verbatim>\<open>fs_cow.cpp\<close>).

  The two copy loops retry on \<^verbatim>\<open>EINTR\<close> and on a write of no bytes, so they need not end: they are
  partial functions, \<open>None\<close> is a call that does not return. A C \<^verbatim>\<open>int\<close> takes the results of type
  \<^verbatim>\<open>size_t\<close> and \<^verbatim>\<open>ssize_t\<close>: \<open>to_int\<close> is that conversion.
\<close>

unbundle bit_operations_syntax

definition to_int :: "int \<Rightarrow> int" where
  "to_int n = sint (word_of_int n :: 32 word)"

section \<open>Temporary names\<close>

definition tmp_char :: "'w os \<Rightarrow> nat \<Rightarrow> string \<Rightarrow> 'w sys \<Rightarrow> string \<times> 'w sys" where
  "tmp_char os i tmp s =
     (case k_rand os (world s) of (r, w) \<Rightarrow> (tmp @ [char_of (65 + r mod 26)], s\<lparr>world := w\<rparr>))"

definition generate_tmp_path :: "'w os \<Rightarrow> string \<Rightarrow> 'w sys \<Rightarrow> string \<times> 'w sys" where
  "generate_tmp_path os base s = for_each (tmp_char os) [0 ..< 6] (base @ ''_'') s"

abbreviation S_IWUSR :: mode_t where "S_IWUSR \<equiv> 0x80"

fun mktemp_loop :: "nat \<Rightarrow> 'w os \<Rightarrow> string \<Rightarrow> u32 \<Rightarrow> 'w sys \<Rightarrow> int \<times> string \<times> 'w sys" where
  "mktemp_loop 0 os base flags s = (- 1, base, s\<lparr>errno := EEXIST\<rparr>)"
| "mktemp_loop (Suc count) os base flags s =
     (case generate_tmp_path os base s of (tmppath, s) \<Rightarrow>
      case fs_open os tmppath flags S_IWUSR s of (fd, s) \<Rightarrow>
        if fd = - 1 \<and> errno s = EEXIST then mktemp_loop count os base flags s
        else if fd \<noteq> - 1 then (fd, tmppath, s)
        else (fd, base, s))"

definition mktemp :: "'w os \<Rightarrow> string \<Rightarrow> u32 \<Rightarrow> 'w sys \<Rightarrow> int \<times> string \<times> 'w sys" where
  "mktemp os base flags s = mktemp_loop 10 os base (flags OR O_EXCL OR O_CREAT) s"

section \<open>The data\<close>

partial_function (option) writen_loop :: "'w os \<Rightarrow> int \<Rightarrow> string \<Rightarrow> 'w sys \<Rightarrow> (bool \<times> 'w sys) option" where
  "writen_loop os fd buf s =
     (case fs_write os fd buf s of
        (None, s) \<Rightarrow>
          if errno s = EINTR then (if buf \<noteq> [] then writen_loop os fd buf s else Some (True, s))
          else Some (False, s)
      | (Some n, s) \<Rightarrow>
          if drop n buf \<noteq> [] then writen_loop os fd (drop n buf) s else Some (True, s))"

definition writen :: "'w os \<Rightarrow> int \<Rightarrow> string \<Rightarrow> 'w sys \<Rightarrow> (int \<times> 'w sys) option" where
  "writen os fd buf s =
     (case writen_loop os fd buf s of
        None \<Rightarrow> None
      | Some (ok, s) \<Rightarrow> Some (if ok then to_int (int (length buf)) else - 1, s))"

partial_function (option) copyfile_loop ::
  "'w os \<Rightarrow> int \<Rightarrow> int \<Rightarrow> u64 \<Rightarrow> nat \<Rightarrow> u64 \<Rightarrow> 'w sys \<Rightarrow> (int \<times> 'w sys) option" where
  "copyfile_loop os src_fd dst_fd count bufsize totalwritten s =
     (if totalwritten < count
      then (case fs_read os src_fd bufsize s of
              (None, s) \<Rightarrow>
                if errno s = EINTR then copyfile_loop os src_fd dst_fd count bufsize totalwritten s
                else Some (- 1, s)
            | (Some buf, s) \<Rightarrow>
                if buf = [] then Some (to_int (uint totalwritten), s)
                else (case writen os dst_fd buf s of
                        None \<Rightarrow> None
                      | Some (nw, s) \<Rightarrow>
                          if nw = - 1 then Some (- 1, s)
                          else copyfile_loop os src_fd dst_fd count bufsize (totalwritten + word_of_int nw) s))
      else Some (to_int (uint totalwritten), s))"

definition copyfile_count :: "'w os \<Rightarrow> int \<Rightarrow> int \<Rightarrow> u64 \<Rightarrow> u64 \<Rightarrow> 'w sys \<Rightarrow> (int \<times> 'w sys) option" where
  "copyfile_count os src_fd dst_fd count blocksize s =
     (let bufsize = unat (blocksize * 16);
          s = snd (fs_lseek_start os src_fd s)
      in copyfile_loop os src_fd dst_fd count bufsize 0 s)"

definition copyfile :: "'w os \<Rightarrow> int \<Rightarrow> int \<Rightarrow> 'w sys \<Rightarrow> (int \<times> 'w sys) option" where
  "copyfile os src_fd dst_fd s =
     (case fs_fstat os src_fd s of
        (None, s) \<Rightarrow> Some (- 1, s)
      | (Some st, s) \<Rightarrow> copyfile_count os src_fd dst_fd (st_size st) (st_blksize st) s)"

abbreviation POSIX_FADV_SEQUENTIAL :: nat where "POSIX_FADV_SEQUENTIAL \<equiv> 2"
abbreviation POSIX_FADV_WILLNEED :: nat where "POSIX_FADV_WILLNEED \<equiv> 3"
abbreviation POSIX_FADV_DONTNEED :: nat where "POSIX_FADV_DONTNEED \<equiv> 4"

definition copydata :: "'w os \<Rightarrow> int \<Rightarrow> int \<Rightarrow> u64 \<Rightarrow> 'w sys \<Rightarrow> (int \<times> 'w sys) option" where
  "copydata os src_fd dst_fd count s =
     (let s = snd (fs_fadvise os src_fd 0 count POSIX_FADV_WILLNEED s);
          s = snd (fs_fadvise os src_fd 0 count POSIX_FADV_SEQUENTIAL s);
          s = snd (fs_fallocate os dst_fd 0 0 count s);
          s = snd (fs_ftruncate os dst_fd count s)
      in case fs_ficlone os src_fd dst_fd s of (rv, s) \<Rightarrow>
         if rv \<noteq> - 1 \<or> rv = - 1 \<and> errno s \<noteq> EOPNOTSUPP then Some (rv, s)
         else case fs_copy_file_range os src_fd dst_fd count s of (n, s) \<Rightarrow>
         let rv = to_int n
         in if rv \<noteq> - 1 \<or> rv = - 1 \<and> errno s \<noteq> EOPNOTSUPP then Some (rv, s)
         else case fs_sendfile os src_fd dst_fd count s of (n, s) \<Rightarrow>
         let rv = to_int n
         in if rv \<noteq> - 1 \<or> rv = - 1 \<and> errno s \<noteq> EINVAL \<and> errno s \<noteq> ENOSYS then Some (rv, s)
         else copyfile os src_fd dst_fd s)"

section \<open>Data and metadata\<close>

definition clone_fd_metadata :: "'w os \<Rightarrow> int \<Rightarrow> int \<Rightarrow> stat \<Rightarrow> 'w sys \<Rightarrow> int \<times> 'w sys" where
  "clone_fd_metadata os src_fd dst_fd src_st s =
     (case attr_copy_fd os src_fd dst_fd s of (rv, s) \<Rightarrow>
      if rv = - 1 \<and> \<not> ignorable_error (errno s) then (- 1, s)
      else case xattr_copy_fd os src_fd dst_fd s of (rv, s) \<Rightarrow>
      if rv = - 1 \<and> \<not> ignorable_error (errno s) then (- 1, s)
      else case fchown_check_on_error os dst_fd src_st s of (rv, s) \<Rightarrow>
      if rv = - 1 then (- 1, s)
      else case fchmod_check_on_error os dst_fd src_st s of (rv, s) \<Rightarrow>
      if rv = - 1 then (- 1, s)
      else case fs_futime os dst_fd src_st s of (rv, s) \<Rightarrow>
      if rv = - 1 then (- 1, s)
      else (0, s))"

definition clonefile :: "'w os \<Rightarrow> int \<Rightarrow> int \<Rightarrow> 'w sys \<Rightarrow> (int \<times> 'w sys) option" where
  "clonefile os src_fd dst_fd s =
     (case fs_fstat os src_fd s of
        (None, s) \<Rightarrow> Some (- 1, s)
      | (Some src_st, s) \<Rightarrow>
          (case copydata os src_fd dst_fd (st_size src_st) s of
             None \<Rightarrow> None
           | Some (rv, s) \<Rightarrow>
               if rv = - 1 then Some (- 1, s)
               else Some (clone_fd_metadata os src_fd dst_fd src_st s)))"

section \<open>Breaking a hard link\<close>

definition cleanup_on_error :: "'w os \<Rightarrow> int \<Rightarrow> int \<Rightarrow> string \<Rightarrow> 'w sys \<Rightarrow> int \<times> 'w sys" where
  "cleanup_on_error os src_fd dst_fd dst_fullpath s =
     (let error = errno s;
          s = (if src_fd \<ge> 0 then snd (fs_close os src_fd s) else s);
          s = (if dst_fd \<ge> 0 then snd (fs_close os dst_fd s) else s);
          s = (if dst_fullpath \<noteq> [] then snd (fs_unlink os dst_fullpath s) else s)
      in (- 1, s\<lparr>errno := error\<rparr>))"

definition is_eligible_flags :: "u32 \<Rightarrow> bool" where
  "is_eligible_flags flags \<longleftrightarrow> flags AND O_RDWR \<noteq> 0 \<or> flags AND O_WRONLY \<noteq> 0"

definition is_eligible_stat :: "stat \<Rightarrow> bool" where
  "is_eligible_stat st \<longleftrightarrow> S_ISREG (st_mode st) \<and> st_nlink st > 1"

definition cow_is_eligible :: "'w os \<Rightarrow> string \<Rightarrow> u32 \<Rightarrow> 'w sys \<Rightarrow> bool \<times> 'w sys" where
  "cow_is_eligible os fullpath flags s =
     (if \<not> is_eligible_flags flags then (False, s)
      else (case fs_lstat os fullpath s of
              (None, s) \<Rightarrow> (False, s)
            | (Some st, s) \<Rightarrow> (is_eligible_stat st, s)))"

definition break_link :: "'w os \<Rightarrow> string \<Rightarrow> 'w sys \<Rightarrow> (int \<times> 'w sys) option" where
  "break_link os src_fullpath s =
     (case fs_open os src_fullpath (O_RDONLY OR O_NOFOLLOW) 0 s of (src_fd, s) \<Rightarrow>
      if src_fd = - 1 then Some (- 1, s)
      else case mktemp os src_fullpath O_WRONLY s of (dst_fd, dst_fullpath, s) \<Rightarrow>
      if dst_fd = - 1 then Some (cleanup_on_error os src_fd (- 1) [] s)
      else case clonefile os src_fd dst_fd s of
        None \<Rightarrow> None
      | Some (rv, s) \<Rightarrow>
          if rv = - 1 then Some (cleanup_on_error os src_fd dst_fd dst_fullpath s)
          else case fs_rename os dst_fullpath src_fullpath s of (rv, s) \<Rightarrow>
          if rv = - 1 then Some (cleanup_on_error os src_fd dst_fd dst_fullpath s)
          else Some (0, snd (fs_close os dst_fd (snd (fs_close os src_fd s)))))"

section \<open>Copying ends and copies everything\<close>

text \<open>
  A source and a destination that behave: \<open>rest\<close> is what is left to read, \<open>content\<close> what has been
  written. A read or write moves at least one byte when there is one to move, and no more than it was asked to.
\<close>

definition copy_laws :: "'w os \<Rightarrow> int \<Rightarrow> int \<Rightarrow> ('w \<Rightarrow> string) \<Rightarrow> ('w \<Rightarrow> string) \<Rightarrow> bool" where
  "copy_laws os src dst rest content \<longleftrightarrow>
     (\<forall>n w. 0 < n \<longrightarrow> (\<exists>m w'. k_read os src n w = (Inr (take m (rest w)), w') \<and> m \<le> n \<and> (rest w \<noteq> [] \<longrightarrow> 0 < m)
        \<and> rest w' = drop m (rest w) \<and> content w' = content w))
     \<and> (\<forall>buf w. buf \<noteq> [] \<longrightarrow> (\<exists>k w'. k_write os dst buf w = (Inr k, w') \<and> 0 < k \<and> k \<le> length buf
        \<and> content w' = content w @ take k buf \<and> rest w' = rest w))"

lemma copy_lawsD:
  assumes "copy_laws os src dst rest content"
  shows "0 < n \<Longrightarrow> \<exists>m w'. k_read os src n w = (Inr (take m (rest w)), w') \<and> m \<le> n \<and> (rest w \<noteq> [] \<longrightarrow> 0 < m)
      \<and> rest w' = drop m (rest w) \<and> content w' = content w"
    and "buf \<noteq> [] \<Longrightarrow> \<exists>k w'. k_write os dst buf w = (Inr k, w') \<and> 0 < k \<and> k \<le> length buf
      \<and> content w' = content w @ take k buf \<and> rest w' = rest w"
  using assms unfolding copy_laws_def by blast+

lemma writen_loop_writes:
  assumes "copy_laws os src dst rest content"
  shows "buf \<noteq> [] \<Longrightarrow> \<exists>s'. writen_loop os dst buf s = Some (True, s')
    \<and> content (world s') = content (world s) @ buf \<and> rest (world s') = rest (world s)"
proof (induction "length buf" arbitrary: buf s rule: less_induct)
  case less
  obtain k w where k: "k_write os dst buf (world s) = (Inr k, w)" "0 < k" "k \<le> length buf"
      "content w = content (world s) @ take k buf" "rest w = rest (world s)"
    using copy_lawsD(2) [OF assms less.prems, of "world s"] by blast
  have wr: "fs_write os dst buf s = (Some k, s\<lparr>world := w\<rparr>)"
    using k(1) by (simp add: fs_write_def sys_ret_def)
  show ?case
  proof (cases "drop k buf = []")
    case True
    then have "take k buf = buf" by simp
    then show ?thesis
      using k(4,5) True by (subst writen_loop.simps) (simp add: wr)
  next
    case False
    have "length (drop k buf) < length buf" using k(2) less.prems by simp
    then obtain s' where "writen_loop os dst (drop k buf) (s\<lparr>world := w\<rparr>) = Some (True, s')"
        "content (world s') = content w @ drop k buf" "rest (world s') = rest w"
      using less.hyps [OF _ False, of "s\<lparr>world := w\<rparr>"] by auto
    then show ?thesis
      using k(4,5) False by (subst writen_loop.simps) (simp add: wr)
  qed
qed

lemma to_int_small: "n < 2 ^ 31 \<Longrightarrow> to_int (int n) = int n"
  unfolding to_int_def int_word_sint by simp

lemma writen_writes:
  assumes "copy_laws os src dst rest content" "buf \<noteq> []" "length buf < 2 ^ 31"
  shows "\<exists>s'. writen os dst buf s = Some (int (length buf), s')
    \<and> content (world s') = content (world s) @ buf \<and> rest (world s') = rest (world s)"
  using writen_loop_writes [OF assms(1,2), of s] to_int_small [OF assms(3)] by (auto simp: writen_def)

lemma copyfile_loop_copies:
  assumes "copy_laws os src dst rest content" "0 < bufsize" "count < 2 ^ 31"
  shows "done + length (rest (world s)) = count \<Longrightarrow>
    \<exists>s'. copyfile_loop os src dst (of_nat count) bufsize (of_nat done) s = Some (int count, s')
      \<and> content (world s') = content (world s) @ rest (world s)"
proof (induction "length (rest (world s))" arbitrary: "done" s rule: less_induct)
  case less
  have small: "unat (of_nat count :: u64) = count" "unat (of_nat done :: u64) = done"
    using assms(3) less.prems by (simp_all add: unat_of_nat)
  have full: "to_int (uint (of_nat count :: u64)) = int count"
    using to_int_small [OF assms(3)] small(1) by (metis uint_nat)
  show ?case
  proof (cases "rest (world s) = []")
    case True
    then show ?thesis
      using less.prems full by (subst copyfile_loop.simps) simp
  next
    case False
    obtain m w where r: "k_read os src bufsize (world s) = (Inr (take m (rest (world s))), w)" "0 < m"
        "rest w = drop m (rest (world s))" "content w = content (world s)"
      using copy_lawsD(1) [OF assms(1,2), of "world s"] False by blast
    let ?buf = "take m (rest (world s))"
    have rd: "fs_read os src bufsize s = (Some ?buf, s\<lparr>world := w\<rparr>)"
      using r(1) by (simp add: fs_read_def sys_ret_def)
    have "?buf \<noteq> []" "length ?buf < 2 ^ 31"
      using False r(2) assms(3) less.prems by simp_all
    then obtain t where t: "writen os dst ?buf (s\<lparr>world := w\<rparr>) = Some (int (length ?buf), t)"
        "content (world t) = content w @ ?buf" "rest (world t) = rest w"
      using writen_writes [OF assms(1), of ?buf "s\<lparr>world := w\<rparr>"] by auto
    have shorter: "length (rest (world t)) < length (rest (world s))"
      using t(3) r(2,3) False by simp
    have sum: "done + length ?buf + length (rest (world t)) = count"
      using t(3) r(3) less.prems by auto
    have "done < count" using less.prems False by auto
    then have less_count: "(of_nat done :: u64) < of_nat count"
      using small by (simp add: word_less_nat_alt)
    obtain s' where "copyfile_loop os src dst (of_nat count) bufsize (of_nat (done + length ?buf)) t = Some (int count, s')"
        "content (world s') = content (world t) @ rest (world t)"
      using less.hyps [OF shorter sum] by blast
    then show ?thesis
      using False t r(2-4) less_count
      by (subst copyfile_loop.simps) (simp add: rd del: of_nat_add, simp add: add.commute)
  qed
qed

section \<open>Properties\<close>

text \<open>
  C24: the fallback copy ends and is complete. For a source and a destination that move at least one byte per call and fewer
  than 2 GiB to copy, the copy loop returns, it returns the number of bytes of the source, and the destination has
  received all of them in order.
\<close>

theorem copyfile_copies_everything:
  assumes "copy_laws os src dst rest content"
    and "\<forall>w. \<exists>w'. k_lseek_start os src w = (Inr (), w') \<and> rest w' = whole w \<and> content w' = content w"
    and "0 < unat (blocksize * 16)" "length (whole (world s)) < 2 ^ 31"
  shows "\<exists>s'. copyfile_count os src dst (of_nat (length (whole (world s)))) blocksize s
      = Some (int (length (whole (world s))), s')
    \<and> content (world s') = content (world s) @ whole (world s)"
proof -
  obtain w where w: "k_lseek_start os src (world s) = (Inr (), w)" "rest w = whole (world s)" "content w = content (world s)"
    using assms(2) by blast
  have s: "snd (fs_lseek_start os src s) = s\<lparr>world := w\<rparr>"
    using w(1) by (simp add: fs_lseek_start_def sys_unit_def)
  show ?thesis
    using copyfile_loop_copies [OF assms(1,3,4), of 0 "s\<lparr>world := w\<rparr>"] w(2,3)
    by (simp add: copyfile_count_def s)
qed

text \<open>A kernel with two descriptors, over the pair of what is left to read and what was written, one byte per call.\<close>

definition pipe_os :: "(string \<times> string) os" where
  "pipe_os = \<lparr>
     k_time = (\<lambda>w. 0), k_rand = (\<lambda>w. (0, w)), k_glob = (\<lambda>p w. []), k_realpath = (\<lambda>p w. None),
     k_fnmatch = (\<lambda>p x. False),
     k_lstat = (\<lambda>p w. Inl ENOENT), k_stat = (\<lambda>p w. Inl ENOENT), k_fstat = (\<lambda>fd w. Inr ((sample_stat 5)\<lparr>st_size := 100\<rparr>)),
     k_statvfs = (\<lambda>p w. Inl ENOENT), k_fstatvfs = (\<lambda>fd w. Inl ENOENT),
     k_faccessat = (\<lambda>p m w. Inl ENOENT), k_readlink = (\<lambda>p n w. Inl EINVAL),
     k_lgetxattr = (\<lambda>p a n w. Inl ENODATA), k_llistxattr = (\<lambda>p n w. Inr []),
     k_readdir = (\<lambda>p w. Inl ENOENT), k_getfl = (\<lambda>fd w. Inr 0), k_geteuid = (\<lambda>w. 0), k_getegid = (\<lambda>w. 0),
     k_getgrouplist = (\<lambda>u g w. Some [g]),
     k_open = (\<lambda>p f m w. (Inl ENOENT, w)), k_close = (\<lambda>fd w. (Inr (), w)),
     k_mkstemp = (\<lambda>p w. (Inl ENOENT, w)), k_mkdir = (\<lambda>p m w. (Inl ENOENT, w)), k_mknod = (\<lambda>p m d w. (Inl ENOENT, w)),
     k_symlink = (\<lambda>x p w. (Inl ENOENT, w)), k_link = (\<lambda>x p w. (Inl ENOENT, w)), k_rename = (\<lambda>x p w. (Inl ENOENT, w)),
     k_remove = (\<lambda>p w. (Inl ENOENT, w)), k_unlink = (\<lambda>p w. (Inl ENOENT, w)), k_rmdir = (\<lambda>p w. (Inl ENOENT, w)),
     k_chmod = (\<lambda>p m w. (Inl ENOENT, w)), k_fchmod = (\<lambda>fd m w. (Inr (), w)),
     k_lchown = (\<lambda>p u g w. (Inl ENOENT, w)), k_fchown = (\<lambda>fd u g w. (Inr (), w)),
     k_truncate = (\<lambda>p n w. (Inl ENOENT, w)), k_utimensat = (\<lambda>p a m l w. (Inl ENOENT, w)),
     k_futimens = (\<lambda>fd a m w. (Inr (), w)), k_lsetxattr = (\<lambda>p a v f w. (Inl ENOENT, w)),
     k_lremovexattr = (\<lambda>p a w. (Inl ENOENT, w)), k_setfl = (\<lambda>fd m w. (Inr (), w)),
     k_pwrite = (\<lambda>fd b n w. (Inr (length b), w)), k_pread = (\<lambda>fd c n w. Inr []),
     k_read = (\<lambda>fd c w. (Inr (take 1 (fst w)), (drop 1 (fst w), snd w))),
     k_write = (\<lambda>fd b w. (Inr 1, (fst w, snd w @ take 1 b))),
     k_lseek_start = (\<lambda>fd w. (Inr (), w)), k_ftruncate = (\<lambda>fd n w. (Inr (), w)),
     k_fallocate = (\<lambda>fd m a b w. (Inr (), w)), k_fadvise = (\<lambda>fd a b c w. (Inr (), w)),
     k_fsync = (\<lambda>fd w. (Inr (), w)), k_fdatasync = (\<lambda>fd w. (Inr (), w)), k_flock = (\<lambda>fd c w. (Inr (), w)),
     k_dup = (\<lambda>fd w. (Inr 9, w)), k_ioctl = (\<lambda>fd c d w. (Inl ENOTTY, w)), k_ficlone = (\<lambda>a b w. (Inl EOPNOTSUPP, w)),
     k_copy_file_range = (\<lambda>a b c w. (Inr 10, (fst w, snd w @ take 10 (fst w)))), k_sendfile = (\<lambda>a b c w. (Inl ENOSYS, w)),
     k_getflags = (\<lambda>fd w. Inl ENOTTY), k_setflags = (\<lambda>fd f w. (Inl ENOTTY, w)),
     k_flistxattr = (\<lambda>fd n w. Inr []), k_fgetxattr = (\<lambda>fd a n w. Inl ENODATA),
     k_fsetxattr = (\<lambda>fd a v f w. (Inr (), w)),
     k_setreuid = (\<lambda>u w. (Inr (), w)), k_setregid = (\<lambda>g w. (Inr (), w)), k_setgroups = (\<lambda>g w. (Inr (), w))\<rparr>"

definition pipe_sys :: "string \<Rightarrow> (string \<times> string) sys" where
  "pipe_sys txt = \<lparr>world = (txt, []), errno = 0, g_timeout = 0, g_cache = Map.empty, currentuid = 0, currentgid = 0,
     initialized = True, gidcache = \<lparr>gc_recs = []\<rparr>\<rparr>"

theorem copyfile_copies_everything_witness:
  "\<exists>s'. copyfile_count pipe_os 3 4 5 4096 (pipe_sys ''hello'') = Some (5, s') \<and> snd (world s') = ''hello''"
proof -
  have laws: "copy_laws pipe_os 3 4 fst snd"
    unfolding copy_laws_def by (auto simp: pipe_os_def Suc_le_eq intro!: exI [of _ 1])
  show ?thesis
    using copyfile_copies_everything [OF laws, of fst 4096 "pipe_sys ''hello''"]
    by (simp add: pipe_os_def pipe_sys_def)
qed

text \<open>
  A short copy is taken for a complete one. When the file system cannot clone and \<^verbatim>\<open>copy_file_range(2)\<close> moves some of the bytes only,
  as it does for more than 2 GiB, the copy of the data stops there and reports success: \<open>clonefile\<close> goes on to the
  metadata whatever the size of the source is.
\<close>

theorem clonefile_accepts_short_copy:
  assumes "\<forall>w. k_ficlone os src dst w = (Inl EOPNOTSUPP, w)"
    and "\<forall>c w. \<exists>w'. k_copy_file_range os src dst c w = (Inr (int n), w')" "n < 2 ^ 31"
    and "k_fstat os src (world s) = Inr st"
  shows "\<exists>t w. clonefile os src dst s = Some (clone_fd_metadata os src dst st t)
    \<and> world t = snd (k_copy_file_range os src dst (st_size st) w)"
proof -
  let ?c = "st_size st"
  let ?s = "snd (fs_ftruncate os dst ?c (snd (fs_fallocate os dst 0 0 ?c
      (snd (fs_fadvise os src 0 ?c POSIX_FADV_SEQUENTIAL (snd (fs_fadvise os src 0 ?c POSIX_FADV_WILLNEED s)))))))"
  let ?u = "?s\<lparr>errno := EOPNOTSUPP\<rparr>"
  have fi: "fs_ficlone os src dst ?s = (- 1, ?u)"
    using assms(1) by (simp add: fs_ficlone_def sys_fd_def)
  obtain w where "k_copy_file_range os src dst ?c (world ?u) = (Inr (int n), w)" using assms(2) by blast
  then have cp: "fs_copy_file_range os src dst ?c ?u = (int n, ?u\<lparr>world := w\<rparr>)"
      and w: "w = snd (k_copy_file_range os src dst ?c (world ?u))"
    by (simp_all add: fs_copy_file_range_def sys_fd_def)
  have "copydata os src dst ?c s = Some (int n, ?u\<lparr>world := w\<rparr>)"
    unfolding copydata_def Let_def fi case_prod_conv cp
    using to_int_small [OF assms(3)] by simp
  moreover have "fs_fstat os src s = (Some st, s)"
    using assms(4) by (simp add: fs_fstat_def sys_val_def)
  ultimately have "clonefile os src dst s = Some (clone_fd_metadata os src dst st (?u\<lparr>world := w\<rparr>))"
    by (simp add: clonefile_def)
  then show ?thesis using w by (metis sys.select_convs(1) sys.update_convs(1) sys.surjective)
qed

theorem clonefile_accepts_short_copy_witness:
  "\<exists>t. clonefile pipe_os 3 4 (pipe_sys (replicate 100 CHR ''x'')) =
     Some (clone_fd_metadata pipe_os 3 4 ((sample_stat 5)\<lparr>st_size := 100\<rparr>) t)"
  using clonefile_accepts_short_copy [of pipe_os 3 4 10 "pipe_sys (replicate 100 CHR ''x'')" "(sample_stat 5)\<lparr>st_size := 100\<rparr>"]
  by (auto simp: pipe_os_def)

definition capital :: "char \<Rightarrow> bool" where
  "capital c \<longleftrightarrow> 65 \<le> (of_char c :: nat) \<and> (of_char c :: nat) \<le> 90"

lemma tmp_chars:
  "\<exists>x. fst (for_each (tmp_char os) is tmp s) = tmp @ x \<and> length x = length is \<and> list_all capital x"
proof (induction "is" arbitrary: tmp s)
  case (Cons i "is")
  obtain r w where r: "k_rand os (world s) = (r, w)" by fastforce
  let ?c = "char_of (65 + r mod 26) :: char"
  have "65 + r mod 26 < 256" using mod_less_divisor [of 26 r] by linarith
  then have "capital ?c" by (simp add: capital_def of_char_of)
  moreover obtain x where "fst (for_each (tmp_char os) is (tmp @ [?c]) (s\<lparr>world := w\<rparr>)) = (tmp @ [?c]) @ x"
      "length x = length is" "list_all capital x"
    using Cons by blast
  moreover have "tmp_char os i tmp s = (tmp @ [?c], s\<lparr>world := w\<rparr>)" by (simp add: tmp_char_def r)
  ultimately show ?case by (auto intro!: exI [of _ "?c # x"])
qed simp

lemma mktemp_loop_new:
  "mktemp_loop n os base flags s = (fd, path, s') \<Longrightarrow> fd \<noteq> - 1 \<Longrightarrow>
   (\<exists>x. path = base @ ''_'' @ x \<and> length x = 6 \<and> list_all capital x)
   \<and> (\<exists>w. k_open os path flags S_IWUSR w = (Inr fd, world s'))"
proof (induction n arbitrary: s)
  case (Suc n)
  obtain tmp t where g: "generate_tmp_path os base s = (tmp, t)" by fastforce
  obtain fd' u where o: "fs_open os tmp flags S_IWUSR t = (fd', u)" by fastforce
  show ?case
  proof (cases "fd' = - 1")
    case True
    then have "mktemp_loop n os base flags u = (fd, path, s')"
      using Suc.prems g o by (auto split: if_splits)
    then show ?thesis using Suc.IH Suc.prems(2) by blast
  next
    case False
    then have eq: "fd = fd'" "path = tmp" "s' = u" using Suc.prems g o by auto
    have "\<exists>x. tmp = (base @ ''_'') @ x \<and> length x = 6 \<and> list_all capital x"
      using tmp_chars [of os "[0 ..< 6]" "base @ ''_''" s] g
      by (metis diff_zero fst_conv generate_tmp_path_def length_upt)
    moreover have "k_open os tmp flags S_IWUSR (world t) = (Inr fd, world s')"
      using o False eq by (auto simp: fs_open_def sys_fd_def split: prod.splits sum.splits)
    ultimately show ?thesis using eq by auto
  qed
qed simp

text \<open>
  C25: a temporary file is new and beside the file it replaces. When \<^verbatim>\<open>mktemp\<close> returns a descriptor, the name it reports is the
  given one followed by an underscore and six capital letters, and it was opened with \<^verbatim>\<open>O_CREAT|O_EXCL\<close>.
\<close>

theorem mktemp_new_file:
  assumes "mktemp os base flags s = (fd, path, s')" "fd \<noteq> - 1"
  shows "(\<exists>x. path = base @ ''_'' @ x \<and> length x = 6 \<and> list_all capital x)
    \<and> (\<exists>w. k_open os path (flags OR O_EXCL OR O_CREAT) S_IWUSR w = (Inr fd, world s'))"
  using mktemp_loop_new assms unfolding mktemp_def by blast

theorem mktemp_new_file_witness:
  "\<exists>x. fst (snd (mktemp sample_os ''/a/f'' O_WRONLY (sample_sys []))) = ''/a/f'' @ ''_'' @ x \<and> length x = 6 \<and> list_all capital x"
proof -
  let ?r = "mktemp sample_os ''/a/f'' O_WRONLY (sample_sys [])"
  have "fst ?r = 3" by code_simp
  then show ?thesis
    using mktemp_new_file [of sample_os "''/a/f''" O_WRONLY "sample_sys []" "fst ?r" "fst (snd ?r)" "snd (snd ?r)"]
    by (simp add: prod_eq_iff)
qed

end
