(* ===== verification/Movefile.thy ===== *)
theory Movefile
  imports Creates File_Copy
begin

text \<open>
  \<^verbatim>\<open>fs.cpp\<close> and \<^verbatim>\<open>fs_movefile.cpp\<close>: finding the branch of an open file, the branch with the most free space, and moving an
  open file there when its branch has run out of space; and the handlers that do so, \<^verbatim>\<open>fuse_write.cpp\<close> and
  \<^verbatim>\<open>fuse_write_buf.cpp\<close>. What \<^verbatim>\<open>fuse_buf_copy\<close> of libfuse does with a buffer is a parameter.
\<close>

unbundle bit_operations_syntax

section \<open>Searching the branches\<close>

definition findallfiles_body :: "'w os \<Rightarrow> string \<Rightarrow> string \<Rightarrow> string list \<Rightarrow> 'w sys \<Rightarrow> string list \<times> 'w sys" where
  "findallfiles_body os fusepath basepath paths s =
     (let fullpath = path_make basepath fusepath
      in case fs_lstat os fullpath s of
           (None, s) \<Rightarrow> (paths, s)
         | (Some st, s) \<Rightarrow> (paths @ [fullpath], s))"

definition findallfiles :: "'w os \<Rightarrow> string list \<Rightarrow> string \<Rightarrow> string list \<Rightarrow> 'w sys \<Rightarrow> string list \<times> 'w sys" where
  "findallfiles os basepaths fusepath paths s = for_each (findallfiles_body os fusepath) basepaths paths s"

definition findonfs_body ::
  "'w os \<Rightarrow> string \<Rightarrow> u64 \<Rightarrow> string \<Rightarrow> unit \<Rightarrow> 'w sys \<Rightarrow> (unit + string) \<times> 'w sys" where
  "findonfs_body os fusepath dev basepath u s =
     (case fs_lstat os (path_make basepath fusepath) s of
        (None, s) \<Rightarrow> (Inl (), s)
      | (Some st, s) \<Rightarrow> if st_dev st \<noteq> dev then (Inl (), s) else (Inr basepath, s))"

definition findonfs :: "'w os \<Rightarrow> string list \<Rightarrow> string \<Rightarrow> int \<Rightarrow> 'w sys \<Rightarrow> string option \<times> 'w sys" where
  "findonfs os basepaths fusepath fd s =
     (case fs_fstat os fd s of
        (None, s) \<Rightarrow> (None, s)
      | (Some st, s) \<Rightarrow>
          (case for_until (findonfs_body os fusepath (st_dev st)) basepaths () s of
             (Inl _, s) \<Rightarrow> (None, s\<lparr>errno := ENOENT\<rparr>)
           | (Inr basepath, s) \<Rightarrow> (Some basepath, s)))"

definition mfs_body ::
  "'w os \<Rightarrow> u64 \<Rightarrow> string \<Rightarrow> u64 \<times> string option \<Rightarrow> 'w sys \<Rightarrow> (u64 \<times> string option) \<times> 'w sys" where
  "mfs_body os minfreespace basepath acc s =
     (case acc of (mfs, mfsbasepath) \<Rightarrow>
      (case statvfs_cache_spaceavail os basepath s of
        (None, s) \<Rightarrow> ((mfs, mfsbasepath), s)
      | (Some free, s) \<Rightarrow>
          if free < minfreespace then ((mfs, mfsbasepath), s)
          else if free \<le> mfs then ((mfs, mfsbasepath), s)
          else ((free, Some basepath), s)))"

definition fs_mfs :: "'w os \<Rightarrow> string list \<Rightarrow> u64 \<Rightarrow> 'w sys \<Rightarrow> string option \<times> 'w sys" where
  "fs_mfs os basepaths minfreespace s =
     (case for_each (mfs_body os minfreespace) basepaths (0, None) s of
        ((mfs, None), s) \<Rightarrow> (None, s\<lparr>errno := ENOENT\<rparr>)
      | ((mfs, Some path), s) \<Rightarrow> (Some path, s))"

section \<open>Moving an open file\<close>

definition movefile_cleanup :: "'w os \<Rightarrow> int \<Rightarrow> int \<Rightarrow> string \<Rightarrow> 'w sys \<Rightarrow> 'w sys" where
  "movefile_cleanup os fdin fdout fdout_temp s =
     (let rv = errno s;
          s = (if fdin \<noteq> - 1 then snd (fs_close os fdin s) else s);
          s = (if fdout \<noteq> - 1 then snd (fs_close os fdout s) else s);
          s = snd (fs_unlink os fdout_temp s)
      in s\<lparr>errno := rv\<rparr>)"

text \<open>
  The flags of the old descriptor are read without a check that applies to them. The result is the return value with
  the descriptor the caller holds afterwards.
\<close>

definition movefile ::
  "'w os \<Rightarrow> string list \<Rightarrow> string \<Rightarrow> u64 \<Rightarrow> int \<Rightarrow> 'w sys \<Rightarrow> (int \<times> int \<times> 'w sys) option" where
  "movefile os basepaths fusepath additional_size origfd s =
     (case fs_fstat os origfd s of
        (None, s) \<Rightarrow> Some (- 1, origfd, s)
      | (Some fdin_st, s) \<Rightarrow>
      case fs_getfl os origfd s of (fdin_flags, s) \<Rightarrow>
      (case findonfs os basepaths fusepath origfd s of
        (None, s) \<Rightarrow> Some (- 1, origfd, s)
      | (Some fdin_base, s) \<Rightarrow>
      (case fs_mfs os basepaths (st_size fdin_st + additional_size) s of
        (None, s) \<Rightarrow> Some (- 1, origfd, s)
      | (Some fdout_base, s) \<Rightarrow>
      case clonepath os fdin_base fdout_base (dirname fusepath) False s of (rv, s) \<Rightarrow>
      if rv = - 1 then Some (- 1, origfd, s) else
      let fdin_path = fdin_base @ fusepath
      in case fs_open os fdin_path O_RDONLY 0 s of (fdin, s) \<Rightarrow>
      if fdin = - 1 then Some (- 1, origfd, s) else
      let fdout_path = fdout_base @ fusepath
      in (case fs_mkstemp os fdout_path s of
        (None, s) \<Rightarrow> Some (- 1, origfd, s)
      | (Some (fdout_temp, fdout), s) \<Rightarrow>
      (case clonefile os fdin fdout s of
        None \<Rightarrow> None
      | Some (rv, s) \<Rightarrow>
      if rv = - 1 then Some (- 1, origfd, movefile_cleanup os fdin fdout fdout_temp s) else
      case fs_setfl os fdout fdin_flags s of (rv, s) \<Rightarrow>
      if rv = - 1 then Some (- 1, origfd, movefile_cleanup os fdin fdout fdout_temp s) else
      case fs_rename os fdout_temp fdout_path s of (rv, s) \<Rightarrow>
      if rv = - 1 then Some (- 1, origfd, movefile_cleanup os fdin fdout fdout_temp s) else
      let s = snd (fs_unlink os fdin_path s);
          s = snd (fs_close os fdin s);
          s = snd (fs_close os origfd s)
      in Some (0, fdout, s))))))"

section \<open>write\<close>

definition out_of_space :: "int \<Rightarrow> bool" where
  "out_of_space error \<longleftrightarrow> error = ENOSPC \<or> error = EDQUOT"

definition write_regular :: "'w os \<Rightarrow> int \<Rightarrow> string \<Rightarrow> 64 word \<Rightarrow> 'w sys \<Rightarrow> int \<times> 'w sys" where
  "write_regular os fd buf offset s =
     (case fs_pwrite os fd buf offset s of
        (None, s) \<Rightarrow> (- errno s, s)
      | (Some n, s) \<Rightarrow>
          if to_int (int n) = - 1 then (- errno s, s)
          else if to_int (int n) = 0 then (0, s)
          else (to_int (int (length buf)), s))"

definition write_direct_io :: "'w os \<Rightarrow> int \<Rightarrow> string \<Rightarrow> 64 word \<Rightarrow> 'w sys \<Rightarrow> int \<times> 'w sys" where
  "write_direct_io os fd buf offset s =
     (case fs_pwrite os fd buf offset s of
        (None, s) \<Rightarrow> (- errno s, s)
      | (Some n, s) \<Rightarrow> if to_int (int n) = - 1 then (- errno s, s) else (to_int (int n), s))"

text \<open>\<open>func\<close> is the function that writes, with its buffer and offset; \<open>extra\<close> the size of the buffer.\<close>

definition write_or_move ::
  "'w os \<Rightarrow> Config \<Rightarrow> (int \<Rightarrow> 'w sys \<Rightarrow> int \<times> 'w sys) \<Rightarrow> u64 \<Rightarrow> FileInfo \<Rightarrow> 'w sys \<Rightarrow>
   (int \<times> FileInfo \<times> 'w sys) option" where
  "write_or_move os cfg func extra fi s =
     (case func (fi_fd fi) s of (rv, s) \<Rightarrow>
      if out_of_space (- rv) \<and> cf_moveonenospc cfg
      then
        let s = ugid_Set os 0 0 s
        in case movefile os (to_paths (cf_branches cfg)) (fi_fusepath fi) extra (fi_fd fi) s of
             None \<Rightarrow> None
           | Some (rv, fd, s) \<Rightarrow>
               let fi = fi\<lparr>fi_fd := fd\<rparr>
               in if rv = - 1 then Some (- ENOSPC, fi, s)
                  else (case func (fi_fd fi) s of (rv, s) \<Rightarrow> Some (rv, fi, s))
      else Some (rv, fi, s))"

definition FUSE_write ::
  "'w os \<Rightarrow> string \<Rightarrow> 64 word \<Rightarrow> FileInfo \<Rightarrow> bool \<Rightarrow> Config \<Rightarrow> 'w sys \<Rightarrow> (int \<times> FileInfo \<times> 'w sys) option" where
  "FUSE_write os buf offset fi direct_io cfg s =
     (let wf = (if direct_io then write_direct_io else write_regular)
      in write_or_move os cfg (\<lambda>fd. wf os fd buf offset) (of_nat (length buf)) fi s)"

definition FUSE_write_buf ::
  "'w os \<Rightarrow> (int \<Rightarrow> 64 word \<Rightarrow> 'w sys \<Rightarrow> int \<times> 'w sys) \<Rightarrow> u64 \<Rightarrow> 64 word \<Rightarrow> FileInfo \<Rightarrow> Config \<Rightarrow> 'w sys \<Rightarrow>
   (int \<times> FileInfo \<times> 'w sys) option" where
  "FUSE_write_buf os buf_copy bufsize offset fi cfg s =
     write_or_move os cfg (\<lambda>fd. buf_copy fd offset) bufsize fi s"

section \<open>A move that fails\<close>

text \<open>A property that the calls on descriptors keep, as well as making and removing temporary files and a failing rename.\<close>

definition data_preserves :: "'w os \<Rightarrow> ('w \<Rightarrow> bool) \<Rightarrow> bool" where
  "data_preserves os Q \<longleftrightarrow>
     (\<forall>w. Q w \<longrightarrow>
        (\<forall>fd a b c. Q (snd (k_fadvise os fd a b c w))) \<and> (\<forall>fd m a b. Q (snd (k_fallocate os fd m a b w)))
        \<and> (\<forall>fd n. Q (snd (k_ftruncate os fd n w))) \<and> (\<forall>a b. Q (snd (k_ficlone os a b w)))
        \<and> (\<forall>a b n. Q (snd (k_copy_file_range os a b n w))) \<and> (\<forall>a b n. Q (snd (k_sendfile os a b n w)))
        \<and> (\<forall>fd n. Q (snd (k_read os fd n w))) \<and> (\<forall>fd b. Q (snd (k_write os fd b w)))
        \<and> (\<forall>fd. Q (snd (k_lseek_start os fd w))) \<and> (\<forall>fd u g. Q (snd (k_fchown os fd u g w)))
        \<and> (\<forall>fd m. Q (snd (k_fchmod os fd m w))) \<and> (\<forall>fd a m. Q (snd (k_futimens os fd a m w)))
        \<and> (\<forall>fd m. Q (snd (k_setfl os fd m w))) \<and> (\<forall>p. Q (snd (k_mkstemp os p w))))"

lemma data_preservesD:
  assumes "data_preserves os Q" "holds Q t"
  shows "Q (snd (k_fadvise os fd a b c (world t)))" "Q (snd (k_fallocate os fd m a b (world t)))"
    "Q (snd (k_ftruncate os fd n (world t)))" "Q (snd (k_ficlone os fd fd' (world t)))"
    "Q (snd (k_copy_file_range os fd fd' n (world t)))" "Q (snd (k_sendfile os fd fd' n (world t)))"
    "Q (snd (k_read os fd k (world t)))" "Q (snd (k_write os fd buf (world t)))"
    "Q (snd (k_lseek_start os fd (world t)))" "Q (snd (k_fchown os fd u g (world t)))"
    "Q (snd (k_fchmod os fd md (world t)))" "Q (snd (k_futimens os fd at mt (world t)))"
    "Q (snd (k_setfl os fd fl (world t)))" "Q (snd (k_mkstemp os p (world t)))"
  using assms by (simp_all add: data_preserves_def holds_def)

lemma writen_loop_holds:
  "writen_loop os fd buf s = Some r \<Longrightarrow> data_preserves os Q \<longrightarrow> holds Q s \<longrightarrow> holds Q (snd r)"
proof (erule writen_loop.raw_induct [where P = "\<lambda>os fd buf s r. data_preserves os Q \<longrightarrow> holds Q s \<longrightarrow> holds Q (snd r)", rotated])
  fix rec and os :: "'a os" and fd buf and s :: "'a sys" and r
  assume IH: "\<And>os fd buf s r. rec os fd buf s = Some r \<Longrightarrow> data_preserves os Q \<longrightarrow> holds Q s \<longrightarrow> holds Q (snd r)"
    and body: "(case fs_write os fd buf s of
        (None, s) \<Rightarrow> if errno s = EINTR then (if buf \<noteq> [] then rec os fd buf s else Some (True, s)) else Some (False, s)
      | (Some n, s) \<Rightarrow> if drop n buf \<noteq> [] then rec os fd (drop n buf) s else Some (True, s)) = Some r"
  show "data_preserves os Q \<longrightarrow> holds Q s \<longrightarrow> holds Q (snd r)"
  proof (intro impI)
    assume law: "data_preserves os Q" and s: "holds Q s"
    obtain n t where w: "fs_write os fd buf s = (n, t)" by fastforce
    have "holds Q t"
      using holds_calls(4) [of Q "k_write os fd buf (world s)" s] data_preservesD(8) [OF law s] w
      by (simp add: fs_write_def)
    then show "holds Q (snd r)"
      using IH body law w by (auto split: option.splits if_splits)
  qed
qed

lemma writen_holds:
  "data_preserves os Q \<Longrightarrow> writen os fd buf s = Some r \<Longrightarrow> holds Q s \<Longrightarrow> holds Q (snd r)"
  using writen_loop_holds [of os fd buf s _ Q] by (fastforce simp: writen_def split: option.splits)

lemma copyfile_loop_holds:
  "copyfile_loop os a b c n k s = Some r \<Longrightarrow> data_preserves os Q \<longrightarrow> holds Q s \<longrightarrow> holds Q (snd r)"
proof (erule copyfile_loop.raw_induct [where P = "\<lambda>os a b c n k s r. data_preserves os Q \<longrightarrow> holds Q s \<longrightarrow> holds Q (snd r)", rotated])
  fix rec and os :: "'a os" and a b c n k and s :: "'a sys" and r
  assume IH: "\<And>os a b c n k s r. rec os a b c n k s = Some r \<Longrightarrow> data_preserves os Q \<longrightarrow> holds Q s \<longrightarrow> holds Q (snd r)"
    and body: "(if k < c
      then (case fs_read os a n s of
              (None, s) \<Rightarrow> if errno s = EINTR then rec os a b c n k s else Some (- 1, s)
            | (Some buf, s) \<Rightarrow>
                if buf = [] then Some (to_int (uint k), s)
                else (case writen os b buf s of
                        None \<Rightarrow> None
                      | Some (nw, s) \<Rightarrow> if nw = - 1 then Some (- 1, s) else rec os a b c n (k + word_of_int nw) s))
      else Some (to_int (uint k), s)) = Some r"
  show "data_preserves os Q \<longrightarrow> holds Q s \<longrightarrow> holds Q (snd r)"
  proof (intro impI)
    assume law: "data_preserves os Q" and s: "holds Q s"
    obtain v t where rd: "fs_read os a n s = (v, t)" by fastforce
    have t: "holds Q t"
      using holds_calls(4) [of Q "k_read os a n (world s)" s] data_preservesD(7) [OF law s] rd
      by (simp add: fs_read_def)
    have w: "holds Q (snd q)" if "writen os b buf t = Some q" for buf q
      using writen_holds [OF law that t] .
    show "holds Q (snd r)"
    proof (cases "k < c")
      case False
      then show ?thesis using body s by auto
    next
      case True
      then show ?thesis
        using body rd t law by (auto split: option.splits if_splits dest: IH dest!: w)
    qed
  qed
qed

lemma copydata_holds:
  assumes law: "data_preserves os Q" and run: "copydata os a b c s = Some r" and s: "holds Q s"
  shows "holds Q (snd r)"
proof -
  let ?s = "snd (fs_ftruncate os b c (snd (fs_fallocate os b 0 0 c
      (snd (fs_fadvise os a 0 c POSIX_FADV_SEQUENTIAL (snd (fs_fadvise os a 0 c POSIX_FADV_WILLNEED s)))))))"
  have s': "holds Q ?s"
    unfolding fs_ftruncate_def fs_fallocate_def
    by (intro holds_intros data_preservesD [OF law] s)
  obtain n1 t where c1: "fs_ficlone os a b ?s = (n1, t)" by fastforce
  obtain n2 u where c2: "fs_copy_file_range os a b c t = (n2, u)" by fastforce
  obtain n3 v where c3: "fs_sendfile os a b c u = (n3, v)" by fastforce
  have t: "holds Q t"
    using holds_calls(2) [of Q "k_ficlone os a b (world ?s)" ?s] data_preservesD(4) [OF law s'] c1 by (simp add: fs_ficlone_def)
  have u: "holds Q u"
    using holds_calls(2) [of Q "k_copy_file_range os a b c (world t)" t] data_preservesD(5) [OF law t] c2
    by (simp add: fs_copy_file_range_def)
  have v: "holds Q v"
    using holds_calls(2) [of Q "k_sendfile os a b c (world u)" u] data_preservesD(6) [OF law u] c3 by (simp add: fs_sendfile_def)
  have fallback: "holds Q (snd r)" if "copyfile os a b v = Some r"
  proof (cases "fs_fstat os a v")
    case (Pair st w)
    then have w: "holds Q w" using holds_calls(3) [OF v, of "k_fstat os a (world v)"] by (simp add: fs_fstat_def)
    then have "holds Q (snd (fs_lseek_start os a w))"
      unfolding fs_lseek_start_def by (intro holds_intros data_preservesD [OF law])
    then have "copyfile_loop os a b c n k (snd (fs_lseek_start os a w)) = Some r \<Longrightarrow> holds Q (snd r)" for c n k
      using law copyfile_loop_holds by blast
    then show ?thesis
      using that Pair w by (auto simp: copyfile_def copyfile_count_def Let_def split: option.splits)
  qed
  show ?thesis
    using run t u v fallback unfolding copydata_def Let_def c1 c2 c3 case_prod_conv
    by (auto split: if_splits)
qed

lemma holds_xattr_fd [holds_intros]:
  assumes "holds Q t"
  shows "holds Q (snd (xattr_list_fd os fd t))" "holds Q (snd (xattr_get_fd os fd a t))"
  using assms by (simp_all add: xattr_list_fd_def xattr_get_fd_def holds_def xattr_loop_world)

lemma clone_fd_metadata_holds:
  assumes "clone_preserves os Q" "data_preserves os Q" "holds Q t"
  shows "holds Q (snd (clone_fd_metadata os a b st t))"
proof -
  have attr: "holds Q u \<Longrightarrow> holds Q (snd (attr_copy_fd os a b u))" for u
    unfolding attr_copy_fd_def by (auto intro!: holds_flags [OF assms(1)] holds_intros)
  have xattr: "holds Q u \<Longrightarrow> holds Q (snd (xattr_copy_fd os a b u))" for u
    unfolding xattr_copy_fd_def xattr_get_all_fd_def get_all_body_def xattr_set_all_fd_def xattr_set_body_def
      xattr_set_fd_def fs_fsetxattr_def
    by (auto intro!: clone_preservesD [OF assms(1)] holds_intros)
  have own: "holds Q u \<Longrightarrow> holds Q (snd (fchown_check_on_error os b st u))"
    "holds Q u \<Longrightarrow> holds Q (snd (fchmod_check_on_error os b st u))"
    "holds Q u \<Longrightarrow> holds Q (snd (fs_futime os b st u))" for u
    unfolding fchown_check_on_error_def fchmod_check_on_error_def Let_def fs_fchown_def fs_fchmod_def fs_fstat_def fs_futime_def
    by (auto intro!: data_preservesD [OF assms(2)] holds_intros)
  show ?thesis
    using assms(3) unfolding clone_fd_metadata_def by (auto intro!: attr xattr own holds_intros)
qed

lemma clonefile_holds:
  assumes "clone_preserves os Q" "data_preserves os Q" "clonefile os a b s = Some r" "holds Q s"
  shows "holds Q (snd r)"
proof (cases "fs_fstat os a s")
  case (Pair st w)
  then have w: "holds Q w" using holds_calls(3) [OF assms(4), of "k_fstat os a (world s)"] by (simp add: fs_fstat_def)
  then show ?thesis
    using assms(3) Pair copydata_holds [OF assms(2) _ w] clone_fd_metadata_holds [OF assms(1,2)]
    by (fastforce simp: clonefile_def split: option.splits if_splits)
qed

lemma findonfs_world: "world (snd (findonfs os bps fp fd s)) = world s"
proof -
  have "world (snd (for_until (findonfs_body os fp dev) bps () t)) = world t" for dev t
  proof (induction bps arbitrary: t)
    case (Cons b bps)
    have "world (snd (fs_lstat os (path_make b fp) t)) = world t" by (simp add: fs_lstat_def)
    then show ?case using Cons by (auto simp: findonfs_body_def split: prod.splits option.splits sum.splits)
  qed simp
  moreover have "world (snd (fs_fstat os fd s)) = world s" by (simp add: fs_fstat_def)
  ultimately show ?thesis by (auto simp: findonfs_def split: prod.splits option.splits sum.splits) (metis snd_conv)+
qed

lemma fs_mfs_world: "world (snd (fs_mfs os bps m s)) = world s"
proof -
  have "world (snd (mfs_body os m b acc t)) = world t" for b acc t
    using only_at_statvfs_cache [of b t os] by (auto simp: mfs_body_def statvfs_cache_spaceavail_def only_at_def split: prod.splits option.splits)
  then have "case for_each (mfs_body os m) bps (0, None) s of (acc, t) \<Rightarrow> world t = world s"
    by (intro for_each_inv [where I = "\<lambda>acc t. world t = world s"]) (auto simp: case_prod_beta)
  then show ?thesis by (auto simp: fs_mfs_def split: prod.splits option.splits)
qed

definition move_laws :: "'w os \<Rightarrow> ('w \<Rightarrow> bool) \<Rightarrow> bool" where
  "move_laws os Q \<longleftrightarrow>
     clone_preserves os Q \<and> mkdir_preserves os Q \<and> data_preserves os Q
     \<and> (\<forall>p q w e w'. k_rename os p q w = (Inl e, w') \<longrightarrow> Q w \<longrightarrow> Q w')
     \<and> (\<forall>p w q fd w' u. k_mkstemp os (p @ ''.XXXXXX'') w = (Inr (q, fd), w') \<longrightarrow> Q u \<longrightarrow> Q (snd (k_unlink os q u)))"

lemma movefile_cleanup_holds:
  assumes "move_laws os Q" "holds Q s" "k_mkstemp os (p @ ''.XXXXXX'') w = (Inr (tmp, fd), w')"
  shows "holds Q (movefile_cleanup os a b tmp s)"
proof -
  have law: "clone_preserves os Q" and unl: "\<And>u. Q u \<Longrightarrow> Q (snd (k_unlink os tmp u))"
    using assms(1,3) unfolding move_laws_def by blast+
  have cl: "holds Q u \<Longrightarrow> holds Q (snd (fs_close os x u))" for x u
    unfolding fs_close_def by (intro holds_intros clone_preservesD [OF law])
  have un: "holds Q u \<Longrightarrow> holds Q (snd (fs_unlink os tmp u))" for u
    unfolding fs_unlink_def by (intro holds_intros unl) (simp add: holds_def)
  show ?thesis using assms(2) by (simp add: movefile_cleanup_def Let_def cl un)
qed

lemma failing_rename_keeps:
  assumes "move_laws os Q" "fs_rename os p q s = (- 1, t)" "holds Q s"
  shows "holds Q t"
proof -
  obtain e where "k_rename os p q (world s) = (Inl e, world t)"
    using assms(2) by (auto simp: fs_rename_def sys_unit_def split: prod.splits sum.splits)
  then show ?thesis using assms(1,3) unfolding move_laws_def holds_def by blast
qed

text \<open>From the temporary file on: the part of a move that can go to the cleanup.\<close>

lemma movefile_tail_holds:
  assumes law: "move_laws os Q" and s: "holds Q s" and mk: "fs_mkstemp os p s = (Some (tmp, fdout), t)"
    and cf: "clonefile os fdin fdout t = Some (rv, u)"
  shows "holds Q (movefile_cleanup os fdin fdout tmp u)"
    and "fs_setfl os fdout fl u = (r2, v) \<Longrightarrow> holds Q (movefile_cleanup os fdin fdout tmp v)"
    and "fs_setfl os fdout fl u = (r2, v) \<Longrightarrow> fs_rename os tmp q v = (- 1, w) \<Longrightarrow>
      holds Q (movefile_cleanup os fdin fdout tmp w)"
proof -
  have laws: "clone_preserves os Q" "data_preserves os Q" using law by (simp_all add: move_laws_def)
  obtain x where k: "k_mkstemp os (p @ ''.XXXXXX'') (world s) = (Inr (tmp, fdout), x)" and t: "t = s\<lparr>world := x\<rparr>"
    using mk by (auto simp: fs_mkstemp_def sys_ret_def split: prod.splits sum.splits)
  have "holds Q t" using data_preservesD(14) [OF laws(2) s, of "p @ ''.XXXXXX''"] k t by simp
  then have u: "holds Q u" using clonefile_holds [OF laws cf] by simp
  then show "holds Q (movefile_cleanup os fdin fdout tmp u)" by (rule movefile_cleanup_holds [OF law _ k])
  assume sf: "fs_setfl os fdout fl u = (r2, v)"
  have v: "holds Q v"
    using holds_calls(1) [of Q "k_setfl os fdout fl (world u)" u] data_preservesD(13) [OF laws(2) u] sf
    by (simp add: fs_setfl_def)
  then show "holds Q (movefile_cleanup os fdin fdout tmp v)" by (rule movefile_cleanup_holds [OF law _ k])
  assume "fs_rename os tmp q v = (- 1, w)"
  then have "holds Q w" using failing_rename_keeps [OF law _ v] by blast
  then show "holds Q (movefile_cleanup os fdin fdout tmp w)" by (rule movefile_cleanup_holds [OF law _ k])
qed

section \<open>Properties\<close>

text \<open>
  C26: a move that fails loses nothing. When \<^verbatim>\<open>movefile\<close> returns an error, the caller keeps its descriptor, and every property of
  the kernel state that survives the calls on descriptors, cloning directories, a failing rename and removing the
  temporary file still holds; the source is not unlinked.
\<close>

theorem movefile_failure_keeps_source:
  assumes "move_laws os Q" "Q (world s)"
    and "movefile os bps fp extra fd s = Some (- 1, fd', s')"
  shows "Q (world s') \<and> fd' = fd"
proof -
  obtain ost s1 where e1: "fs_fstat os fd s = (ost, s1)" by fastforce
  obtain fl s2 where e2: "fs_getfl os fd s1 = (fl, s2)" by fastforce
  obtain ob s3 where e3: "findonfs os bps fp fd s2 = (ob, s3)" by fastforce
  obtain om s4 where e4: "fs_mfs os bps (st_size (the ost) + extra) s3 = (om, s4)" by fastforce
  obtain r5 s5 where e5: "clonepath os (the ob) (the om) (dirname fp) False s4 = (r5, s5)" by fastforce
  obtain fdin s6 where e6: "fs_open os (the ob @ fp) O_RDONLY 0 s5 = (fdin, s6)" by fastforce
  obtain omk s7 where e7: "fs_mkstemp os (the om @ fp) s6 = (omk, s7)" by fastforce
  have laws: "clone_preserves os Q" "mkdir_preserves os Q" "data_preserves os Q"
    using assms(1) by (simp_all add: move_laws_def)
  have "world s1 = world s" using e1 sys_val_frame(1) [of "k_fstat os fd (world s)" s] by (simp add: fs_fstat_def)
  moreover have "world s2 = world s1" using e2 by (auto simp: fs_getfl_def sys_fd_def split: sum.splits)
  moreover have "world s3 = world s2" using e3 findonfs_world [of os bps fp fd s2] by simp
  moreover have "world s4 = world s3" using e4 fs_mfs_world [of os bps _ s3] by (metis snd_conv)
  ultimately have h: "holds Q s1" "holds Q s3" "holds Q s4" using assms(2) by (simp_all add: holds_def)
  have h5: "holds Q s5" using clonepath_holds [OF laws(1,2) h(3)] e5 by (metis snd_conv)
  have h6: "holds Q s6"
    using holds_calls(2) [of Q "k_open os (the ob @ fp) O_RDONLY 0 (world s5)" s5] clone_preservesD(1) [OF laws(1) h5] e6
    by (simp add: fs_open_def)
  have h7: "holds Q s7"
    using holds_calls(4) [of Q "k_mkstemp os ((the om @ fp) @ ''.XXXXXX'') (world s6)" s6] data_preservesD(14) [OF laws(3) h6] e7
    by (simp add: fs_mkstemp_def)
  have "holds Q s' \<and> fd' = fd"
    using assms(3) h h5 h6 h7 e1 e2 e3 e4 e5 e6 e7 movefile_tail_holds [OF assms(1) h6]
    by (auto simp: movefile_def Let_def split: option.splits prod.splits if_splits)
  then show ?thesis by (simp add: holds_def)
qed

lemma move_laws_sample:
  assumes "\<And>x. p \<noteq> x @ ''.XXXXXX''"
  shows "move_laws sample_os (\<lambda>w. p \<in> set w)"
  using assms
  by (auto simp: move_laws_def clone_preserves_def mkdir_preserves_def data_preserves_def sample_defs split: if_splits)

theorem movefile_failure_keeps_source_witness:
  "\<exists>fd' s'. movefile sample_os [''/a''] ''/f'' 1000 3 (sample_sys [''/a'', ''/a/f'']) = Some (- 1, fd', s')
     \<and> ''/a/f'' \<in> set (world s') \<and> fd' = 3"
proof -
  let ?m = "movefile sample_os [''/a''] ''/f'' 1000 3 (sample_sys [''/a'', ''/a/f''])"
  have "?m \<noteq> None \<and> fst (the ?m) = - 1" by code_simp
  then obtain fd' s' where m: "?m = Some (- 1, fd', s')" by (cases ?m) auto
  have "''/a/f'' \<noteq> x @ ''.XXXXXX''" for x :: string
  proof
    assume "''/a/f'' = x @ ''.XXXXXX''"
    then have "last ''/a/f'' = last (x @ ''.XXXXXX'')" by (rule arg_cong)
    then show False by simp
  qed
  then show ?thesis
    using movefile_failure_keeps_source [OF move_laws_sample [of "''/a/f''"] _ m] m by (simp add: sample_sys_def)
qed

text \<open>
  A file moved to its own branch is lost. The branch with the most free space may be the one the file is on, for instance when the
  write failed for a quota. Then a successful move ends with renaming the copy to the name of the file and unlinking that very name.
\<close>

theorem movefile_to_same_branch_unlinks_copy:
  assumes "k_fstat os fd (world s) = Inr st" "k_getfl os fd (world s) = Inr fl"
    and "findonfs os bps fp fd s = (Some p, t)" "fs_mfs os bps (st_size st + extra) t = (Some p, u)"
    and "movefile os bps fp extra fd s = Some (0, fd', s')"
  shows "\<exists>tmp w w' fdin. k_rename os tmp (p @ fp) w = (Inr (), w')
    \<and> world s' = snd (k_close os fd (snd (k_close os fdin (snd (k_unlink os (p @ fp) w')))))"
proof -
  have reads: "fs_fstat os fd s = (Some st, s)" "fs_getfl os fd s = (fl, s)"
    using assms(1,2) by (simp_all add: fs_fstat_def fs_getfl_def sys_val_def sys_fd_def)
  obtain tmp v r v' fdin where rn: "fs_rename os tmp (p @ fp) v = (r, v')" "r \<noteq> - 1"
      and s': "s' = snd (fs_close os fd (snd (fs_close os fdin (snd (fs_unlink os (p @ fp) v')))))"
    using assms(5) unfolding movefile_def reads assms(3) option.case case_prod_conv assms(4) Let_def
    by (auto split: prod.splits option.splits if_splits)
  have "k_rename os tmp (p @ fp) (world v) = (Inr (), world v')"
    using rn by (auto simp: fs_rename_def sys_unit_def split: prod.splits sum.splits)
  moreover have "world (snd (sys_unit x y)) = snd x" for x and y :: "'a sys"
    by (auto simp: sys_unit_def split: prod.splits sum.splits)
  ultimately show ?thesis
    unfolding s' fs_close_def fs_unlink_def by auto
qed

theorem movefile_to_same_branch_unlinks_copy_witness:
  "\<exists>fd' s'. movefile sample_os [''/a''] ''/f'' 5 3 (sample_sys [''/a'', ''/a/f'']) = Some (0, fd', s')
     \<and> world s' = [''/a'']
     \<and> (\<exists>tmp w w' fdin. k_rename sample_os tmp ''/a/f'' w = (Inr (), w')
          \<and> world s' = snd (k_close sample_os 3 (snd (k_close sample_os fdin (snd (k_unlink sample_os ''/a/f'' w'))))))"
proof -
  let ?s = "sample_sys [''/a'', ''/a/f'']"
  let ?m = "movefile sample_os [''/a''] ''/f'' 5 3 ?s"
  have "?m \<noteq> None \<and> fst (the ?m) = 0 \<and> world (snd (snd (the ?m))) = [''/a'']" by code_simp
  then obtain fd' s' where m: "?m = Some (0, fd', s')" "world s' = [''/a'']" by (cases ?m) auto
  have st: "k_fstat sample_os 3 (world ?s) = Inr (sample_stat 5)" "k_getfl sample_os 3 (world ?s) = Inr 0"
    by (simp_all add: sample_os_def)
  have f: "fst (findonfs sample_os [''/a''] ''/f'' 3 ?s) = Some ''/a''"
    "fst (fs_mfs sample_os [''/a''] (st_size (sample_stat 5) + 5) (snd (findonfs sample_os [''/a''] ''/f'' 3 ?s))) = Some ''/a''"
    by code_simp+
  show ?thesis
    using movefile_to_same_branch_unlinks_copy [OF st, of "[''/a'']" "''/f''" "''/a''" _ 5 _ fd' s'] f m
    by (auto simp: prod_eq_iff)
qed

text \<open>
  A short write is reported as a full one. Without direct I/O the handler returns the size of the buffer whenever the
  system has written at least one byte of it, and the rest is not written again.
\<close>

theorem write_regular_hides_short_write:
  assumes "k_pwrite os fd buf offset (world s) = (Inr n, w)" "0 < n" "n < 2 ^ 31" "length buf < 2 ^ 31"
  shows "write_regular os fd buf offset s = (int (length buf), s\<lparr>world := w\<rparr>)"
  using assms to_int_small [OF assms(3)] to_int_small [OF assms(4)]
  by (simp add: write_regular_def fs_pwrite_def sys_ret_def)

theorem write_regular_hides_short_write_witness:
  "write_regular (sample_os\<lparr>k_pwrite := (\<lambda>fd b off w. (Inr 2, w))\<rparr>) 3 ''hello'' 0 (sample_sys []) = (5, sample_sys [])"
  using write_regular_hides_short_write [of "sample_os\<lparr>k_pwrite := (\<lambda>fd b off w. (Inr 2, w))\<rparr>" 3 "''hello''" 0 "sample_sys []" 2 "[]"]
  by (simp add: sample_sys_def)

end
