(* ===== verification/Searches.thy ===== *)
theory Searches
  imports Movefile
begin

text \<open>
  The handlers that look at one branch, the first the search policy returns: \<^verbatim>\<open>fuse_access.cpp\<close>,
  \<^verbatim>\<open>fuse_getattr.cpp\<close> with \<^verbatim>\<open>symlinkify.hpp\<close> and \<^verbatim>\<open>fs_inode.hpp\<close>, \<^verbatim>\<open>fuse_readlink.cpp\<close>, \<^verbatim>\<open>fuse_open.cpp\<close>
  and \<^verbatim>\<open>fuse_ioctl.cpp\<close>.
\<close>

unbundle bit_operations_syntax

section \<open>access\<close>

definition l_access ::
  "'w os \<Rightarrow> Policy \<Rightarrow> Branch list \<Rightarrow> u64 \<Rightarrow> string \<Rightarrow> int \<Rightarrow> 'w sys \<Rightarrow> int \<times> 'w sys" where
  "l_access os searchFunc branches minfreespace fusepath msk s =
     (case Func_Base os Cat_search searchFunc branches fusepath minfreespace [] s of (rv, basepaths, s) \<Rightarrow>
      if rv = - 1 then (- errno s, s)
      else case fs_eaccess os (path_make (basepaths ! 0) fusepath) msk s of (rv, s) \<Rightarrow>
        (if rv = - 1 then - errno s else 0, s))"

definition FUSE_access :: "'w os \<Rightarrow> fuse_context \<Rightarrow> string \<Rightarrow> int \<Rightarrow> Config \<Rightarrow> 'w sys \<Rightarrow> int \<times> 'w sys" where
  "FUSE_access os fc fusepath msk cfg s =
     (let s = ugid_Set os (fc_uid fc) (fc_gid fc) s
      in l_access os (cf_policies cfg FF_access) (cf_branches cfg) (cf_minfreespace cfg) fusepath msk s)"

section \<open>getattr\<close>

definition can_be_symlink :: "'w os \<Rightarrow> stat \<Rightarrow> time_t \<Rightarrow> 'w sys \<Rightarrow> bool" where
  "can_be_symlink os st timeout s =
     (if S_ISDIR (st_mode st) \<or> st_mode st AND 0x92 \<noteq> 0 then False
      else let now = k_time os (world s)
           in sint (now - st_mtime st) > sint timeout \<and> sint (now - st_ctime st) > sint timeout)"

definition symlinkify_convert :: "mode_t \<Rightarrow> mode_t" where
  "symlinkify_convert mode = (mode AND NOT S_IFMT) OR S_IFLNK"

abbreviation INODE_MAGIC :: u64 where "INODE_MAGIC \<equiv> 0x7472617065786974"

definition inode_recompute :: "stat \<Rightarrow> stat" where
  "inode_recompute st = st\<lparr>st_ino := st_ino st OR push_bit 32 (st_dev st)\<rparr>"

text \<open>The control file has the owner and the time the process had when it was first asked about.\<close>

definition getattr_controlfile :: "u32 \<Rightarrow> u32 \<Rightarrow> time_t \<Rightarrow> stat \<Rightarrow> stat" where
  "getattr_controlfile uid gid now st =
     st\<lparr>st_dev := 0, st_ino := INODE_MAGIC, st_mode := 0x81B4, st_nlink := 1, st_uid := uid, st_gid := gid,
        st_rdev := 0, st_size := 0, st_blksize := 512, st_blocks := 0,
        st_atim := (st_atim st)\<lparr>tv_sec := now\<rparr>, st_mtim := (st_mtim st)\<lparr>tv_sec := now\<rparr>,
        st_ctim := (st_ctim st)\<lparr>tv_sec := now\<rparr>\<rparr>"

definition l_getattr ::
  "'w os \<Rightarrow> Policy \<Rightarrow> Branch list \<Rightarrow> u64 \<Rightarrow> string \<Rightarrow> stat \<Rightarrow> bool \<Rightarrow> time_t \<Rightarrow> 'w sys \<Rightarrow> int \<times> stat \<times> 'w sys" where
  "l_getattr os searchFunc branches minfreespace fusepath st symlinkify symlinkify_timeout s =
     (case Func_Base os Cat_search searchFunc branches fusepath minfreespace [] s of (rv, basepaths, s) \<Rightarrow>
      if rv = - 1 then (- errno s, st, s)
      else (case fs_lstat os (path_make (basepaths ! 0) fusepath) s of
              (None, s) \<Rightarrow> (- errno s, st, s)
            | (Some st, s) \<Rightarrow>
                let st = (if symlinkify \<and> can_be_symlink os st symlinkify_timeout s
                          then st\<lparr>st_mode := symlinkify_convert (st_mode st)\<rparr> else st)
                in (0, inode_recompute st, s)))"

definition FUSE_getattr ::
  "'w os \<Rightarrow> (u32 \<times> u32 \<times> time_t) \<Rightarrow> fuse_context \<Rightarrow> string \<Rightarrow> stat \<Rightarrow> Config \<Rightarrow> 'w sys \<Rightarrow> int \<times> stat \<times> 'w sys" where
  "FUSE_getattr os ctl fc fusepath st cfg s =
     (if fusepath = cf_controlfile cfg
      then (case ctl of (uid, gid, now) \<Rightarrow> (0, getattr_controlfile uid gid now st, s))
      else
        let s = ugid_Set os (fc_uid fc) (fc_gid fc) s
        in l_getattr os (cf_policies cfg FF_getattr) (cf_branches cfg) (cf_minfreespace cfg) fusepath st
             (cf_symlinkify cfg) (cf_symlinkify_timeout cfg) s)"

section \<open>readlink\<close>

text \<open>The result is the return value and the text placed in the buffer, if any.\<close>

definition readlink_core_standard :: "'w os \<Rightarrow> string \<Rightarrow> nat \<Rightarrow> 'w sys \<Rightarrow> int \<times> string option \<times> 'w sys" where
  "readlink_core_standard os fullpath bufsize s =
     (case fs_readlink os fullpath bufsize s of
        (None, s) \<Rightarrow> (- errno s, None, s)
      | (Some target, s) \<Rightarrow> (0, Some target, s))"

definition readlink_core_symlinkify ::
  "'w os \<Rightarrow> string \<Rightarrow> nat \<Rightarrow> time_t \<Rightarrow> 'w sys \<Rightarrow> int \<times> string option \<times> 'w sys" where
  "readlink_core_symlinkify os fullpath bufsize symlinkify_timeout s =
     (case fs_lstat os fullpath s of
        (None, s) \<Rightarrow> (- errno s, None, s)
      | (Some st, s) \<Rightarrow>
          if \<not> can_be_symlink os st symlinkify_timeout s then readlink_core_standard os fullpath bufsize s
          else (0, Some (take bufsize (c_str fullpath)), s))"

definition readlink_core ::
  "'w os \<Rightarrow> string \<Rightarrow> string \<Rightarrow> nat \<Rightarrow> bool \<Rightarrow> time_t \<Rightarrow> 'w sys \<Rightarrow> int \<times> string option \<times> 'w sys" where
  "readlink_core os basepath fusepath bufsize symlinkify symlinkify_timeout s =
     (let fullpath = path_make basepath fusepath
      in if symlinkify then readlink_core_symlinkify os fullpath bufsize symlinkify_timeout s
         else readlink_core_standard os fullpath bufsize s)"

definition l_readlink ::
  "'w os \<Rightarrow> Policy \<Rightarrow> Branch list \<Rightarrow> u64 \<Rightarrow> string \<Rightarrow> nat \<Rightarrow> bool \<Rightarrow> time_t \<Rightarrow> 'w sys \<Rightarrow> int \<times> string option \<times> 'w sys" where
  "l_readlink os searchFunc branches minfreespace fusepath bufsize symlinkify symlinkify_timeout s =
     (case Func_Base os Cat_search searchFunc branches fusepath minfreespace [] s of (rv, basepaths, s) \<Rightarrow>
      if rv = - 1 then (- errno s, None, s)
      else readlink_core os (basepaths ! 0) fusepath bufsize symlinkify symlinkify_timeout s)"

definition FUSE_readlink ::
  "'w os \<Rightarrow> fuse_context \<Rightarrow> string \<Rightarrow> nat \<Rightarrow> Config \<Rightarrow> 'w sys \<Rightarrow> int \<times> string option \<times> 'w sys" where
  "FUSE_readlink os fc fusepath bufsize cfg s =
     (let s = ugid_Set os (fc_uid fc) (fc_gid fc) s
      in l_readlink os (cf_policies cfg FF_readlink) (cf_branches cfg) (cf_minfreespace cfg) fusepath bufsize
           (cf_symlinkify cfg) (cf_symlinkify_timeout cfg) s)"

section \<open>open\<close>

definition open_core ::
  "'w os \<Rightarrow> string \<Rightarrow> string \<Rightarrow> u32 \<Rightarrow> bool \<Rightarrow> FileInfo option \<Rightarrow> 'w sys \<Rightarrow> (int \<times> FileInfo option \<times> 'w sys) option" where
  "open_core os basepath fusepath flags link_cow fh s =
     (let fullpath = path_make basepath fusepath
      in case (if link_cow
               then (case cow_is_eligible os (c_str fullpath) flags s of (cow, s) \<Rightarrow>
                       if cow then map_option snd (break_link os (c_str fullpath) s) else Some s)
               else Some s) of
           None \<Rightarrow> None
         | Some s \<Rightarrow>
             (case fs_open os fullpath flags 0 s of (fd, s) \<Rightarrow>
                Some (if fd = - 1 then (- errno s, fh, s)
                      else (0, Some \<lparr>fi_fd = fd, fi_fusepath = fusepath\<rparr>, s))))"

definition l_open ::
  "'w os \<Rightarrow> Policy \<Rightarrow> PolicyCache \<Rightarrow> Branch list \<Rightarrow> u64 \<Rightarrow> string \<Rightarrow> u32 \<Rightarrow> bool \<Rightarrow> FileInfo option \<Rightarrow> 'w sys \<Rightarrow>
   (int \<times> FileInfo option \<times> PolicyCache \<times> 'w sys) option" where
  "l_open os searchFunc cache branches minfreespace fusepath flags link_cow fh s =
     (case PolicyCache_call os searchFunc branches fusepath minfreespace [] cache s of (rv, basepath, cache, s) \<Rightarrow>
      if rv = - 1 then Some (- errno s, fh, cache, s)
      else map_option (\<lambda>(rv, fh, s). (rv, fh, cache, s)) (open_core os basepath fusepath flags link_cow fh s))"

definition FUSE_open ::
  "'w os \<Rightarrow> fuse_context \<Rightarrow> string \<Rightarrow> fuse_file_info \<Rightarrow> Config \<Rightarrow> 'w sys \<Rightarrow>
   (int \<times> fuse_file_info \<times> Config \<times> 'w sys) option" where
  "FUSE_open os fc fusepath ffi cfg s =
     (let s = ugid_Set os (fc_uid fc) (fc_gid fc) s;
          ffi = ffi\<lparr>ffi_direct_io := cf_direct_io cfg\<rparr>
      in map_option (\<lambda>(rv, fh, cache, s). (rv, ffi\<lparr>ffi_fh := fh\<rparr>, cfg\<lparr>cf_open_cache := cache\<rparr>, s))
           (l_open os (cf_policies cfg FF_open) (cf_open_cache cfg) (cf_branches cfg) (cf_minfreespace cfg)
              fusepath (ffi_flags ffi) (cf_link_cow cfg) (ffi_fh ffi) s))"

section \<open>ioctl\<close>

record DirInfo =
  di_fusepath :: string

abbreviation FS_IOC_GETFLAGS :: u32 where "FS_IOC_GETFLAGS \<equiv> 0x80086601"
abbreviation FS_IOC_SETFLAGS :: u32 where "FS_IOC_SETFLAGS \<equiv> 0x40086602"
abbreviation FS_IOC_GETVERSION :: u32 where "FS_IOC_GETVERSION \<equiv> 0x80087601"
abbreviation FS_IOC_SETVERSION :: u32 where "FS_IOC_SETVERSION \<equiv> 0x40087602"
abbreviation FUSE_IOCTL_DIR :: u32 where "FUSE_IOCTL_DIR \<equiv> 0x10"

text \<open>\<open>big\<close> tells whether the machine is big-endian; \<^verbatim>\<open>long\<close> and \<^verbatim>\<open>int\<close> differ in size on 64-bit Linux. The data is \<open>None\<close> for a null pointer.\<close>

definition l_ioctl ::
  "'w os \<Rightarrow> bool \<Rightarrow> int \<Rightarrow> u32 \<Rightarrow> string option \<Rightarrow> u32 \<Rightarrow> 'w sys \<Rightarrow> int \<times> string option \<times> u32 \<times> 'w sys" where
  "l_ioctl os big fd cmd data out_bufsz s =
     (let flagcmd = cmd \<in> {FS_IOC_GETFLAGS, FS_IOC_SETFLAGS, FS_IOC_GETVERSION, FS_IOC_SETVERSION}
      in if flagcmd \<and> big then (- ENOTTY, data, out_bufsz, s)
         else
           let out_bufsz = (if flagcmd \<and> data \<noteq> None \<and> out_bufsz > 4 then 4 else out_bufsz)
           in case fs_ioctl os fd cmd (case data of None \<Rightarrow> [] | Some d \<Rightarrow> d) s of
                (None, s) \<Rightarrow> (- errno s, data, out_bufsz, s)
              | (Some (rv, data'), s) \<Rightarrow>
                  (if rv = - 1 then - errno s else rv, map_option (\<lambda>_. data') data, out_bufsz, s))"

definition ioctl_dir_base ::
  "'w os \<Rightarrow> bool \<Rightarrow> Policy \<Rightarrow> Branch list \<Rightarrow> u64 \<Rightarrow> string \<Rightarrow> u32 \<Rightarrow> string option \<Rightarrow> u32 \<Rightarrow> 'w sys \<Rightarrow>
   int \<times> string option \<times> u32 \<times> 'w sys" where
  "ioctl_dir_base os big searchFunc branches minfreespace fusepath cmd data out_bufsz s =
     (case Func_Base os Cat_search searchFunc branches fusepath minfreespace [] s of (rv, basepaths, s) \<Rightarrow>
      if rv = - 1 then (- errno s, data, out_bufsz, s)
      else case fs_open os (path_make (basepaths ! 0) fusepath) (O_RDONLY OR O_NOATIME OR O_NONBLOCK) 0 s of (fd, s) \<Rightarrow>
      if fd = - 1 then (- errno s, data, out_bufsz, s)
      else case l_ioctl os big fd cmd data out_bufsz s of (rv, data, out_bufsz, s) \<Rightarrow>
        (rv, data, out_bufsz, snd (fs_close os fd s)))"

definition ioctl_dir ::
  "'w os \<Rightarrow> bool \<Rightarrow> fuse_context \<Rightarrow> DirInfo \<Rightarrow> u32 \<Rightarrow> string option \<Rightarrow> u32 \<Rightarrow> Config \<Rightarrow> 'w sys \<Rightarrow>
   int \<times> string option \<times> u32 \<times> 'w sys" where
  "ioctl_dir os big fc di cmd data out_bufsz cfg s =
     (let s = ugid_Set os (fc_uid fc) (fc_gid fc) s
      in ioctl_dir_base os big (cf_policies cfg FF_open) (cf_branches cfg) (cf_minfreespace cfg)
           (c_str (di_fusepath di)) cmd data out_bufsz s)"

definition FUSE_ioctl ::
  "'w os \<Rightarrow> bool \<Rightarrow> fuse_context \<Rightarrow> FileInfo \<Rightarrow> DirInfo \<Rightarrow> u32 \<Rightarrow> u32 \<Rightarrow> string option \<Rightarrow> u32 \<Rightarrow> Config \<Rightarrow> 'w sys \<Rightarrow>
   int \<times> string option \<times> u32 \<times> 'w sys" where
  "FUSE_ioctl os big fc fi di flags cmd data out_bufsz cfg s =
     (if flags AND FUSE_IOCTL_DIR \<noteq> 0 then ioctl_dir os big fc di cmd data out_bufsz cfg s
      else l_ioctl os big (fi_fd fi) cmd data out_bufsz s)"

section \<open>What getattr answers\<close>

text \<open>The branches that hold a path, in the order of the pool.\<close>

definition homes :: "'w os \<Rightarrow> 'w \<Rightarrow> string \<Rightarrow> Branch list \<Rightarrow> Branch list" where
  "homes os w p bs = filter (\<lambda>b. \<not> isl (k_lstat os (path_make (br_path b) p) w)) bs"

lemma epff_search_step:
  "epff_search_body os p b u s =
     (if isl (k_lstat os (path_make (br_path b) p) (world s))
      then (Inl (), s\<lparr>errno := projl (k_lstat os (path_make (br_path b) p) (world s))\<rparr>)
      else (Inr (br_path b), s))"
  by (cases "k_lstat os (path_make (br_path b) p) (world s)")
    (simp_all add: epff_search_body_def fs_exists_def fs_exists_st_def fs_lstat_def sys_val_def)

lemma epff_search_homes:
  "\<exists>e. epff_search os bs p [] s =
     (case homes os (world s) p bs of
        [] \<Rightarrow> (- 1, [], s\<lparr>errno := ENOENT\<rparr>)
      | b # _ \<Rightarrow> (0, [br_path b], s\<lparr>errno := e\<rparr>))"
proof -
  have "\<exists>e. for_until (epff_search_body os p) bs () s =
     (case homes os (world s) p bs of
        [] \<Rightarrow> (Inl (), s\<lparr>errno := e\<rparr>)
      | b # _ \<Rightarrow> (Inr (br_path b), s\<lparr>errno := e\<rparr>))"
  proof (induction bs arbitrary: s)
    case Nil
    show ?case by (auto simp: homes_def intro: exI [of _ "errno s"])
  next
    case (Cons b bs)
    show ?case
    proof (cases "isl (k_lstat os (path_make (br_path b) p) (world s))")
      case False
      then show ?thesis by (auto simp: homes_def epff_search_step intro: exI [of _ "errno s"])
    next
      case True
      then show ?thesis
        using Cons [of "s\<lparr>errno := projl (k_lstat os (path_make (br_path b) p) (world s))\<rparr>"]
        by (auto simp: homes_def epff_search_step split: list.splits)
    qed
  qed
  then show ?thesis by (auto simp: epff_search_def return_first_def split: list.splits)
qed

lemma first_found_branch:
  assumes "pol_enum pol = Pol_ff \<or> pol_enum pol = Pol_epff"
  shows "\<exists>e. Func_Base os Cat_search pol bs p m [] s =
     (case homes os (world s) p bs of
        [] \<Rightarrow> (- 1, [], s\<lparr>errno := ENOENT\<rparr>)
      | b # _ \<Rightarrow> (0, [br_path b], s\<lparr>errno := e\<rparr>))"
  using assms epff_search_homes [of os bs p s]
  by (auto simp: Func_Base_def policy_func_def Func_ff_def Func_epff_def)

text \<open>
  C27: with the default search policy \<^verbatim>\<open>ff\<close> and \<^verbatim>\<open>symlinkify\<close> off (its default), the attributes reported for a path other
  than the control file are those of the file on the first branch of the pool that holds it, with the inode number
  recomputed from the inode and device number; when no branch holds it, the answer is \<^verbatim>\<open>ENOENT\<close> and the attributes stay
  as they were. Apart from the change to the caller's credentials the kernel state does not change.
\<close>

theorem getattr_first_branch:
  fixes os :: "'w os" and fc :: fuse_context and s :: "'w sys"
  assumes "pol_enum (cf_policies cfg FF_getattr) = Pol_ff" "p \<noteq> cf_controlfile cfg" "\<not> cf_symlinkify cfg"
  defines "w \<equiv> world (ugid_Set os (fc_uid fc) (fc_gid fc) s)"
  shows "\<exists>t. world t = w \<and>
    (case homes os w p (cf_branches cfg) of
       [] \<Rightarrow> FUSE_getattr os ctl fc p st cfg s = (- ENOENT, st, t)
     | b # _ \<Rightarrow> \<exists>a. k_lstat os (path_make (br_path b) p) w = Inr a
         \<and> FUSE_getattr os ctl fc p st cfg s = (0, inode_recompute a, t))"
proof -
  let ?u = "ugid_Set os (fc_uid fc) (fc_gid fc) s"
  obtain e where e: "Func_Base os Cat_search (cf_policies cfg FF_getattr) (cf_branches cfg) p (cf_minfreespace cfg) [] ?u =
     (case homes os w p (cf_branches cfg) of
        [] \<Rightarrow> (- 1, [], ?u\<lparr>errno := ENOENT\<rparr>)
      | b # _ \<Rightarrow> (0, [br_path b], ?u\<lparr>errno := e\<rparr>))"
    using first_found_branch assms(1) unfolding w_def by blast
  show ?thesis
  proof (cases "homes os w p (cf_branches cfg)")
    case Nil
    then show ?thesis
      using assms(2,3) e by (auto simp: FUSE_getattr_def Let_def l_getattr_def w_def intro: exI [of _ "?u\<lparr>errno := ENOENT\<rparr>"])
  next
    case (Cons b bs)
    then have "b \<in> set (homes os w p (cf_branches cfg))" by simp
    then obtain a where a: "k_lstat os (path_make (br_path b) p) w = Inr a"
      by (auto simp: homes_def) (metis sum.collapse(2))
    then show ?thesis
      using assms(2,3) e Cons
      by (auto simp: FUSE_getattr_def Let_def l_getattr_def fs_lstat_def sys_val_def w_def
          intro!: exI [of _ "?u\<lparr>errno := e\<rparr>"])
  qed
qed

theorem getattr_first_branch_witness:
  "let cfg = sample_config two_branches (\<lambda>_. sample_policy Pol_ff);
       r = FUSE_getattr sample_os (0, 0, 0) sample_root ''/x'' (sample_stat 1) cfg (sample_sys [''/b/x''])
   in fst r = 0 \<and> fst (snd r) = inode_recompute (sample_stat 5)"
proof -
  let ?cfg = "sample_config two_branches (\<lambda>_. sample_policy Pol_ff)"
  have "cf_policies ?cfg FF_getattr = sample_policy Pol_ff" "\<not> cf_symlinkify ?cfg" "cf_controlfile ?cfg = ''/.mergerfs''"
    "pol_enum (sample_policy Pol_ff) = Pol_ff"
    by (simp_all add: sample_config_def sample_policy_def)
  moreover have "homes sample_os (world (ugid_Set sample_os (fc_uid sample_root) (fc_gid sample_root) (sample_sys [''/b/x''])))
      ''/x'' (cf_branches ?cfg) = [\<lparr>br_mode = Mode_RW, br_path = ''/b''\<rparr>]"
    by code_simp
  moreover have "k_lstat sample_os (path_make ''/b'' ''/x'')
      (world (ugid_Set sample_os (fc_uid sample_root) (fc_gid sample_root) (sample_sys [''/b/x'']))) = Inr (sample_stat 5)"
    by code_simp
  ultimately show ?thesis
    using getattr_first_branch [of ?cfg "''/x''" sample_os sample_root "sample_sys [''/b/x'']" "(0, 0, 0)" "sample_stat 1"]
    by auto
qed

section \<open>Inode numbers\<close>

lemma high_bits: "x < 2 ^ 32 \<Longrightarrow> 32 \<le> n \<Longrightarrow> \<not> bit x n" for x :: u64
  by (rule word_high_bits [of x 32]) (simp_all add: word_less_nat_alt)

lemma inode_parts:
  fixes x d :: u64
  assumes "x < 2 ^ 32" "d < 2 ^ 32"
  shows "take_bit 32 (x OR push_bit 32 d) = x" "drop_bit 32 (x OR push_bit 32 d) = d"
  by (auto intro!: bit_word_eqI simp: bit_simps not_less high_bits [OF assms(1)])
    (metis high_bits [OF assms(2)] linorder_not_less)

text \<open>
  C28: the inode numbers shown to the kernel identify files: two files whose device and inode numbers fit in 32 bits and whose computed
  numbers agree have the same device and the same inode number.
\<close>

theorem inode_recompute_injective:
  assumes "st_ino a < 2 ^ 32" "st_ino b < 2 ^ 32" "st_dev a < 2 ^ 32" "st_dev b < 2 ^ 32"
    and "st_ino (inode_recompute a) = st_ino (inode_recompute b)"
  shows "st_ino a = st_ino b \<and> st_dev a = st_dev b"
proof -
  have "st_ino (inode_recompute st) = st_ino st OR push_bit 32 (st_dev st)" for st :: stat
    by (simp add: inode_recompute_def)
  then show ?thesis using assms by (metis inode_parts)
qed

theorem inode_recompute_injective_witness:
  "st_ino (inode_recompute (sample_stat 5)) = st_ino (inode_recompute ((sample_stat 5)\<lparr>st_size := 1\<rparr>))
   \<and> st_dev (sample_stat 5) = st_dev ((sample_stat 5)\<lparr>st_size := 1\<rparr>)"
  using inode_recompute_injective [of "sample_stat 5" "(sample_stat 5)\<lparr>st_size := 1\<rparr>"]
  by (simp add: sample_stat_def inode_recompute_def)

end
