(* ===== verification/File_Handles.thy ===== *)
theory File_Handles
  imports Searches
begin

text \<open>
  The handlers of an open file, which work on the descriptor in its \<open>FileInfo\<close>: \<^verbatim>\<open>fuse_read.cpp\<close>,
  \<^verbatim>\<open>fuse_read_buf.cpp\<close>, \<^verbatim>\<open>fuse_fgetattr.cpp\<close>, \<^verbatim>\<open>fuse_fsync.cpp\<close>, \<^verbatim>\<open>fuse_flush.cpp\<close>, \<^verbatim>\<open>fuse_flock.cpp\<close>,
  \<^verbatim>\<open>fuse_ftruncate.cpp\<close>, \<^verbatim>\<open>fuse_fallocate.cpp\<close> and \<^verbatim>\<open>fuse_release.cpp\<close>; and those of a directory that need no
  branch, \<^verbatim>\<open>fuse_opendir.cpp\<close>, \<^verbatim>\<open>fuse_releasedir.cpp\<close>, \<^verbatim>\<open>fuse_fsyncdir.cpp\<close>, with \<^verbatim>\<open>fuse_init.cpp\<close>.
\<close>

unbundle bit_operations_syntax

section \<open>Reading\<close>

text \<open>The result is the return value and the bytes placed in the buffer.\<close>

definition read_regular :: "'w os \<Rightarrow> int \<Rightarrow> nat \<Rightarrow> 64 word \<Rightarrow> 'w sys \<Rightarrow> int \<times> string \<times> 'w sys" where
  "read_regular os fd cnt offset s =
     (case fs_pread os fd cnt offset s of
        (None, s) \<Rightarrow> (- errno s, [], s)
      | (Some buf, s) \<Rightarrow>
          let rv = to_int (int (length buf))
          in if rv = - 1 then (- errno s, buf, s)
             else if rv = 0 then (0, buf, s)
             else (to_int (int cnt), buf, s))"

definition read_direct_io :: "'w os \<Rightarrow> int \<Rightarrow> nat \<Rightarrow> 64 word \<Rightarrow> 'w sys \<Rightarrow> int \<times> string \<times> 'w sys" where
  "read_direct_io os fd cnt offset s =
     (case fs_pread os fd cnt offset s of
        (None, s) \<Rightarrow> (- errno s, [], s)
      | (Some buf, s) \<Rightarrow>
          let rv = to_int (int (length buf)) in (if rv = - 1 then - errno s else rv, buf, s))"

definition FUSE_read ::
  "'w os \<Rightarrow> nat \<Rightarrow> 64 word \<Rightarrow> FileInfo \<Rightarrow> bool \<Rightarrow> 'w sys \<Rightarrow> int \<times> string \<times> 'w sys" where
  "FUSE_read os cnt offset fi direct_io s =
     (if direct_io then read_direct_io os (fi_fd fi) cnt offset s
      else read_regular os (fi_fd fi) cnt offset s)"

definition FUSE_read_null :: "nat \<Rightarrow> int" where
  "FUSE_read_null cnt = to_int (int cnt)"

definition FUSE_write_null :: "nat \<Rightarrow> int" where
  "FUSE_write_null cnt = to_int (int cnt)"

text \<open>\<open>fuse_buf\<close> is what \<^verbatim>\<open>read_buf\<close> fills of the structure of \<^verbatim>\<open>fuse_common.h\<close>; the allocation succeeds.\<close>

record fuse_buf =
  fb_size :: nat
  fb_flags :: u32
  fb_fd :: int
  fb_pos :: "64 word"

abbreviation FUSE_BUF_IS_FD :: u32 where "FUSE_BUF_IS_FD \<equiv> 2"
abbreviation FUSE_BUF_FD_SEEK :: u32 where "FUSE_BUF_FD_SEEK \<equiv> 4"
abbreviation FUSE_BUF_FD_RETRY :: u32 where "FUSE_BUF_FD_RETRY \<equiv> 8"

definition read_buf :: "int \<Rightarrow> nat \<Rightarrow> 64 word \<Rightarrow> int \<times> fuse_buf" where
  "read_buf fd cnt offset =
     (0, \<lparr>fb_size = cnt, fb_flags = FUSE_BUF_IS_FD OR FUSE_BUF_FD_SEEK OR FUSE_BUF_FD_RETRY, fb_fd = fd, fb_pos = offset\<rparr>)"

definition FUSE_read_buf :: "nat \<Rightarrow> 64 word \<Rightarrow> FileInfo \<Rightarrow> int \<times> fuse_buf" where
  "FUSE_read_buf cnt offset fi = read_buf (fi_fd fi) cnt offset"

section \<open>The other calls on a descriptor\<close>

definition l_fgetattr :: "'w os \<Rightarrow> int \<Rightarrow> stat \<Rightarrow> 'w sys \<Rightarrow> int \<times> stat \<times> 'w sys" where
  "l_fgetattr os fd st s =
     (case fs_fstat os fd s of
        (None, s) \<Rightarrow> (- errno s, st, s)
      | (Some st, s) \<Rightarrow> (0, inode_recompute st, s))"

definition FUSE_fgetattr :: "'w os \<Rightarrow> stat \<Rightarrow> FileInfo \<Rightarrow> 'w sys \<Rightarrow> int \<times> stat \<times> 'w sys" where
  "FUSE_fgetattr os st fi s = l_fgetattr os (fi_fd fi) st s"

definition l_fsync :: "'w os \<Rightarrow> int \<Rightarrow> bool \<Rightarrow> 'w sys \<Rightarrow> int \<times> 'w sys" where
  "l_fsync os fd isdatasync s =
     (case (if isdatasync then fs_fdatasync os fd s else fs_fsync os fd s) of (rv, s) \<Rightarrow>
        (if rv = - 1 then - errno s else 0, s))"

definition FUSE_fsync :: "'w os \<Rightarrow> bool \<Rightarrow> FileInfo \<Rightarrow> 'w sys \<Rightarrow> int \<times> 'w sys" where
  "FUSE_fsync os isdatasync fi s = l_fsync os (fi_fd fi) isdatasync s"

definition l_flush :: "'w os \<Rightarrow> int \<Rightarrow> 'w sys \<Rightarrow> int \<times> 'w sys" where
  "l_flush os fd s =
     (case (case fs_dup os fd s of (rv, s) \<Rightarrow> if rv = - 1 then (rv, s\<lparr>errno := EIO\<rparr>) else fs_close os rv s) of (rv, s) \<Rightarrow>
        (if rv = - 1 then - errno s else 0, s))"

definition FUSE_flush :: "'w os \<Rightarrow> FileInfo \<Rightarrow> 'w sys \<Rightarrow> int \<times> 'w sys" where
  "FUSE_flush os fi s = l_flush os (fi_fd fi) s"

definition l_flock :: "'w os \<Rightarrow> int \<Rightarrow> u32 \<Rightarrow> 'w sys \<Rightarrow> int \<times> 'w sys" where
  "l_flock os fd operation s =
     (case fs_flock os fd operation s of (rv, s) \<Rightarrow> (if rv = - 1 then - errno s else 0, s))"

definition FUSE_flock :: "'w os \<Rightarrow> FileInfo \<Rightarrow> u32 \<Rightarrow> 'w sys \<Rightarrow> int \<times> 'w sys" where
  "FUSE_flock os fi op s = l_flock os (fi_fd fi) op s"

definition l_ftruncate :: "'w os \<Rightarrow> int \<Rightarrow> 64 word \<Rightarrow> 'w sys \<Rightarrow> int \<times> 'w sys" where
  "l_ftruncate os fd len s =
     (case fs_ftruncate os fd len s of (rv, s) \<Rightarrow> (if rv = - 1 then - errno s else 0, s))"

definition FUSE_ftruncate :: "'w os \<Rightarrow> 64 word \<Rightarrow> FileInfo \<Rightarrow> 'w sys \<Rightarrow> int \<times> 'w sys" where
  "FUSE_ftruncate os len fi s = l_ftruncate os (fi_fd fi) len s"

definition l_fallocate :: "'w os \<Rightarrow> int \<Rightarrow> u32 \<Rightarrow> 64 word \<Rightarrow> 64 word \<Rightarrow> 'w sys \<Rightarrow> int \<times> 'w sys" where
  "l_fallocate os fd mode offset len s =
     (case fs_fallocate os fd mode offset len s of (rv, s) \<Rightarrow> (if rv = - 1 then - errno s else 0, s))"

definition FUSE_fallocate :: "'w os \<Rightarrow> u32 \<Rightarrow> 64 word \<Rightarrow> 64 word \<Rightarrow> FileInfo \<Rightarrow> 'w sys \<Rightarrow> int \<times> 'w sys" where
  "FUSE_fallocate os mode offset len fi s = l_fallocate os (fi_fd fi) mode offset len s"

definition fadvise_dontneed :: "'w os \<Rightarrow> int \<Rightarrow> 64 word \<Rightarrow> 64 word \<Rightarrow> 'w sys \<Rightarrow> int \<times> 'w sys" where
  "fadvise_dontneed os fd offset len s = fs_fadvise os fd offset len POSIX_FADV_DONTNEED s"

definition l_release :: "'w os \<Rightarrow> FileInfo \<Rightarrow> bool \<Rightarrow> 'w sys \<Rightarrow> int \<times> 'w sys" where
  "l_release os fi dropcacheonclose s =
     (let s = (if dropcacheonclose
               then snd (fadvise_dontneed os (fi_fd fi) 0 0 (snd (fadvise_dontneed os (fi_fd fi) 0 0 s)))
               else s);
          s = snd (fs_close os (fi_fd fi) s)
      in (0, s))"

definition FUSE_release :: "'w os \<Rightarrow> FileInfo \<Rightarrow> Config \<Rightarrow> 'w sys \<Rightarrow> int \<times> Config \<times> 'w sys" where
  "FUSE_release os fi cfg s =
     (case (if pc_timeout (cf_open_cache cfg) \<noteq> 0 then PolicyCache_cleanup os 10 (cf_open_cache cfg) s
            else (cf_open_cache cfg, s)) of (cache, s) \<Rightarrow>
      case l_release os fi (cf_dropcacheonclose cfg) s of (rv, s) \<Rightarrow> (rv, cfg\<lparr>cf_open_cache := cache\<rparr>, s))"

section \<open>Directories and the start\<close>

definition FUSE_opendir :: "string \<Rightarrow> int \<times> DirInfo" where
  "FUSE_opendir fusepath = (0, \<lparr>di_fusepath = fusepath\<rparr>)"

definition l_fsyncdir :: "'w sys \<Rightarrow> int \<times> 'w sys" where
  "l_fsyncdir s = (let rv = - 1; s = s\<lparr>errno := ENOSYS\<rparr> in (if rv = (- 1 :: int) then - errno s else 0, s))"

definition FUSE_fsyncdir :: "'w sys \<Rightarrow> int \<times> 'w sys" where
  "FUSE_fsyncdir s = l_fsyncdir s"

abbreviation FUSE_CAP_ASYNC_READ :: u32 where "FUSE_CAP_ASYNC_READ \<equiv> 0x1"
abbreviation FUSE_CAP_ATOMIC_O_TRUNC :: u32 where "FUSE_CAP_ATOMIC_O_TRUNC \<equiv> 0x8"
abbreviation FUSE_CAP_BIG_WRITES :: u32 where "FUSE_CAP_BIG_WRITES \<equiv> 0x20"
abbreviation FUSE_CAP_DONT_MASK :: u32 where "FUSE_CAP_DONT_MASK \<equiv> 0x40"
abbreviation FUSE_CAP_IOCTL_DIR :: u32 where "FUSE_CAP_IOCTL_DIR \<equiv> 0x800"

text \<open>\<^verbatim>\<open>init\<close> answers the capabilities wanted of the connection; \<^verbatim>\<open>ugid::init\<close> is empty on Linux.\<close>

definition FUSE_init :: "u32 \<Rightarrow> u32" where
  "FUSE_init want =
     ((((want OR FUSE_CAP_ASYNC_READ) OR FUSE_CAP_ATOMIC_O_TRUNC) OR FUSE_CAP_BIG_WRITES) OR FUSE_CAP_DONT_MASK)
       OR FUSE_CAP_IOCTL_DIR"

end
