(* ===== verification/Directory.thy ===== *)
theory Directory
  imports File_Handles
begin

text \<open>
  \<^verbatim>\<open>fasthash.cpp\<close>, \<^verbatim>\<open>hashset.hpp\<close> and \<^verbatim>\<open>fuse_readdir.cpp\<close>: the listing of a directory is the union of the listings on the
  branches; names already seen are recognised by a 64-bit hash. The set of hashes of \<^verbatim>\<open>khash.h\<close> is a set of words, and its
  memory does not run out. Words are read in little-endian order.
\<close>

unbundle bit_operations_syntax

section \<open>fasthash\<close>

definition mix :: "u64 \<Rightarrow> u64" where
  "mix h = (let h = h XOR drop_bit 23 h; h = h * 0x2127599bf4325c37 in h XOR drop_bit 47 h)"

abbreviation hash_m :: u64 where "hash_m \<equiv> 0x880355f21e6d1965"

text \<open>The word with byte \<open>i\<close> at the bits from \<open>8 * i\<close>: a load of eight bytes, and the cases of the switch for fewer.\<close>

fun le_bytes :: "nat \<Rightarrow> string \<Rightarrow> u64" where
  "le_bytes i [] = 0"
| "le_bytes i (c # cs) = push_bit (8 * i) (of_char c) XOR le_bytes (Suc i) cs"

fun hash_loop :: "nat \<Rightarrow> string \<Rightarrow> u64 \<Rightarrow> u64 \<times> string" where
  "hash_loop 0 buf h = (h, buf)"
| "hash_loop (Suc n) buf h = hash_loop n (drop 8 buf) ((h XOR mix (le_bytes 0 (take 8 buf))) * hash_m)"

definition fasthash64 :: "string \<Rightarrow> u64 \<Rightarrow> u64" where
  "fasthash64 buf seed =
     (let len = length buf;
          h = seed XOR (of_nat len * hash_m);
          (h, pos2) = hash_loop (len div 8) buf h;
          h = (if len mod 8 \<noteq> 0 then (h XOR mix (le_bytes 0 pos2)) * hash_m else h)
      in mix h)"

definition fasthash32 :: "string \<Rightarrow> u32 \<Rightarrow> u32" where
  "fasthash32 buf seed = (let h = fasthash64 buf (ucast seed) in ucast (h - drop_bit 32 h))"

definition HashSet_put :: "string \<Rightarrow> u64 set \<Rightarrow> int \<times> u64 set" where
  "HashSet_put str names =
     (let h = fasthash64 (c_str str) 0x7472617065786974
      in if h \<in> names then (0, names) else (1, insert h names))"

section \<open>readdir\<close>

text \<open>
  \<open>filler\<close> is the function of libfuse that adds an entry to the buffer. The loop over a directory ends at its last
  entry: at the test of \<^verbatim>\<open>rv\<close> it is \<open>0\<close>.
\<close>

definition zero_stat :: stat where
  "zero_stat = \<lparr>st_dev = 0, st_ino = 0, st_mode = 0, st_nlink = 0, st_uid = 0, st_gid = 0, st_rdev = 0, st_size = 0,
     st_blksize = 0, st_blocks = 0, st_atim = \<lparr>tv_sec = 0, tv_nsec = 0\<rparr>, st_mtim = \<lparr>tv_sec = 0, tv_nsec = 0\<rparr>,
     st_ctim = \<lparr>tv_sec = 0, tv_nsec = 0\<rparr>\<rparr>"

definition entry_stat :: "u64 \<Rightarrow> dirent \<Rightarrow> stat" where
  "entry_stat dev de =
     inode_recompute (zero_stat\<lparr>st_dev := dev, st_ino := d_ino de, st_mode := push_bit 12 (d_type de)\<rparr>)"

definition readdir_entry ::
  "('b \<Rightarrow> string \<Rightarrow> stat \<Rightarrow> int \<times> 'b) \<Rightarrow> u64 \<Rightarrow> dirent \<Rightarrow> u64 set \<times> 'b \<Rightarrow> 'w sys \<Rightarrow> (u64 set \<times> 'b + 'b) \<times> 'w sys" where
  "readdir_entry filler dev de acc s =
     (case acc of (names, buf) \<Rightarrow>
      case HashSet_put (d_name de) names of (rv, names) \<Rightarrow>
      if rv = 0 then (Inl (names, buf), s)
      else case filler buf (d_name de) (entry_stat dev de) of (rv, buf) \<Rightarrow>
        if rv \<noteq> 0 then (Inr buf, s) else (Inl (names, buf), s))"

definition readdir_branch ::
  "'w os \<Rightarrow> ('b \<Rightarrow> string \<Rightarrow> stat \<Rightarrow> int \<times> 'b) \<Rightarrow> string \<Rightarrow> nat \<times> Branch \<Rightarrow> u64 set \<times> 'b \<Rightarrow> 'w sys \<Rightarrow>
   (u64 set \<times> 'b + 'b) \<times> 'w sys" where
  "readdir_branch os filler dir ib acc s =
     (case ib of (i, b) \<Rightarrow>
      case k_readdir os (path_make (br_path b) dir) (world s) of
        Inl e \<Rightarrow> (Inl acc, s\<lparr>errno := e\<rparr>)
      | Inr (devid, des) \<Rightarrow>
          (case (case devid of Inl e \<Rightarrow> (- 1, s\<lparr>errno := e\<rparr>) | Inr dev \<Rightarrow> (dev, s)) of (dev, s) \<Rightarrow>
             for_until (readdir_entry filler (if dev = - 1 then of_nat i else dev)) des acc s))"

definition l_readdir ::
  "'w os \<Rightarrow> ('b \<Rightarrow> string \<Rightarrow> stat \<Rightarrow> int \<times> 'b) \<Rightarrow> Branch list \<Rightarrow> string \<Rightarrow> 'b \<Rightarrow> 'w sys \<Rightarrow> int \<times> 'b \<times> 'w sys" where
  "l_readdir os filler branches dir buf s =
     (case for_until (readdir_branch os filler dir) (List.enumerate 0 branches) ({}, buf) s of
        (Inr buf, s) \<Rightarrow> (- ENOMEM, buf, s)
      | (Inl (names, buf), s) \<Rightarrow> (0, buf, s))"

definition FUSE_readdir ::
  "'w os \<Rightarrow> ('b \<Rightarrow> string \<Rightarrow> stat \<Rightarrow> int \<times> 'b) \<Rightarrow> fuse_context \<Rightarrow> DirInfo \<Rightarrow> 'b \<Rightarrow> Config \<Rightarrow> 'w sys \<Rightarrow> int \<times> 'b \<times> 'w sys" where
  "FUSE_readdir os filler fc di buf cfg s =
     (let s = ugid_Set os (fc_uid fc) (fc_gid fc) s
      in l_readdir os filler (cf_branches cfg) (c_str (di_fusepath di)) buf s)"

section \<open>The hash separates names that differ in one block\<close>

lemma xorshift_inj:
  fixes x y :: u64
  assumes "0 < k" "x XOR drop_bit k x = y XOR drop_bit k y"
  shows "x = y"
proof (rule bit_word_eqI)
  fix n :: nat
  have step: "bit x i = bit y i" if "bit x (k + i) = bit y (k + i)" for i
    using arg_cong [OF assms(2), of "\<lambda>w. bit w i"] that by (auto simp: bit_simps)
  have top: "bit x i = bit y i" if "64 \<le> i" for i
    using that bit_imp_le_length [of x i] bit_imp_le_length [of y i] by auto
  show "bit x n = bit y n"
  proof (induction "64 - n" arbitrary: n rule: less_induct)
    case less
    show ?case
    proof (cases "64 \<le> n")
      case False
      then have "64 - (k + n) < 64 - n" using assms(1) by auto
      then show ?thesis using less step by blast
    qed (rule top)
  qed
qed

lemma mult_inj:
  fixes x y m i :: u64
  assumes "m * i = 1" "x * m = y * m"
  shows "x = y"
proof -
  have "x * m * i = y * m * i" using assms(2) by simp
  then show ?thesis using assms(1) by (simp add: mult.assoc)
qed

text \<open>The constants are odd, so multiplication with them can be undone.\<close>

lemma hash_units: "(0x2127599bf4325c37 :: u64) * 0xa1bcefb14d101987 = 1" "hash_m * 0x28fc23783fb0706d = 1"
  by (simp_all add: word_eq_iff_unsigned)

lemma mix_inj: "mix x = mix y \<Longrightarrow> x = y"
proof -
  assume "mix x = mix y"
  then have "(x XOR drop_bit 23 x) * 0x2127599bf4325c37 = (y XOR drop_bit 23 y) * 0x2127599bf4325c37"
    unfolding mix_def Let_def by (rule xorshift_inj [rotated]) simp
  then have "x XOR drop_bit 23 x = y XOR drop_bit 23 y"
    by (rule mult_inj [OF hash_units(1)])
  then show ?thesis by (rule xorshift_inj [rotated]) simp
qed

definition hash_step :: "u64 \<Rightarrow> u64 \<Rightarrow> u64" where
  "hash_step h v = (h XOR mix v) * hash_m"

lemma xor_cancel: "a XOR b = c XOR b \<Longrightarrow> a = c" for a b c :: u64
  by (drule arg_cong [where f = "\<lambda>w. w XOR b"]) (simp add: xor.assoc)

lemma hash_step_inj:
  "hash_step h v = hash_step h' v \<Longrightarrow> h = h'" "hash_step h v = hash_step h v' \<Longrightarrow> v = v'"
proof -
  show "h = h'" if "hash_step h v = hash_step h' v"
    by (rule xor_cancel, rule mult_inj [OF hash_units(2)]) (use that in \<open>simp only: hash_step_def\<close>)
  show "v = v'" if "hash_step h v = hash_step h v'"
  proof -
    have "h XOR mix v = h XOR mix v'"
      by (rule mult_inj [OF hash_units(2)]) (use that in \<open>simp only: hash_step_def\<close>)
    then have "mix v XOR h = mix v' XOR h" by (simp only: xor.commute)
    then show ?thesis by (rule xor_cancel [THEN mix_inj])
  qed
qed

lemma hash_fold_inj: "foldl hash_step h vs = foldl hash_step h' vs \<Longrightarrow> h = h'"
  by (induction vs arbitrary: h h') (auto dest: hash_step_inj(1))

text \<open>The words of a buffer, the last one of fewer than eight bytes.\<close>

function hash_words :: "string \<Rightarrow> u64 list" where
  "hash_words buf = (if buf = [] then [] else le_bytes 0 (take 8 buf) # hash_words (drop 8 buf))"
  by pat_completeness auto
termination by (relation "measure length") auto

declare hash_words.simps [simp del]

lemma hash_words_Nil [simp]: "hash_words [] = []"
  by (simp add: hash_words.simps)

lemma hash_loop_words:
  "n * 8 \<le> length buf \<Longrightarrow> hash_loop n buf h = (foldl hash_step h (hash_words (take (n * 8) buf)), drop (n * 8) buf)"
proof (induction n arbitrary: buf h)
  case (Suc n)
  then have "buf \<noteq> []" by auto
  then have "hash_words (take (Suc n * 8) buf) = le_bytes 0 (take 8 buf) # hash_words (take (n * 8) (drop 8 buf))"
    by (subst hash_words.simps) (simp add: drop_take min_def)
  then show ?case using Suc by (simp add: hash_step_def [symmetric] add.commute)
qed simp

lemma hash_words_append: "8 dvd length u \<Longrightarrow> hash_words (u @ v) = hash_words u @ hash_words v"
proof (induction u rule: hash_words.induct)
  case (1 u)
  show ?case
  proof (cases "u = []")
    case False
    then have "8 \<le> length u" using 1(2) by (auto dest: dvd_imp_le)
    moreover have "8 dvd length (drop 8 u)" using 1(2) calculation by (simp add: dvd_diff_nat)
    ultimately show ?thesis
      using 1(1) False by (subst (1 2) hash_words.simps) simp
  qed simp
qed

lemma fasthash64_words: "fasthash64 buf seed = mix (foldl hash_step (seed XOR (of_nat (length buf) * hash_m)) (hash_words buf))"
proof -
  let ?n = "length buf div 8" and ?h = "seed XOR (of_nat (length buf) * hash_m)"
  let ?u = "take (?n * 8) buf" and ?v = "drop (?n * 8) buf"
  have loop: "hash_loop ?n buf ?h = (foldl hash_step ?h (hash_words ?u), ?v)"
    by (rule hash_loop_words) (rule div_times_less_eq_dividend)
  have "hash_words (?u @ ?v) = hash_words ?u @ hash_words ?v"
    by (rule hash_words_append) (simp add: min_absorb2 div_times_less_eq_dividend)
  then have split: "hash_words buf = hash_words ?u @ hash_words ?v" by (simp only: append_take_drop_id)
  have small: "length ?v = length buf mod 8" by (simp add: minus_div_mult_eq_mod)
  have tail: "hash_words ?v = (if length buf mod 8 \<noteq> 0 then [le_bytes 0 ?v] else [])"
  proof (cases "length buf mod 8 = 0")
    case True
    then have "?v = []" using small by (simp only: length_0_conv)
    then show ?thesis using True by (simp only: hash_words_Nil simp_thms if_False)
  next
    case False
    then have "?v \<noteq> []" "take 8 ?v = ?v" "drop 8 ?v = []" using small by auto
    then show ?thesis using False by (subst hash_words.simps) (simp only: hash_words_Nil simp_thms if_False if_True)
  qed
  show ?thesis
    unfolding fasthash64_def Let_def loop case_prod_conv split tail hash_step_def [symmetric]
    by (cases "length buf mod 8 = 0") (simp_all only: simp_thms if_True if_False append_Nil2 foldl_append foldl_Cons foldl_Nil)
qed

lemma le_bytes_shift: "le_bytes (Suc i) cs = push_bit 8 (le_bytes i cs)"
  by (induction cs arbitrary: i) (simp_all add: push_bit_xor push_bit_push_bit add.commute)

lemma byte_unat: "unat (of_char c :: u64) = of_char c"
proof -
  have "unat (of_nat (of_char c) :: u64) = of_char c"
    by (subst unat_of_nat, rule mod_less, rule less_trans [OF nat_of_char_less_256]) simp
  then show ?thesis by (simp only: of_nat_of_char)
qed

lemma byte_bits: "8 \<le> n \<Longrightarrow> \<not> bit (of_char c :: u64) n"
  by (rule word_high_bits [of _ 8]) (use nat_of_char_less_256 [of c] in \<open>simp_all add: byte_unat\<close>)

lemma byte_inj: "(of_char c :: u64) = of_char d \<Longrightarrow> c = d"
  by (rule of_char_eqI [where 'a = nat]) (metis byte_unat)

lemma le_bytes_bits: "8 * length cs \<le> n \<Longrightarrow> \<not> bit (le_bytes 0 cs) n"
proof (induction cs arbitrary: n)
  case (Cons c cs)
  then have "\<not> bit (le_bytes 0 cs) (n - 8)" "8 \<le> n" by auto
  then show ?case using byte_bits [of n c] by (auto simp: le_bytes_shift bit_simps)
qed simp

lemma le_bytes_inj:
  "length a = length b \<Longrightarrow> length a \<le> 8 \<Longrightarrow> le_bytes 0 a = le_bytes 0 b \<Longrightarrow> a = b"
proof (induction a b rule: list_induct2)
  case (Cons c a d b)
  let ?x = "le_bytes 0 a" and ?y = "le_bytes 0 b"
  have eq: "of_char c XOR push_bit 8 ?x = of_char d XOR push_bit 8 ?y" using Cons(4) by (simp add: le_bytes_shift)
  have low: "take_bit 8 (of_char e XOR push_bit 8 z) = of_char e" for e and z :: u64
    using byte_bits [of _ e] by (intro bit_word_eqI) (auto simp: bit_simps, meson linorder_not_less)
  have "of_char c = (of_char d :: u64)" using arg_cong [OF eq, of "take_bit 8"] by (simp only: low)
  moreover have "?x = ?y"
  proof (rule bit_word_eqI)
    fix n :: nat
    assume "n < LENGTH(64)"
    show "bit ?x n = bit ?y n"
    proof (cases "n < 56")
      case True
      then show ?thesis
        using arg_cong [OF eq, of "\<lambda>w. bit w (8 + n)"] byte_bits [of "8 + n"] by (simp add: bit_simps)
    next
      case False
      then have "8 * length a \<le> n" "8 * length b \<le> n" using Cons(1,3) by auto
      then show ?thesis using le_bytes_bits by blast
    qed
  qed
  ultimately show ?case using Cons(2,3) byte_inj by simp
qed simp

lemma hash_words_inj: "length a = length b \<Longrightarrow> hash_words a = hash_words b \<Longrightarrow> a = b"
proof (induction a arbitrary: b rule: hash_words.induct)
  case (1 a)
  show ?case
  proof (cases "a = []")
    case False
    then have "b \<noteq> []" using 1(2) by auto
    then have w: "le_bytes 0 (take 8 a) = le_bytes 0 (take 8 b)" "hash_words (drop 8 a) = hash_words (drop 8 b)"
      using 1(3) False hash_words.simps [of a] hash_words.simps [of b] by simp_all
    have "take 8 a = take 8 b" by (rule le_bytes_inj [OF _ _ w(1)]) (use 1(2) in auto)
    moreover have "drop 8 a = drop 8 b" by (rule 1(1) [OF False _ w(2)]) (use 1(2) in auto)
    ultimately show ?thesis by (metis append_take_drop_id)
  qed (use 1(2) in simp)
qed

text \<open>
  C29: the hash separates names that differ in one block. Two different names of the same length that agree outside one group of
  eight bytes, counted from the start, have different hashes; in particular two names of the same length of at most eight bytes.
\<close>

theorem fasthash64_one_block:
  assumes "length a = length b" "take (8 * k) a = take (8 * k) b" "drop (8 * k + 8) a = drop (8 * k + 8) b"
    and "a \<noteq> b"
  shows "fasthash64 a seed \<noteq> fasthash64 b seed"
proof
  assume same: "fasthash64 a seed = fasthash64 b seed"
  have long: "8 * k < length a" using assms(1,2,4) by (metis not_less take_all)
  let ?u = "take (8 * k) a" and ?r = "drop (8 * k + 8) a"
  have parts: "hash_words c = hash_words (take (8 * k) c) @ le_bytes 0 (take 8 (drop (8 * k) c)) # hash_words (drop (8 * k + 8) c)"
    if "8 * k < length c" for c
  proof -
    have "hash_words c = hash_words (take (8 * k) c) @ hash_words (drop (8 * k) c)"
      using hash_words_append [of "take (8 * k) c" "drop (8 * k) c"] that by (simp add: min_absorb2)
    moreover have "hash_words (drop (8 * k) c) = le_bytes 0 (take 8 (drop (8 * k) c)) # hash_words (drop (8 * k + 8) c)"
      using that by (subst hash_words.simps) (simp add: add.commute)
    ultimately show ?thesis by simp
  qed
  have words: "hash_words a = hash_words ?u @ le_bytes 0 (take 8 (drop (8 * k) a)) # hash_words ?r"
    "hash_words b = hash_words ?u @ le_bytes 0 (take 8 (drop (8 * k) b)) # hash_words ?r"
    using parts [of a] parts [of b] long assms(1-3) by simp_all
  have "foldl hash_step (seed XOR (of_nat (length a) * hash_m)) (hash_words a)
      = foldl hash_step (seed XOR (of_nat (length a) * hash_m)) (hash_words b)"
    using same assms(1) mix_inj by (simp only: fasthash64_words)
  then have "le_bytes 0 (take 8 (drop (8 * k) a)) = le_bytes 0 (take 8 (drop (8 * k) b))"
    unfolding words foldl_append foldl_Cons by (rule hash_fold_inj [THEN hash_step_inj(2)])
  then have "hash_words a = hash_words b" by (simp only: words)
  then show False using hash_words_inj assms(1,4) by blast
qed

theorem fasthash64_one_block_witness:
  "fasthash64 ''file1'' 7 \<noteq> fasthash64 ''file2'' 7"
  using fasthash64_one_block [of "''file1''" "''file2''" 0 7] by auto

section \<open>The listing is the union of the branches\<close>

text \<open>A buffer that takes every entry, the entries the branches have to offer, and the entries with a new name.\<close>

definition list_filler :: "(string \<times> stat) list \<Rightarrow> string \<Rightarrow> stat \<Rightarrow> int \<times> (string \<times> stat) list" where
  "list_filler buf n st = (0, buf @ [(n, st)])"

definition branch_rows :: "'w os \<Rightarrow> 'w \<Rightarrow> string \<Rightarrow> nat \<times> Branch \<Rightarrow> (string \<times> stat) list" where
  "branch_rows os w dir ib =
     (case k_readdir os (path_make (br_path (snd ib)) dir) w of
        Inl _ \<Rightarrow> []
      | Inr (devid, des) \<Rightarrow>
          let dev = (case devid of Inl _ \<Rightarrow> - 1 | Inr dev \<Rightarrow> dev)
          in map (\<lambda>de. (d_name de, entry_stat (if dev = - 1 then of_nat (fst ib) else dev) de)) des)"

definition pool_rows :: "'w os \<Rightarrow> 'w \<Rightarrow> string \<Rightarrow> Branch list \<Rightarrow> (string \<times> stat) list" where
  "pool_rows os w dir bs = concat (map (branch_rows os w dir) (List.enumerate 0 bs))"

definition name_hash :: "string \<Rightarrow> u64" where
  "name_hash n = fasthash64 (c_str n) 0x7472617065786974"

definition add_row :: "(string \<times> 'a) list \<Rightarrow> string \<times> 'a \<Rightarrow> (string \<times> 'a) list" where
  "add_row buf r = (if fst r \<in> fst ` set buf then buf else buf @ [r])"

abbreviation hashes :: "(string \<times> 'a) list \<Rightarrow> u64 set" where
  "hashes buf \<equiv> name_hash ` fst ` set buf"

lemma add_rows_map_of: "map_of (foldl add_row buf rows) = map_of (buf @ rows)"
proof (induction rows arbitrary: buf)
  case (Cons r rows)
  have "map_of (add_row buf r @ rows) = map_of (buf @ r # rows)"
  proof (cases "fst r \<in> fst ` set buf")
    case True
    then have "(fst r) \<in> dom (map_of buf)" by (simp add: dom_map_of_conv_image_fst)
    then show ?thesis
      using True by (cases r) (auto simp: add_row_def map_add_def fun_eq_iff split: option.splits)
  qed (simp add: add_row_def)
  then show ?case using Cons by simp
qed simp

lemma add_rows_distinct: "distinct (map fst buf) \<Longrightarrow> distinct (map fst (foldl add_row buf rows))"
  by (induction rows arbitrary: buf) (auto simp: add_row_def)

lemma readdir_entry_row:
  assumes "inj_on name_hash (insert (d_name de) (fst ` set buf))"
  shows "readdir_entry list_filler dev de (hashes buf, buf) s =
    (let buf' = add_row buf (d_name de, entry_stat dev de) in (Inl (hashes buf', buf'), s))"
proof -
  have "name_hash (d_name de) \<in> hashes buf \<longleftrightarrow> d_name de \<in> fst ` set buf"
    using assms by (auto simp: inj_on_def)
  then show ?thesis
    by (simp add: readdir_entry_def HashSet_put_def name_hash_def [symmetric] list_filler_def add_row_def Let_def)
qed

lemma add_row_names: "fst ` set (add_row buf r) = insert (fst r) (fst ` set buf)"
  by (auto simp: add_row_def)

lemma readdir_entries_rows:
  assumes "inj_on name_hash (fst ` set buf \<union> d_name ` set des)"
  shows "for_until (readdir_entry list_filler dev) des (hashes buf, buf) s =
    (let buf' = foldl add_row buf (map (\<lambda>de. (d_name de, entry_stat dev de)) des) in (Inl (hashes buf', buf'), s))"
  using assms
proof (induction des arbitrary: buf)
  case (Cons de des)
  let ?buf = "add_row buf (d_name de, entry_stat dev de)"
  have "inj_on name_hash (insert (d_name de) (fst ` set buf))"
    by (rule inj_on_subset [OF Cons.prems]) auto
  moreover have "inj_on name_hash (fst ` set ?buf \<union> d_name ` set des)"
    by (rule inj_on_subset [OF Cons.prems]) (auto simp: add_row_names)
  ultimately show ?case using Cons.IH by (simp add: readdir_entry_row Let_def)
qed simp

lemma readdir_branch_rows:
  assumes "inj_on name_hash (fst ` set buf \<union> fst ` set (branch_rows os (world s) dir ib))"
  shows "\<exists>e. readdir_branch os list_filler dir ib (hashes buf, buf) s =
    (let buf' = foldl add_row buf (branch_rows os (world s) dir ib) in (Inl (hashes buf', buf'), s\<lparr>errno := e\<rparr>))"
proof (cases "k_readdir os (path_make (br_path (snd ib)) dir) (world s)")
  case (Inl e)
  then show ?thesis by (auto simp: readdir_branch_def branch_rows_def case_prod_beta)
next
  case (Inr r)
  obtain devid des where r: "r = (devid, des)" by fastforce
  have "fst ` set (branch_rows os (world s) dir ib) = d_name ` set des"
    using Inr r by (simp add: branch_rows_def Let_def image_image)
  then have inj: "inj_on name_hash (fst ` set buf \<union> d_name ` set des)" using assms by simp
  note defs = readdir_branch_def branch_rows_def case_prod_beta Let_def readdir_entries_rows [OF inj] Inr r
  show ?thesis
  proof (cases devid)
    case (Inl e)
    then show ?thesis by (intro exI [of _ e]) (simp add: defs)
  next
    case (Inr dev)
    then show ?thesis by (intro exI [of _ "errno s"]) (simp add: defs)
  qed
qed

lemma readdir_pool_rows:
  assumes "inj_on name_hash (fst ` set buf \<union> fst ` set (concat (map (branch_rows os (world s) dir) ibs)))"
  shows "\<exists>e. for_until (readdir_branch os list_filler dir) ibs (hashes buf, buf) s =
    (let buf' = foldl add_row buf (concat (map (branch_rows os (world s) dir) ibs)) in (Inl (hashes buf', buf'), s\<lparr>errno := e\<rparr>))"
  using assms
proof (induction ibs arbitrary: buf s)
  case Nil
  show ?case by (auto intro: exI [of _ "errno s"])
next
  case (Cons ib ibs)
  let ?rows = "branch_rows os (world s) dir ib"
  let ?buf = "foldl add_row buf ?rows"
  have names: "fst ` set ?buf = fst ` set buf \<union> fst ` set ?rows"
  proof -
    have "dom (map_of ?buf) = dom (map_of (buf @ ?rows))" by (simp only: add_rows_map_of)
    then show ?thesis by (simp only: dom_map_of_conv_image_fst set_append image_Un)
  qed
  obtain e where e: "readdir_branch os list_filler dir ib (hashes buf, buf) s = (Inl (hashes ?buf, ?buf), s\<lparr>errno := e\<rparr>)"
    using readdir_branch_rows [of buf os s dir ib] inj_on_subset [OF Cons.prems, of "fst ` set buf \<union> fst ` set ?rows"]
    by (auto simp: Let_def)
  have "inj_on name_hash (fst ` set ?buf \<union> fst ` set (concat (map (branch_rows os (world s) dir) ibs)))"
    using Cons.prems by (simp add: names Un_assoc image_Un)
  then show ?case
    using Cons.IH [where s = "s\<lparr>errno := e\<rparr>" and buf = ?buf] e by (simp add: Let_def)
qed

text \<open>
  C30: a directory lists every name once. When no two names of the branches have the same hash, \<^verbatim>\<open>readdir\<close> succeeds, no name is
  listed twice, and a name is listed exactly when a branch that can be read has it, with the attributes of its entry on the
  first of those branches.
\<close>

theorem readdir_lists_union:
  fixes os :: "'w os" and fc :: fuse_context and s :: "'w sys"
  defines "w \<equiv> world (ugid_Set os (fc_uid fc) (fc_gid fc) s)"
  assumes "inj_on name_hash (fst ` set (pool_rows os w (c_str (di_fusepath di)) (cf_branches cfg)))"
  shows "\<exists>buf t. FUSE_readdir os list_filler fc di [] cfg s = (0, buf, t) \<and> world t = w \<and> distinct (map fst buf)
    \<and> map_of buf = map_of (pool_rows os w (c_str (di_fusepath di)) (cf_branches cfg))"
proof -
  let ?u = "ugid_Set os (fc_uid fc) (fc_gid fc) s" and ?rows = "pool_rows os w (c_str (di_fusepath di)) (cf_branches cfg)"
  obtain e where "for_until (readdir_branch os list_filler (c_str (di_fusepath di))) (List.enumerate 0 (cf_branches cfg)) ({}, []) ?u
      = (let buf = foldl add_row [] ?rows in (Inl (hashes buf, buf), ?u\<lparr>errno := e\<rparr>))"
    using readdir_pool_rows [of "[]" os ?u "c_str (di_fusepath di)" "List.enumerate 0 (cf_branches cfg)"] assms
    by (auto simp: pool_rows_def)
  then show ?thesis
    using add_rows_distinct [of "[]" ?rows] add_rows_map_of [of "[]" ?rows]
    by (simp add: FUSE_readdir_def l_readdir_def Let_def w_def)
qed

text \<open>A pool of two branches whose listings share a name.\<close>

definition listing_os :: "sample_world os" where
  "listing_os = sample_os\<lparr>k_readdir := (\<lambda>p w.
     if p = ''/a/'' then Inr (Inr 1, [\<lparr>d_name = ''x'', d_ino = 3, d_type = 8\<rparr>])
     else Inr (Inr 2, [\<lparr>d_name = ''x'', d_ino = 4, d_type = 8\<rparr>, \<lparr>d_name = ''y'', d_ino = 5, d_type = 4\<rparr>]))\<rparr>"

theorem readdir_lists_union_witness:
  "\<exists>buf t. FUSE_readdir listing_os list_filler sample_root \<lparr>di_fusepath = ''/''\<rparr> []
       (sample_config two_branches (\<lambda>_. sample_policy Pol_ff)) (sample_sys []) = (0, buf, t)
     \<and> distinct (map fst buf) \<and> fst ` set buf = {''x'', ''y''}"
proof -
  let ?w = "world (ugid_Set listing_os (fc_uid sample_root) (fc_gid sample_root) (sample_sys []))"
  let ?cfg = "sample_config two_branches (\<lambda>_. sample_policy Pol_ff)"
  have names: "map fst (pool_rows listing_os ?w (c_str (di_fusepath \<lparr>di_fusepath = ''/''\<rparr>)) (cf_branches ?cfg)) = [''x'', ''x'', ''y'']"
    by code_simp
  have "name_hash ''x'' \<noteq> name_hash ''y''" by code_simp
  then have "inj_on name_hash (fst ` set (pool_rows listing_os ?w (c_str (di_fusepath \<lparr>di_fusepath = ''/''\<rparr>)) (cf_branches ?cfg)))"
    using arg_cong [OF names, of set] by (auto simp: inj_on_def)
  from readdir_lists_union [OF this] show ?thesis
    using arg_cong [OF names, of set] by (metis dom_map_of_conv_image_fst list.set_map set_simps insert_absorb2)
qed

end
