(* ===== verification/Statfs.thy ===== *)
theory Statfs
  imports Directory
begin

text \<open>
  \<^verbatim>\<open>fuse_statfs.cpp\<close>: the figures of the pool are the sums over the devices of its branches. The \<^verbatim>\<open>std::map\<close> from devices to
  figures is a list sorted by device.
\<close>

unbundle bit_operations_syntax

abbreviation O_PATH :: u32 where "O_PATH \<equiv> 0x200000"

definition fs_fstatvfs :: "'w os \<Rightarrow> int \<Rightarrow> 'w sys \<Rightarrow> statvfs option \<times> 'w sys" where
  "fs_fstatvfs os fd s = sys_val (k_fstatvfs os fd (world s)) s"

definition fs_lstatvfs :: "'w os \<Rightarrow> string \<Rightarrow> 'w sys \<Rightarrow> statvfs option \<times> 'w sys" where
  "fs_lstatvfs os path s =
     (case fs_open os path (O_RDONLY OR O_NOFOLLOW OR O_PATH) 0 s of (fd, s) \<Rightarrow>
      if fd = - 1 then (None, s)
      else case fs_fstatvfs os fd s of (rv, s) \<Rightarrow> (rv, snd (fs_close os fd s)))"

definition normalize_statvfs :: "u64 \<Rightarrow> u64 \<Rightarrow> u64 \<Rightarrow> statvfs \<Rightarrow> statvfs" where
  "normalize_statvfs min_bsize min_frsize min_namemax fsstat =
     fsstat\<lparr>f_blocks := (f_blocks fsstat * f_frsize fsstat) div min_frsize,
            f_bfree := (f_bfree fsstat * f_frsize fsstat) div min_frsize,
            f_bavail := (f_bavail fsstat * f_frsize fsstat) div min_frsize,
            f_bsize := min_bsize, f_frsize := min_frsize, f_namemax := min_namemax\<rparr>"

definition merge_statvfs :: "statvfs \<Rightarrow> statvfs \<Rightarrow> statvfs" where
  "merge_statvfs out in' =
     out\<lparr>f_blocks := f_blocks out + f_blocks in', f_bfree := f_bfree out + f_bfree in',
         f_bavail := f_bavail out + f_bavail in', f_files := f_files out + f_files in',
         f_ffree := f_ffree out + f_ffree in', f_favail := f_favail out + f_favail in'\<rparr>"

definition should_ignore :: "StatFSIgnore \<Rightarrow> Branch \<Rightarrow> bool \<Rightarrow> bool" where
  "should_ignore ignore branch rdonly \<longleftrightarrow>
     (ignore = StatFSIgnore_RO \<or> rdonly) \<and> ro_or_nc branch \<or> ignore = StatFSIgnore_NC \<and> nc branch"

text \<open>\<^verbatim>\<open>map::insert\<close> keeps the entry a device already has.\<close>

fun dev_insert :: "u64 \<Rightarrow> statvfs \<Rightarrow> (u64 \<times> statvfs) list \<Rightarrow> (u64 \<times> statvfs) list" where
  "dev_insert d v [] = [(d, v)]"
| "dev_insert d v ((e, u) # m) =
     (if d < e then (d, v) # (e, u) # m else if d = e then (e, u) # m else (e, u) # dev_insert d v m)"

record statfs_acc =
  sa_bsize :: u64
  sa_frsize :: u64
  sa_namemax :: u64
  sa_fsstats :: "(u64 \<times> statvfs) list"

definition min_unless_zero :: "u64 \<Rightarrow> u64 \<Rightarrow> u64" where
  "min_unless_zero x m = (if x \<noteq> 0 \<and> m > x then x else m)"

definition statfs_body ::
  "'w os \<Rightarrow> string \<Rightarrow> StatFS \<Rightarrow> StatFSIgnore \<Rightarrow> Branch \<Rightarrow> statfs_acc \<Rightarrow> 'w sys \<Rightarrow> statfs_acc \<times> 'w sys" where
  "statfs_body os fusepath mode ignore branch acc s =
     (let fullpath = (if mode = StatFS_FULL then path_make (br_path branch) fusepath else br_path branch)
      in case fs_lstat os fullpath s of
           (None, s) \<Rightarrow> (acc, s)
         | (Some st, s) \<Rightarrow>
             (case fs_lstatvfs os fullpath s of
                (None, s) \<Rightarrow> (acc, s)
              | (Some stvfs, s) \<Rightarrow>
                  let acc = acc\<lparr>sa_bsize := min_unless_zero (f_bsize stvfs) (sa_bsize acc),
                                sa_frsize := min_unless_zero (f_frsize stvfs) (sa_frsize acc),
                                sa_namemax := min_unless_zero (f_namemax stvfs) (sa_namemax acc)\<rparr>;
                      stvfs = (if should_ignore ignore branch (StatVFS_readonly stvfs)
                               then stvfs\<lparr>f_bavail := 0, f_favail := 0\<rparr> else stvfs)
                  in (acc\<lparr>sa_fsstats := dev_insert (st_dev st) stvfs (sa_fsstats acc)\<rparr>, s)))"

definition sum_stats :: "u64 \<Rightarrow> u64 \<Rightarrow> u64 \<Rightarrow> (u64 \<times> statvfs) list \<Rightarrow> statvfs \<Rightarrow> statvfs" where
  "sum_stats bs frs nm fsstats fsstat =
     (case fsstats of
        [] \<Rightarrow> fsstat
      | (d, v) # m \<Rightarrow>
          foldl (\<lambda>out (d, v). merge_statvfs out (normalize_statvfs bs frs nm v)) (normalize_statvfs bs frs nm v) m)"

definition l_statfs ::
  "'w os \<Rightarrow> Branch list \<Rightarrow> string \<Rightarrow> StatFS \<Rightarrow> StatFSIgnore \<Rightarrow> statvfs \<Rightarrow> 'w sys \<Rightarrow> int \<times> statvfs \<times> 'w sys" where
  "l_statfs os branches fusepath mode ignore fsstat s =
     (case for_each (statfs_body os fusepath mode ignore) branches
        \<lparr>sa_bsize = U64_MAX, sa_frsize = U64_MAX, sa_namemax = U64_MAX, sa_fsstats = []\<rparr> s of (acc, s) \<Rightarrow>
        (0, sum_stats (sa_bsize acc) (sa_frsize acc) (sa_namemax acc) (sa_fsstats acc) fsstat, s))"

definition FUSE_statfs ::
  "'w os \<Rightarrow> fuse_context \<Rightarrow> string \<Rightarrow> statvfs \<Rightarrow> Config \<Rightarrow> 'w sys \<Rightarrow> int \<times> statvfs \<times> 'w sys" where
  "FUSE_statfs os fc fusepath st cfg s =
     (let s = ugid_Set os (fc_uid fc) (fc_gid fc) s
      in l_statfs os (cf_branches cfg) fusepath (cf_statfs cfg) (cf_statfs_ignore cfg) st s)"

section \<open>Every device is counted once\<close>

text \<open>
  What is needed of the system while the branches are asked: the attributes and figures of a path do not change with the calls
  the loop makes.
\<close>

definition statfs_laws :: "'w os \<Rightarrow> ('w \<Rightarrow> bool) \<Rightarrow> (string \<Rightarrow> stat option) \<Rightarrow> (string \<Rightarrow> statvfs option) \<Rightarrow> bool" where
  "statfs_laws os Q ls sv \<longleftrightarrow>
     (\<forall>w. Q w \<longrightarrow>
        (\<forall>p. (case k_lstat os p w of Inl _ \<Rightarrow> None | Inr st \<Rightarrow> Some st) = ls p)
        \<and> (\<forall>p. case k_open os p (O_RDONLY OR O_NOFOLLOW OR O_PATH) 0 w of
              (Inl e, w') \<Rightarrow> Q w' \<and> sv p = None
            | (Inr fd, w') \<Rightarrow> Q w' \<and> fd \<noteq> - 1 \<and> (case k_fstatvfs os fd w' of Inl _ \<Rightarrow> None | Inr v \<Rightarrow> Some v) = sv p)
        \<and> (\<forall>fd. Q (snd (k_close os fd w))))"

text \<open>
  The device of a branch and the figures counted for it, if it answers; \<open>drop'\<close> says whether what is available on a
  branch, mounted read-only or not, is ignored.
\<close>

definition branch_stat ::
  "(string \<Rightarrow> stat option) \<Rightarrow> (string \<Rightarrow> statvfs option) \<Rightarrow> string \<Rightarrow> StatFS \<Rightarrow> (Branch \<Rightarrow> bool \<Rightarrow> bool) \<Rightarrow> Branch \<Rightarrow>
   (u64 \<times> statvfs) list" where
  "branch_stat ls sv fusepath mode drop' b =
     (let p = (if mode = StatFS_FULL then path_make (br_path b) fusepath else br_path b)
      in case (ls p, sv p) of
           (Some st, Some v) \<Rightarrow>
             [(st_dev st, if drop' b (StatVFS_readonly v) then v\<lparr>f_bavail := 0, f_favail := 0\<rparr> else v)]
         | _ \<Rightarrow> [])"

definition stat_step :: "statfs_acc \<Rightarrow> u64 \<times> statvfs \<Rightarrow> statfs_acc" where
  "stat_step acc r =
     acc\<lparr>sa_bsize := min_unless_zero (f_bsize (snd r)) (sa_bsize acc),
         sa_frsize := min_unless_zero (f_frsize (snd r)) (sa_frsize acc),
         sa_namemax := min_unless_zero (f_namemax (snd r)) (sa_namemax acc),
         sa_fsstats := dev_insert (fst r) (snd r) (sa_fsstats acc)\<rparr>"

lemma lstatvfs_answer:
  assumes "statfs_laws os Q ls sv" "holds Q s"
  shows "fst (fs_lstatvfs os p s) = sv p \<and> holds Q (snd (fs_lstatvfs os p s))"
proof (cases "k_open os p (O_RDONLY OR O_NOFOLLOW OR O_PATH) 0 (world s)")
  case (Pair r w)
  have open_law: "case r of Inl e \<Rightarrow> Q w \<and> sv p = None
      | Inr fd \<Rightarrow> Q w \<and> fd \<noteq> - 1 \<and> (case k_fstatvfs os fd w of Inl _ \<Rightarrow> None | Inr v \<Rightarrow> Some v) = sv p"
    using assms Pair unfolding statfs_laws_def holds_def by (auto split: prod.splits sum.splits)
  have close: "holds Q t \<Longrightarrow> holds Q (snd (fs_close os fd t))" for fd and t :: "'a sys"
    using assms(1) unfolding statfs_laws_def fs_close_def by (intro holds_intros) (simp add: holds_def)
  show ?thesis
  proof (cases r)
    case (Inl e)
    then show ?thesis using Pair open_law by (simp add: fs_lstatvfs_def fs_open_def sys_fd_def holds_def)
  next
    case (Inr fd)
    then show ?thesis
      using Pair open_law close
      by (cases "k_fstatvfs os fd w")
        (simp_all add: fs_lstatvfs_def fs_open_def sys_fd_def fs_fstatvfs_def sys_val_def holds_def)
  qed
qed

lemma statfs_body_row:
  assumes "statfs_laws os Q ls sv" "holds Q s"
  shows "fst (statfs_body os p mode ign b acc s) = foldl stat_step acc (branch_stat ls sv p mode (should_ignore ign) b)
    \<and> holds Q (snd (statfs_body os p mode ign b acc s))"
proof -
  let ?p = "if mode = StatFS_FULL then path_make (br_path b) p else br_path b"
  have ls: "fst (fs_lstat os ?p s) = ls ?p" "holds Q (snd (fs_lstat os ?p s))"
    using assms unfolding statfs_laws_def fs_lstat_def holds_def
    by (auto simp: sys_val_def split: sum.splits) (metis option.distinct(1) sum.simps(5))+
  obtain x t where x: "fs_lstat os ?p s = (x, t)" by fastforce
  obtain y u where y: "fs_lstatvfs os ?p t = (y, u)" by fastforce
  have "y = sv ?p" "holds Q u" using lstatvfs_answer [OF assms(1), of t ?p] ls x y by simp_all
  then show ?thesis
    using ls x y unfolding statfs_body_def branch_stat_def Let_def
    by (auto simp: stat_step_def split: option.splits)
qed

lemma statfs_loop_rows:
  assumes "statfs_laws os Q ls sv" "holds Q s"
  shows "fst (for_each (statfs_body os p mode ign) bs acc s)
    = foldl stat_step acc (concat (map (branch_stat ls sv p mode (should_ignore ign)) bs))"
  using assms(2)
proof (induction bs arbitrary: acc s)
  case (Cons b bs)
  then show ?case
    using statfs_body_row [OF assms(1) Cons.prems, of p mode ign b acc] by (simp add: case_prod_beta)
qed simp

text \<open>The map of devices keeps the first figures of each.\<close>

lemma dev_insert_keys: "fst ` set (dev_insert d v m) = insert d (fst ` set m)"
  by (induction d v m rule: dev_insert.induct) (simp_all add: insert_commute)

lemma dev_insert_sorted: "sorted_wrt (<) (map fst m) \<Longrightarrow> sorted_wrt (<) (map fst (dev_insert d v m))"
proof (induction d v m rule: dev_insert.induct)
  case (2 d v e u m)
  have "e < d \<Longrightarrow> \<forall>x \<in> fst ` set (dev_insert d v m). e < x"
    using 2(2) by (simp add: dev_insert_keys)
  then show ?case using 2 by (cases d e rule: linorder_cases) auto
qed simp

lemma dev_insert_map_of:
  "sorted_wrt (<) (map fst m) \<Longrightarrow> map_of (dev_insert d v m) = [d \<mapsto> v] ++ map_of m"
proof (induction m)
  case (Cons r m)
  obtain e u where r: "r = (e, u)" by fastforce
  have "d < e \<Longrightarrow> map_of m d = None"
    using Cons.prems r by (auto simp: map_of_eq_None_iff)
  then show ?case using Cons r by (auto simp: fun_eq_iff map_add_def split: option.splits)
qed simp

lemma stat_steps_devices:
  assumes "sorted_wrt (<) (map fst (sa_fsstats acc))"
  shows "sorted_wrt (<) (map fst (sa_fsstats (foldl stat_step acc rows)))
    \<and> map_of (sa_fsstats (foldl stat_step acc rows)) = map_of (sa_fsstats acc @ rows)"
  using assms
proof (induction rows arbitrary: acc)
  case (Cons r rows)
  have acc: "sa_fsstats (stat_step acc r) = dev_insert (fst r) (snd r) (sa_fsstats acc)" by (simp add: stat_step_def)
  have "[fst r \<mapsto> snd r] ++ f = f(fst r := Some (case f (fst r) of None \<Rightarrow> snd r | Some x \<Rightarrow> x))" for f :: "u64 \<rightharpoonup> statvfs"
    by (auto simp: fun_eq_iff map_add_def split: option.splits)
  then have "map_of (sa_fsstats (stat_step acc r) @ rows) = map_of (sa_fsstats acc @ r # rows)"
    using Cons.prems unfolding acc
    by (cases r) (auto simp: dev_insert_map_of fun_eq_iff map_add_def split: option.splits)
  then show ?case using Cons dev_insert_sorted [OF Cons.prems] acc by simp
qed simp

lemma stat_steps_frsize:
  "sa_frsize (foldl stat_step acc rows) = foldl (\<lambda>m r. min_unless_zero (f_frsize (snd r)) m) (sa_frsize acc) rows"
  by (induction rows arbitrary: acc) (simp_all add: stat_step_def)

lemma merged_field:
  assumes "\<And>x y. g (merge_statvfs x y) = g x + (g y :: u64)" "m \<noteq> []" "distinct (map fst m)"
  shows "g (sum_stats bs frs nm m st) = (\<Sum>d \<in> fst ` set m. g (normalize_statvfs bs frs nm (the (map_of m d))))"
proof -
  let ?n = "normalize_statvfs bs frs nm"
  have fold: "g (foldl (\<lambda>out (d, v). merge_statvfs out (?n v)) out m) = g out + (\<Sum>(d, v) \<leftarrow> m. g (?n v))" for out m
    by (induction m arbitrary: out) (auto simp: assms(1) add.assoc)
  have "g (sum_stats bs frs nm m st) = (\<Sum>(d, v) \<leftarrow> m. g (?n v))"
    using assms(2) by (cases m) (auto simp: sum_stats_def fold case_prod_beta)
  also have "\<dots> = (\<Sum>r \<leftarrow> m. g (?n (the (map_of m (fst r)))))"
    using assms(3) by (intro arg_cong [where f = sum_list] map_cong) (auto simp: map_of_is_SomeI)
  also have "\<dots> = (\<Sum>d \<in> fst ` set m. g (?n (the (map_of m d))))"
    using assms(3) sum.distinct_set_conv_list [of "map fst m" "\<lambda>d. g (?n (the (map_of m d)))"]
    by (simp add: comp_def)
  finally show ?thesis .
qed

text \<open>
  What is available is ignored, according to README.md: with \<^verbatim>\<open>ro\<close> on branches mounted or tagged read-only or tagged no
  create, with \<^verbatim>\<open>nc\<close> on branches tagged no create.
\<close>

definition documented_ignore :: "StatFSIgnore \<Rightarrow> Branch \<Rightarrow> bool \<Rightarrow> bool" where
  "documented_ignore ignore b rdonly \<longleftrightarrow>
     ignore = StatFSIgnore_RO \<and> (rdonly \<or> ro_or_nc b) \<or> ignore = StatFSIgnore_NC \<and> nc b"

definition pool_stats ::
  "(string \<Rightarrow> stat option) \<Rightarrow> (string \<Rightarrow> statvfs option) \<Rightarrow> string \<Rightarrow> (Branch \<Rightarrow> bool \<Rightarrow> bool) \<Rightarrow> Config \<Rightarrow> (u64 \<times> statvfs) list" where
  "pool_stats ls sv p drop' cfg = concat (map (branch_stat ls sv p (cf_statfs cfg) drop') (cf_branches cfg))"

text \<open>The path asked about on a branch.\<close>

definition statfs_path :: "Config \<Rightarrow> string \<Rightarrow> Branch \<Rightarrow> string" where
  "statfs_path cfg p b = (if cf_statfs cfg = StatFS_FULL then path_make (br_path b) p else br_path b)"

definition over_devices :: "(u64 \<times> statvfs) list \<Rightarrow> (statvfs \<Rightarrow> u64) \<Rightarrow> u64" where
  "over_devices rows g = (\<Sum>d \<in> fst ` set rows. g (the (map_of rows d)))"

definition least_frsize :: "(u64 \<times> statvfs) list \<Rightarrow> u64" where
  "least_frsize rows = foldl (\<lambda>m r. min_unless_zero (f_frsize (snd r)) m) U64_MAX rows"

abbreviation keep_all :: "Branch \<Rightarrow> bool \<Rightarrow> bool" where "keep_all \<equiv> \<lambda>b rdonly. False"

text \<open>Figures other than the available ones do not depend on what is ignored.\<close>

lemma pool_stats_figure:
  assumes "\<And>v. g (v\<lparr>f_bavail := 0, f_favail := 0\<rparr>) = g v"
  shows "map (\<lambda>(d, v). (d, g v)) (pool_stats ls sv p drop' cfg) = map (\<lambda>(d, v). (d, g v)) (pool_stats ls sv p keep_all cfg)"
proof -
  have "map (\<lambda>(d, v). (d, g v)) (branch_stat ls sv p mode drop' b) = map (\<lambda>(d, v). (d, g v)) (branch_stat ls sv p mode keep_all b)"
    for mode b
    by (auto simp: branch_stat_def Let_def assms split: option.splits)
  then show ?thesis by (simp add: pool_stats_def map_concat comp_def)
qed

lemma pool_stats_devices: "fst ` set (pool_stats ls sv p drop' cfg) = fst ` set (pool_stats ls sv p keep_all cfg)"
  "pool_stats ls sv p drop' cfg = [] \<longleftrightarrow> pool_stats ls sv p keep_all cfg = []"
proof -
  have eq: "map fst (pool_stats ls sv p drop' cfg) = map fst (pool_stats ls sv p keep_all cfg)"
  proof -
    have "map (\<lambda>(d, v). (d, ())) (pool_stats ls sv p drop' cfg) = map (\<lambda>(d, v). (d, ())) (pool_stats ls sv p keep_all cfg)"
      by (rule pool_stats_figure) simp
    from arg_cong [OF this, where f = "map fst"] show ?thesis by (simp add: comp_def case_prod_beta)
  qed
  then show "fst ` set (pool_stats ls sv p drop' cfg) = fst ` set (pool_stats ls sv p keep_all cfg)"
    by (metis list.set_map)
  show "pool_stats ls sv p drop' cfg = [] \<longleftrightarrow> pool_stats ls sv p keep_all cfg = []"
    using eq by (metis map_is_Nil_conv)
qed

lemma over_devices_keep:
  assumes "\<And>v. g (v\<lparr>f_bavail := 0, f_favail := 0\<rparr>) = g v"
  shows "over_devices (pool_stats ls sv p drop' cfg) g = over_devices (pool_stats ls sv p keep_all cfg) g"
proof -
  have "map_option g (map_of (pool_stats ls sv p drop' cfg) d) = map_option g (map_of (pool_stats ls sv p keep_all cfg) d)" for d
  proof -
    have "map (\<lambda>(d, v). (d, g v)) (pool_stats ls sv p drop' cfg) = map (\<lambda>(d, v). (d, g v)) (pool_stats ls sv p keep_all cfg)"
      by (rule pool_stats_figure) (rule assms)
    from arg_cong [OF this, where f = "\<lambda>m. map_of m d"] show ?thesis by (simp add: map_of_map)
  qed
  then have "g (the (map_of (pool_stats ls sv p drop' cfg) d)) = g (the (map_of (pool_stats ls sv p keep_all cfg) d))"
    if "d \<in> fst ` set (pool_stats ls sv p keep_all cfg)" for d
    using that pool_stats_devices [of ls sv p drop' cfg]
    by (metis (no_types, lifting) dom_map_of_conv_image_fst domD option.map_sel option.distinct(1) option.sel)
  then show ?thesis unfolding over_devices_def pool_stats_devices [of ls sv p drop' cfg] by (rule sum.cong [OF refl])
qed

lemma least_frsize_keep: "least_frsize (pool_stats ls sv p drop' cfg) = least_frsize (pool_stats ls sv p keep_all cfg)"
proof -
  have least: "least_frsize rows = foldl (\<lambda>m r. min_unless_zero (snd r) m) U64_MAX (map (\<lambda>(d, v). (d, f_frsize v)) rows)" for rows
    by (simp add: least_frsize_def foldl_map case_prod_beta)
  show ?thesis unfolding least by (subst pool_stats_figure) simp_all
qed

lemma pool_stats_documented:
  assumes "\<forall>b \<in> set (cf_branches cfg). \<forall>v. sv (statfs_path cfg p b) = Some v \<longrightarrow> \<not> StatVFS_readonly v"
  shows "pool_stats ls sv p (should_ignore (cf_statfs_ignore cfg)) cfg = pool_stats ls sv p (documented_ignore (cf_statfs_ignore cfg)) cfg"
proof -
  have "branch_stat ls sv p (cf_statfs cfg) (should_ignore ign) b = branch_stat ls sv p (cf_statfs cfg) (documented_ignore ign) b"
    if "b \<in> set (cf_branches cfg)" for ign b
    using assms that
    by (auto simp: branch_stat_def statfs_path_def Let_def should_ignore_def documented_ignore_def split: option.splits)
  then show ?thesis unfolding pool_stats_def by (intro arg_cong [where f = concat] map_cong) simp_all
qed

lemma statfs_sums:
  fixes os :: "'w os" and fc :: fuse_context and s :: "'w sys" and cfg :: Config and p :: string
    and ls :: "string \<Rightarrow> stat option" and sv :: "string \<Rightarrow> statvfs option"
  assumes "statfs_laws os Q ls sv" "Q (world (ugid_Set os (fc_uid fc) (fc_gid fc) s))"
  defines "rows \<equiv> pool_stats ls sv p (should_ignore (cf_statfs_ignore cfg)) cfg"
  assumes "rows \<noteq> []"
  shows "\<exists>out t. FUSE_statfs os fc p st cfg s = (0, out, t)
    \<and> f_blocks out = over_devices rows (\<lambda>v. f_blocks v * f_frsize v div least_frsize rows)
    \<and> f_bfree out = over_devices rows (\<lambda>v. f_bfree v * f_frsize v div least_frsize rows)
    \<and> f_bavail out = over_devices rows (\<lambda>v. f_bavail v * f_frsize v div least_frsize rows)
    \<and> f_files out = over_devices rows f_files \<and> f_ffree out = over_devices rows f_ffree
    \<and> f_favail out = over_devices rows f_favail"
proof -
  let ?u = "ugid_Set os (fc_uid fc) (fc_gid fc) s"
  let ?acc = "\<lparr>sa_bsize = U64_MAX, sa_frsize = U64_MAX, sa_namemax = U64_MAX, sa_fsstats = []\<rparr>"
  obtain a t where run: "for_each (statfs_body os p (cf_statfs cfg) (cf_statfs_ignore cfg)) (cf_branches cfg) ?acc ?u = (a, t)"
    by fastforce
  then have a: "a = foldl stat_step ?acc rows"
    using statfs_loop_rows [OF assms(1), of ?u p "cf_statfs cfg" "cf_statfs_ignore cfg" "cf_branches cfg" ?acc] assms(2)
    by (simp add: rows_def pool_stats_def holds_def)
  have m: "sorted_wrt (<) (map fst (sa_fsstats a))" "map_of (sa_fsstats a) = map_of rows"
    using stat_steps_devices [of ?acc rows] by (simp_all add: a)
  then have keys: "fst ` set (sa_fsstats a) = fst ` set rows" "distinct (map fst (sa_fsstats a))"
    by (simp_all add: dom_map_of_conv_image_fst [symmetric] strict_sorted_iff)
  have "sa_fsstats a \<noteq> []" using keys(1) assms(4) by auto
  note field = merged_field [OF _ this keys(2), where bs = "sa_bsize a" and frs = "sa_frsize a" and nm = "sa_namemax a" and st = st,
      unfolded m(2) keys(1)]
  have frs: "sa_frsize a = least_frsize rows" by (simp add: a least_frsize_def stat_steps_frsize)
  show ?thesis
    unfolding FUSE_statfs_def Let_def l_statfs_def run case_prod_conv over_devices_def frs [symmetric]
    using field [of f_blocks] field [of f_bfree] field [of f_bavail] field [of f_files] field [of f_ffree] field [of f_favail]
    by (simp add: merge_statvfs_def normalize_statvfs_def)
qed

text \<open>
  C31: the figures of the pool count every device once. When a branch answers, \<^verbatim>\<open>statfs\<close> succeeds and reports for blocks and
  free blocks, for inodes and free inodes the sums over the devices of the pool, each with the figures of the first branch
  on it, the blocks converted to the smallest fragment size. If moreover no branch is on a file system mounted read-only,
  the available blocks and inodes are the sums over the devices too, a device counting nothing when the documentation of
  \<^verbatim>\<open>statfs_ignore\<close> says that the first branch on it is ignored. The sums and products are taken modulo \<open>2\<^sup>6\<^sup>4\<close>.
\<close>

theorem statfs_counts_devices_once:
  fixes os :: "'w os" and fc :: fuse_context and s :: "'w sys" and cfg :: Config and p :: string
    and ls :: "string \<Rightarrow> stat option" and sv :: "string \<Rightarrow> statvfs option"
  assumes "statfs_laws os Q ls sv" "Q (world (ugid_Set os (fc_uid fc) (fc_gid fc) s))"
  defines "rows \<equiv> pool_stats ls sv p (\<lambda>b rdonly. False) cfg"
    and "counted \<equiv> pool_stats ls sv p (documented_ignore (cf_statfs_ignore cfg)) cfg"
  assumes "rows \<noteq> []"
  shows "\<exists>out t. FUSE_statfs os fc p st cfg s = (0, out, t)
    \<and> f_blocks out = over_devices rows (\<lambda>v. f_blocks v * f_frsize v div least_frsize rows)
    \<and> f_bfree out = over_devices rows (\<lambda>v. f_bfree v * f_frsize v div least_frsize rows)
    \<and> f_files out = over_devices rows f_files \<and> f_ffree out = over_devices rows f_ffree
    \<and> ((\<forall>b \<in> set (cf_branches cfg). \<forall>v. sv (statfs_path cfg p b) = Some v \<longrightarrow> \<not> StatVFS_readonly v) \<longrightarrow>
         f_bavail out = over_devices counted (\<lambda>v. f_bavail v * f_frsize v div least_frsize rows)
         \<and> f_favail out = over_devices counted f_favail)"
proof -
  let ?code = "pool_stats ls sv p (should_ignore (cf_statfs_ignore cfg)) cfg"
  have "?code \<noteq> []" using assms(5) pool_stats_devices(2) unfolding rows_def by blast
  from statfs_sums [OF assms(1,2) this, of st] obtain out t where run: "FUSE_statfs os fc p st cfg s = (0, out, t)"
    and sums: "f_blocks out = over_devices ?code (\<lambda>v. f_blocks v * f_frsize v div least_frsize ?code)"
      "f_bfree out = over_devices ?code (\<lambda>v. f_bfree v * f_frsize v div least_frsize ?code)"
      "f_bavail out = over_devices ?code (\<lambda>v. f_bavail v * f_frsize v div least_frsize ?code)"
      "f_files out = over_devices ?code f_files" "f_ffree out = over_devices ?code f_ffree"
      "f_favail out = over_devices ?code f_favail"
    by blast
  have frs: "least_frsize ?code = least_frsize rows" unfolding rows_def by (rule least_frsize_keep)
  have keep: "over_devices ?code g = over_devices rows g" if "\<And>v. g (v\<lparr>f_bavail := 0, f_favail := 0\<rparr>) = g v" for g
    unfolding rows_def by (rule over_devices_keep) (rule that)
  have doc: "?code = counted" if "\<forall>b \<in> set (cf_branches cfg). \<forall>v. sv (statfs_path cfg p b) = Some v \<longrightarrow> \<not> StatVFS_readonly v"
    unfolding counted_def by (rule pool_stats_documented [OF that])
  show ?thesis
    using run sums keep [of "\<lambda>v. f_blocks v * f_frsize v div least_frsize rows"]
      keep [of "\<lambda>v. f_bfree v * f_frsize v div least_frsize rows"] keep [of f_files] keep [of f_ffree] doc
    by (intro exI [of _ out] exI [of _ t]) (simp add: frs)
qed

theorem statfs_counts_devices_once_witness:
  "\<exists>out t. FUSE_statfs sample_os sample_root ''/'' (sample_statvfs []) (sample_config two_branches (\<lambda>_. sample_policy Pol_ff))
       (sample_sys [''/a'', ''/b'']) = (0, out, t) \<and> f_blocks out = 100 \<and> f_bavail out = 20"
proof -
  let ?cfg = "sample_config two_branches (\<lambda>_. sample_policy Pol_ff)" and ?w = "[''/a'', ''/b'']"
  let ?ls = "\<lambda>p. if p \<in> set ?w then Some (sample_stat 5) else None"
  let ?sv = "\<lambda>p. if p \<in> set ?w then Some (sample_statvfs []) else None"
  let ?rows = "pool_stats ?ls ?sv ''/'' keep_all ?cfg"
  have laws: "statfs_laws sample_os (\<lambda>w. w = ?w) ?ls ?sv"
    by (simp add: statfs_laws_def sample_os_def sample_lookup_def)
  have w: "world (ugid_Set sample_os (fc_uid sample_root) (fc_gid sample_root) (sample_sys ?w)) = ?w" by code_simp
  have rows: "?rows = [(1, sample_statvfs []), (1, sample_statvfs [])]"
    "pool_stats ?ls ?sv ''/'' (documented_ignore (cf_statfs_ignore ?cfg)) ?cfg = [(1, sample_statvfs []), (1, sample_statvfs [])]"
    by code_simp+
  have figures: "least_frsize [(1, sample_statvfs []), (1, sample_statvfs [])] = 1" "f_blocks (sample_statvfs []) = 100"
    "f_frsize (sample_statvfs []) = 1" "f_bavail (sample_statvfs []) = 20" "\<not> StatVFS_readonly (sample_statvfs [])"
    by code_simp+
  show ?thesis
    using statfs_counts_devices_once [where cfg = ?cfg and p = "''/''" and st = "sample_statvfs []", OF laws w]
    unfolding rows by (auto simp: figures over_devices_def split: if_splits)
qed

text \<open>
  With a branch mounted read-only the code and the documentation part: \<^verbatim>\<open>statfs_ignore=ro\<close> does not ignore a branch that is
  mounted read-only but not tagged, and \<^verbatim>\<open>statfs_ignore=none\<close> ignores one that is both.
\<close>

lemma ignored_unlike_documented:
  "\<not> should_ignore StatFSIgnore_RO \<lparr>br_mode = Mode_RW, br_path = q\<rparr> True
   \<and> documented_ignore StatFSIgnore_RO \<lparr>br_mode = Mode_RW, br_path = q\<rparr> True
   \<and> should_ignore StatFSIgnore_NONE \<lparr>br_mode = Mode_RO, br_path = q\<rparr> True
   \<and> \<not> documented_ignore StatFSIgnore_NONE \<lparr>br_mode = Mode_RO, br_path = q\<rparr> True"
  by (simp add: should_ignore_def documented_ignore_def ro_or_nc_def)

end
