(* ===== verification/Numbers.thy ===== *)
theory Numbers
  imports Str_Util
begin

text \<open>
  \<^verbatim>\<open>num.cpp\<close>: sizes with an optional unit suffix and timeouts, parsed with \<^verbatim>\<open>strtoll\<close>, and
  the decimal printing that the control file uses for them. \<^verbatim>\<open>strtoll\<close> is the C library's: it
  skips white space, takes a sign and digits, clamps to the range of \<^verbatim>\<open>long long\<close>, and leaves
  the rest of the string; with no digit at all the rest is the whole string.
\<close>

section \<open>Decimal numbers\<close>

definition is_space :: "char \<Rightarrow> bool" where
  "is_space c \<longleftrightarrow> c \<in> {CHR '' '', CHR 0x09, CHR 0x0A, CHR 0x0B, CHR 0x0C, CHR 0x0D}"

definition is_digit :: "char \<Rightarrow> bool" where
  "is_digit c \<longleftrightarrow> 48 \<le> (of_char c :: nat) \<and> (of_char c :: nat) \<le> 57"

definition digit_val :: "char \<Rightarrow> int" where
  "digit_val c = of_char c - 48"

definition dec_val :: "string \<Rightarrow> int" where
  "dec_val ds = foldl (\<lambda>v c. 10 * v + digit_val c) 0 ds"

definition LLONG_MAX :: int where "LLONG_MAX = 2 ^ 63 - 1"
definition LLONG_MIN :: int where "LLONG_MIN = - (2 ^ 63)"

definition strtoll :: "string \<Rightarrow> int \<times> string" where
  "strtoll nptr =
     (let s1 = dropWhile is_space nptr;
          neg = (s1 \<noteq> [] \<and> hd s1 = CHR ''-'');
          s2 = (if s1 \<noteq> [] \<and> (hd s1 = CHR ''-'' \<or> hd s1 = CHR ''+'') then tl s1 else s1);
          ds = takeWhile is_digit s2
      in if ds = [] then (0, nptr)
         else (max LLONG_MIN (min LLONG_MAX (if neg then - dec_val ds else dec_val ds)),
               dropWhile is_digit s2))"

definition to_uint64_t :: "string \<Rightarrow> u64 option" where
  "to_uint64_t str =
     (let (v, endptr) = strtoll (c_str str); tmp = (word_of_int v :: u64)
      in case endptr of
           [] \<Rightarrow> Some tmp
         | c # _ \<Rightarrow>
             if c = CHR ''k'' \<or> c = CHR ''K'' then Some (tmp * 1024)
             else if c = CHR ''m'' \<or> c = CHR ''M'' then Some (tmp * (1024 * 1024))
             else if c = CHR ''g'' \<or> c = CHR ''G'' then Some (tmp * (1024 * 1024 * 1024))
             else if c = CHR ''t'' \<or> c = CHR ''T'' then Some (tmp * (1024 * 1024 * 1024 * 1024))
             else None)"

definition to_time_t :: "string \<Rightarrow> time_t option" where
  "to_time_t str =
     (let (tmp, endptr) = strtoll (c_str str)
      in if endptr \<noteq> [] then None
         else if tmp < 0 then None
         else Some (word_of_int tmp))"

section \<open>Printing\<close>

text \<open>\<^verbatim>\<open>os << uint_\<close>: decimal digits without leading zeros.\<close>

definition digit_char :: "nat \<Rightarrow> char" where
  "digit_char d = char_of (48 + d)"

fun dec_str :: "nat \<Rightarrow> string" where
  "dec_str n = (if n < 10 then [digit_char n] else dec_str (n div 10) @ [digit_char (n mod 10)])"

declare dec_str.simps [simp del]

definition u64_str :: "u64 \<Rightarrow> string" where
  "u64_str x = dec_str (unat x)"

lemma of_char_digit_char: "d < 10 \<Longrightarrow> (of_char (digit_char d) :: nat) = 48 + d"
  by (simp add: digit_char_def)

lemma digit_val_char: "d < 10 \<Longrightarrow> digit_val (digit_char d) = int d"
  using of_char_digit_char [of d] by (simp add: digit_val_def) (metis add_diff_cancel_left' of_nat_add of_nat_numeral of_nat_of_char)

lemma is_digit_char: "d < 10 \<Longrightarrow> is_digit (digit_char d)"
  by (simp add: is_digit_def of_char_digit_char)

lemma dec_str_digits: "c \<in> set (dec_str n) \<Longrightarrow> is_digit c"
proof (induction n rule: dec_str.induct)
  case (1 n)
  then show ?case
    by (auto simp: dec_str.simps [of n] is_digit_char split: if_splits)
qed

lemma dec_str_nonempty: "dec_str n \<noteq> []"
  by (subst dec_str.simps) simp

lemma dec_val_dec_str: "dec_val (dec_str n) = int n"
proof (induction n rule: dec_str.induct)
  case (1 n)
  show ?case
  proof (cases "n < 10")
    case True
    then show ?thesis by (simp add: dec_str.simps [of n] dec_val_def digit_val_char)
  next
    case False
    then have "dec_val (dec_str (n div 10)) = int (n div 10)" using 1 by simp
    then have "dec_val (dec_str n) = 10 * int (n div 10) + int (n mod 10)"
      using False by (simp add: dec_str.simps [of n] dec_val_def digit_val_char)
    then show ?thesis by (simp add: zdiv_int zmod_int)
  qed
qed

section \<open>Parsing what was printed\<close>

lemma digit_not_special:
  "is_digit c \<Longrightarrow> \<not> is_space c \<and> c \<noteq> CHR ''-'' \<and> c \<noteq> CHR ''+'' \<and> c \<noteq> NUL"
  by (auto simp: is_digit_def is_space_def)

lemma dec_val_nonneg: "(\<forall>c \<in> set ds. is_digit c) \<Longrightarrow> 0 \<le> dec_val ds"
proof (induction ds rule: rev_induct)
  case (snoc c ds)
  have "0 \<le> digit_val c"
    using snoc.prems unfolding is_digit_def digit_val_def
    by (metis diff_ge_0_iff_ge list.set_intros(1) of_nat_le_iff of_nat_numeral of_nat_of_char
        in_set_conv_decomp)
  then show ?case using snoc by (simp add: dec_val_def)
qed (simp add: dec_val_def)

lemma takeWhile_digits:
  "\<forall>c \<in> set ds. P c \<Longrightarrow> rest = [] \<or> \<not> P (hd rest) \<Longrightarrow>
   takeWhile P (ds @ rest) = ds \<and> dropWhile P (ds @ rest) = rest"
  by (induction ds) (cases rest; auto)+

lemma strtoll_digits:
  assumes ds: "\<forall>c \<in> set ds. is_digit c" "ds \<noteq> []" and rest: "rest = [] \<or> \<not> is_digit (hd rest)"
  shows "strtoll (ds @ rest) = (min LLONG_MAX (dec_val ds), rest)"
proof -
  obtain c cs where c: "ds = c # cs" using ds(2) by (cases ds) auto
  have hd: "\<not> is_space c" "c \<noteq> CHR ''-''" "c \<noteq> CHR ''+''"
    using ds(1) c digit_not_special [of c] by auto
  have tw: "takeWhile is_digit (ds @ rest) = ds" "dropWhile is_digit (ds @ rest) = rest"
    using takeWhile_digits [OF ds(1) rest] by auto
  have dw: "dropWhile is_space (ds @ rest) = ds @ rest" using hd c by simp
  have "strtoll (ds @ rest) = (max LLONG_MIN (min LLONG_MAX (dec_val ds)), rest)"
    unfolding strtoll_def Let_def dw using hd c tw ds(2) by simp
  moreover have "LLONG_MIN \<le> min LLONG_MAX (dec_val ds)"
    using dec_val_nonneg [OF ds(1)] by (simp add: LLONG_MIN_def LLONG_MAX_def)
  ultimately show ?thesis by (simp add: max_absorb2)
qed

lemma strtoll_dec_str:
  "rest = [] \<or> \<not> is_digit (hd rest) \<Longrightarrow>
   strtoll (dec_str n @ rest) = (min LLONG_MAX (int n), rest)"
  using strtoll_digits [of "dec_str n" rest] dec_str_digits dec_str_nonempty
  by (simp add: dec_val_dec_str)

lemma c_str_dec_str: "NUL \<notin> set rest \<Longrightarrow> c_str (dec_str n @ rest) = dec_str n @ rest"
  using dec_str_digits digit_not_special by (intro c_str_id) auto

text \<open>
  A number printed by the control file reads back as itself below \<open>2 ^ 63\<close>; the numbers above
  clamp, because the parser goes through a signed \<^verbatim>\<open>long long\<close>.
\<close>

lemma to_uint64_t_u64_str:
  "to_uint64_t (u64_str x) = Some (if unat x < 2 ^ 63 then x else 2 ^ 63 - 1)"
proof -
  have "strtoll (c_str (u64_str x)) = (min LLONG_MAX (int (unat x)), [])"
    using strtoll_dec_str [of "[]" "unat x"] c_str_dec_str [of "[]" "unat x"]
    by (simp add: u64_str_def)
  then have "to_uint64_t (u64_str x) = Some (word_of_int (min LLONG_MAX (int (unat x))))"
    by (simp add: to_uint64_t_def)
  also have "word_of_int (min LLONG_MAX (int (unat x))) = (if unat x < 2 ^ 63 then x else 2 ^ 63 - 1)"
  proof (cases "unat x < 2 ^ 63")
    case True
    then have "int (unat x) < 2 ^ 63" by (metis of_nat_less_iff of_nat_numeral of_nat_power)
    then have "min LLONG_MAX (int (unat x)) = int (unat x)" by (simp add: LLONG_MAX_def)
    then show ?thesis using True by simp
  next
    case False
    then have "int (unat x) \<ge> 2 ^ 63" by (metis not_less of_nat_less_iff of_nat_numeral of_nat_power)
    then have "min LLONG_MAX (int (unat x)) = 2 ^ 63 - 1" by (simp add: LLONG_MAX_def)
    then show ?thesis using False by simp
  qed
  finally show ?thesis .
qed

end
