(* ===== verification/Control_File.thy ===== *)
theory Control_File
  imports Statfs Numbers "HOL-Library.List_Lexorder" "HOL-Library.Char_ord"
begin

text \<open>
  \<^verbatim>\<open>fuse_getxattr.cpp\<close>, \<^verbatim>\<open>fuse_listxattr.cpp\<close> and \<^verbatim>\<open>fuse_setxattr.cpp\<close>: the extended attributes of files, and those of the
  control file, which read and change the settings of the mount while it runs.

  Of libfuse the control file reads and sets three timeouts; they are floating-point numbers, whose type and conversions
  (\<^verbatim>\<open>strtod\<close> and the output of a stream) are parameters, as are the version of the build and the process id. An
  operation returns \<open>None\<close> where the code reads an element a vector does not have.
\<close>

unbundle bit_operations_syntax

record 'd fuse_conf =
  fu_attr_timeout :: 'd
  fu_entry_timeout :: 'd
  fu_negative_timeout :: 'd

record 'd platform =
  version :: string
  pid :: nat
  strtod :: "string \<Rightarrow> 'd \<times> string"
  double_str :: "'d \<Rightarrow> string"

abbreviation XATTR_CREATE :: u32 where "XATTR_CREATE \<equiv> 1"

section \<open>Reading the settings\<close>

definition time_str :: "time_t \<Rightarrow> string" where
  "time_str t = (if sint t < 0 then CHR ''-'' # dec_str (nat (- sint t)) else dec_str (nat (sint t)))"

definition getxattr_controlfile_fusefunc_policy :: "Config \<Rightarrow> string \<Rightarrow> string" where
  "getxattr_controlfile_fusefunc_policy cfg attr =
     (let fusefunc = FuseFunc_find attr
      in if fusefunc \<noteq> fusefuncs (- 1) then pol_str (cf_policies cfg (ff_enum fusefunc)) else [])"

definition getxattr_controlfile_category_policy :: "Config \<Rightarrow> string \<Rightarrow> string option" where
  "getxattr_controlfile_category_policy cfg attr =
     (let cat = Category_find attr
      in if cat \<noteq> categories (- 1)
         then let pols = map (\<lambda>i. pol_str (cf_policies cfg (ff_enum (fusefuncs (int i)))))
                           (filter (\<lambda>i. cat_enum cat = ff_category (fusefuncs (int i))) [0 ..< FF_END])
              in join (remdups_adj (sort pols)) CHR '',''
         else Some [])"

definition getxattr_controlfile_srcmounts :: "Config \<Rightarrow> string option" where
  "getxattr_controlfile_srcmounts cfg = to_string False (cf_branches cfg)"

definition getxattr_controlfile_branches :: "Config \<Rightarrow> string option" where
  "getxattr_controlfile_branches cfg = to_string True (cf_branches cfg)"

definition getxattr_controlfile_uint64_t :: "u64 \<Rightarrow> string" where
  "getxattr_controlfile_uint64_t x = u64_str x"

definition getxattr_controlfile_time_t :: "time_t \<Rightarrow> string" where
  "getxattr_controlfile_time_t time = time_str time"

definition getxattr_controlfile_bool :: "bool \<Rightarrow> string" where
  "getxattr_controlfile_bool b = (if b then ''true'' else ''false'')"

definition getxattr_controlfile_errno :: "int \<Rightarrow> string" where
  "getxattr_controlfile_errno e =
     (if e = 0 then ''passthrough'' else if e = ENOATTR then ''noattr'' else if e = ENOSYS then ''nosys'' else ''ERROR'')"

definition getxattr_controlfile_statfs :: "StatFS \<Rightarrow> string" where
  "getxattr_controlfile_statfs e = (case e of StatFS_BASE \<Rightarrow> ''base'' | StatFS_FULL \<Rightarrow> ''full'')"

definition getxattr_controlfile_statfsignore :: "StatFSIgnore \<Rightarrow> string" where
  "getxattr_controlfile_statfsignore e =
     (case e of StatFSIgnore_NONE \<Rightarrow> ''none'' | StatFSIgnore_RO \<Rightarrow> ''ro'' | StatFSIgnore_NC \<Rightarrow> ''nc'')"

definition getxattr_controlfile_policies :: string where
  "getxattr_controlfile_policies =
     foldl (\<lambda>attrvalue i. attrvalue @ CHR '','' # pol_str (policies (int i))) (pol_str (policies 0)) [1 ..< POL_END]"

definition getxattr_controlfile_version :: "'d platform \<Rightarrow> string" where
  "getxattr_controlfile_version pf =
     (if version pf = [] then ''unknown_possible_problem_with_build'' else version pf)"

definition getxattr_controlfile_pid :: "'d platform \<Rightarrow> string" where
  "getxattr_controlfile_pid pf = dec_str (pid pf)"

definition control_value_3 :: "'d platform \<Rightarrow> Config \<Rightarrow> string \<Rightarrow> string option" where
  "control_value_3 pf cfg a =
     (if a = ''srcmounts'' then getxattr_controlfile_srcmounts cfg
      else if a = ''branches'' then getxattr_controlfile_branches cfg
      else Some (
        if a = ''minfreespace'' then getxattr_controlfile_uint64_t (cf_minfreespace cfg)
        else if a = ''moveonenospc'' then getxattr_controlfile_bool (cf_moveonenospc cfg)
        else if a = ''dropcacheonclose'' then getxattr_controlfile_bool (cf_dropcacheonclose cfg)
        else if a = ''symlinkify'' then getxattr_controlfile_bool (cf_symlinkify cfg)
        else if a = ''symlinkify_timeout'' then getxattr_controlfile_time_t (cf_symlinkify_timeout cfg)
        else if a = ''nullrw'' then getxattr_controlfile_bool (cf_nullrw cfg)
        else if a = ''ignorepponrename'' then getxattr_controlfile_bool (cf_ignorepponrename cfg)
        else if a = ''security_capability'' then getxattr_controlfile_bool (cf_security_capability cfg)
        else if a = ''xattr'' then getxattr_controlfile_errno (cf_xattr cfg)
        else if a = ''link_cow'' then getxattr_controlfile_bool (cf_link_cow cfg)
        else if a = ''statfs'' then getxattr_controlfile_statfs (cf_statfs cfg)
        else if a = ''statfs_ignore'' then getxattr_controlfile_statfsignore (cf_statfs_ignore cfg)
        else if a = ''policies'' then getxattr_controlfile_policies
        else if a = ''version'' then getxattr_controlfile_version pf
        else if a = ''pid'' then getxattr_controlfile_pid pf
        else if a = ''direct_io'' then getxattr_controlfile_bool (cf_direct_io cfg)
        else []))"

definition control_value_4 :: "'d platform \<Rightarrow> 'd fuse_conf \<Rightarrow> Config \<Rightarrow> u64 \<Rightarrow> string \<Rightarrow> string \<Rightarrow> string option" where
  "control_value_4 pf fu cfg statfs_timeout a b =
     (if a = ''category'' then getxattr_controlfile_category_policy cfg b
      else Some (
        if a = ''func'' then getxattr_controlfile_fusefunc_policy cfg b
        else if a = ''cache'' \<and> b = ''open'' then getxattr_controlfile_uint64_t (pc_timeout (cf_open_cache cfg))
        else if a = ''cache'' \<and> b = ''statfs'' then getxattr_controlfile_uint64_t statfs_timeout
        else if a = ''cache'' \<and> b = ''attr'' then double_str pf (fu_attr_timeout fu)
        else if a = ''cache'' \<and> b = ''entry'' then double_str pf (fu_entry_timeout fu)
        else if a = ''cache'' \<and> b = ''negative_entry'' then double_str pf (fu_negative_timeout fu)
        else []))"

text \<open>The value a request is answered with: the return code and what is copied to the buffer.\<close>

definition getxattr_from_string :: "nat \<Rightarrow> string \<Rightarrow> int \<times> string option" where
  "getxattr_from_string destbufsize src =
     (if destbufsize = 0 then (to_int (int (length src)), None)
      else if length src > destbufsize then (- ERANGE, None)
      else (to_int (int (length src)), Some src))"

definition getxattr_controlfile ::
  "'d platform \<Rightarrow> 'd fuse_conf \<Rightarrow> Config \<Rightarrow> u64 \<Rightarrow> string \<Rightarrow> nat \<Rightarrow> (int \<times> string option) option" where
  "getxattr_controlfile pf fu cfg statfs_timeout attrname cnt =
     (let attr = split [] attrname CHR ''.''
      in if attr = [] then None
         else if attr ! 0 \<noteq> ''user'' then Some (- ENOATTR, None)
         else if length attr < 2 then None
         else if attr ! 1 \<noteq> ''mergerfs'' then Some (- ENOATTR, None)
         else
           map_option (\<lambda>attrvalue. if attrvalue = [] then (- ENOATTR, None) else getxattr_from_string cnt attrvalue)
             (if length attr = 3 then control_value_3 pf cfg (attr ! 2)
              else if length attr = 4 then control_value_4 pf fu cfg statfs_timeout (attr ! 2) (attr ! 3)
              else Some []))"

section \<open>Reading the attributes of a file\<close>

definition is_attrname_security_capability :: "string \<Rightarrow> bool" where
  "is_attrname_security_capability attrname \<longleftrightarrow> attrname = ''security.capability''"

definition l_lgetxattr :: "'w os \<Rightarrow> string \<Rightarrow> string \<Rightarrow> nat \<Rightarrow> 'w sys \<Rightarrow> (int \<times> string option) \<times> 'w sys" where
  "l_lgetxattr os path attrname cnt s =
     (case fs_lgetxattr os path attrname cnt s of
        (None, s) \<Rightarrow> ((- errno s, None), s)
      | (Some v, s) \<Rightarrow>
          ((if to_int (int (length v)) = - 1 then - errno s else to_int (int (length v)), if cnt = 0 then None else Some v), s))"

definition getxattr_user_mergerfs_allpaths ::
  "'w os \<Rightarrow> Branch list \<Rightarrow> string \<Rightarrow> nat \<Rightarrow> 'w sys \<Rightarrow> (int \<times> string option) option \<times> 'w sys" where
  "getxattr_user_mergerfs_allpaths os branches fusepath cnt s =
     (case findallfiles os (to_paths branches) fusepath [] s of (paths, s) \<Rightarrow>
        (map_option (getxattr_from_string cnt) (join paths NUL), s))"

definition getxattr_user_mergerfs ::
  "'w os \<Rightarrow> string \<Rightarrow> string \<Rightarrow> string \<Rightarrow> Branch list \<Rightarrow> string \<Rightarrow> nat \<Rightarrow> 'w sys \<Rightarrow> (int \<times> string option) option \<times> 'w sys" where
  "getxattr_user_mergerfs os basepath fusepath fullpath branches attrname cnt s =
     (let attr = split [] attrname CHR ''.''
      in if length attr < 3 then (None, s)
         else if attr ! 2 = ''basepath'' then (Some (getxattr_from_string cnt basepath), s)
         else if attr ! 2 = ''relpath'' then (Some (getxattr_from_string cnt fusepath), s)
         else if attr ! 2 = ''fullpath'' then (Some (getxattr_from_string cnt fullpath), s)
         else if attr ! 2 = ''allpaths'' then getxattr_user_mergerfs_allpaths os branches fusepath cnt s
         else (Some (- ENOATTR, None), s))"

definition l_getxattr ::
  "'w os \<Rightarrow> Policy \<Rightarrow> Branch list \<Rightarrow> u64 \<Rightarrow> string \<Rightarrow> string \<Rightarrow> nat \<Rightarrow> 'w sys \<Rightarrow> (int \<times> string option) option \<times> 'w sys" where
  "l_getxattr os searchFunc branches minfreespace fusepath attrname cnt s =
     (case Func_Base os Cat_search searchFunc branches fusepath minfreespace [] s of (rv, basepaths, s) \<Rightarrow>
      if rv = - 1 then (Some (- errno s, None), s)
      else
        let fullpath = path_make (basepaths ! 0) fusepath
        in if isprefix attrname ''user.mergerfs.''
           then getxattr_user_mergerfs os (basepaths ! 0) fusepath fullpath branches attrname cnt s
           else (case l_lgetxattr os fullpath attrname cnt s of (r, s) \<Rightarrow> (Some r, s)))"

definition FUSE_getxattr ::
  "'w os \<Rightarrow> 'd platform \<Rightarrow> 'd fuse_conf \<Rightarrow> fuse_context \<Rightarrow> string \<Rightarrow> string \<Rightarrow> nat \<Rightarrow> Config \<Rightarrow> 'w sys \<Rightarrow>
   (int \<times> string option) option \<times> 'w sys" where
  "FUSE_getxattr os pf fu fc fusepath attrname cnt cfg s =
     (if fusepath = cf_controlfile cfg then (getxattr_controlfile pf fu cfg (g_timeout s) attrname cnt, s)
      else if \<not> cf_security_capability cfg \<and> is_attrname_security_capability attrname then (Some (- ENOATTR, None), s)
      else if cf_xattr cfg \<noteq> 0 then (Some (- cf_xattr cfg, None), s)
      else
        let s = ugid_Set os (fc_uid fc) (fc_gid fc) s
        in l_getxattr os (cf_policies cfg FF_getxattr) (cf_branches cfg) (cf_minfreespace cfg) fusepath attrname cnt s)"

section \<open>Listing\<close>

definition control_names :: "string list" where
  "control_names =
     [''user.mergerfs.branches'', ''user.mergerfs.cache.attr'', ''user.mergerfs.cache.entry'',
      ''user.mergerfs.cache.negative_entry'', ''user.mergerfs.cache.open'', ''user.mergerfs.cache.statfs'',
      ''user.mergerfs.direct_io'', ''user.mergerfs.dropcacheonclose'', ''user.mergerfs.ignorepponrename'',
      ''user.mergerfs.link_cow'', ''user.mergerfs.minfreespace'', ''user.mergerfs.moveonenospc'', ''user.mergerfs.nullrw'',
      ''user.mergerfs.pid'', ''user.mergerfs.policies'', ''user.mergerfs.security_capability'', ''user.mergerfs.srcmounts'',
      ''user.mergerfs.statfs'', ''user.mergerfs.statfs_ignore'', ''user.mergerfs.symlinkify'',
      ''user.mergerfs.symlinkify_timeout'', ''user.mergerfs.version'', ''user.mergerfs.xattr'']"

definition listxattr_controlfile :: "nat \<Rightarrow> int \<times> string option" where
  "listxattr_controlfile cnt =
     (let xattrs = concat (map (\<lambda>x. x @ [NUL]) control_names)
          @ concat (map (\<lambda>i. ''user.mergerfs.category.'' @ cat_str (categories (int i)) @ [NUL]) [0 ..< CAT_END])
          @ concat (map (\<lambda>i. ''user.mergerfs.func.'' @ ff_str (fusefuncs (int i)) @ [NUL]) [0 ..< FF_END])
      in if cnt = 0 then (int (length xattrs), None)
         else if cnt < length xattrs then (- ERANGE, None)
         else (int (length xattrs), Some xattrs))"

definition l_listxattr ::
  "'w os \<Rightarrow> Policy \<Rightarrow> Branch list \<Rightarrow> u64 \<Rightarrow> string \<Rightarrow> nat \<Rightarrow> 'w sys \<Rightarrow> (int \<times> string option) \<times> 'w sys" where
  "l_listxattr os searchFunc branches minfreespace fusepath cnt s =
     (case Func_Base os Cat_search searchFunc branches fusepath minfreespace [] s of (rv, basepaths, s) \<Rightarrow>
      if rv = - 1 then ((- errno s, None), s)
      else (case fs_llistxattr os (path_make (basepaths ! 0) fusepath) cnt s of
              (None, s) \<Rightarrow> ((- errno s, None), s)
            | (Some v, s) \<Rightarrow>
                ((if to_int (int (length v)) = - 1 then - errno s else to_int (int (length v)),
                  if cnt = 0 then None else Some v), s)))"

definition FUSE_listxattr ::
  "'w os \<Rightarrow> fuse_context \<Rightarrow> string \<Rightarrow> nat \<Rightarrow> Config \<Rightarrow> 'w sys \<Rightarrow> (int \<times> string option) \<times> 'w sys" where
  "FUSE_listxattr os fc fusepath cnt cfg s =
     (if fusepath = cf_controlfile cfg then (listxattr_controlfile cnt, s)
      else if cf_xattr cfg = ENOATTR then ((0, None), s)
      else if cf_xattr cfg \<noteq> 0 then ((- cf_xattr cfg, None), s)
      else
        let s = ugid_Set os (fc_uid fc) (fc_gid fc) s
        in l_listxattr os (cf_policies cfg FF_listxattr) (cf_branches cfg) (cf_minfreespace cfg) fusepath cnt s)"

section \<open>Changing the settings\<close>

definition split_attrval :: "string \<Rightarrow> string \<times> string" where
  "split_attrval attrval = (takeWhile (\<lambda>c. c \<noteq> CHR ''/'') attrval, dropWhile (\<lambda>c. c \<noteq> CHR ''/'') attrval)"

definition exclusive :: "u32 \<Rightarrow> bool" where
  "exclusive flags \<longleftrightarrow> flags AND XATTR_CREATE = XATTR_CREATE"

definition setxattr_srcmounts ::
  "'w os \<Rightarrow> 'w \<Rightarrow> string \<Rightarrow> u32 \<Rightarrow> Branch list \<Rightarrow> (int \<times> Branch list) option" where
  "setxattr_srcmounts os w attrval flags branches =
     (if exclusive flags then Some (- EEXIST, branches)
      else case split_attrval attrval of (instruction, values) \<Rightarrow>
        if instruction = ''+'' then Some (0, add_end os w values branches)
        else if instruction = ''+<'' then Some (0, add_begin os w values branches)
        else if instruction = ''+>'' then Some (0, add_end os w values branches)
        else if instruction = ''-'' then Some (0, erase_fnmatch os values branches)
        else if instruction = ''-<'' then map_option (Pair 0) (erase_begin branches)
        else if instruction = ''->'' then map_option (Pair 0) (erase_end branches)
        else if instruction = ''='' then Some (0, branches_set os w values branches)
        else if instruction = [] then Some (0, branches_set os w values branches)
        else Some (- EINVAL, branches))"

definition setxattr_uint64_t :: "string \<Rightarrow> u32 \<Rightarrow> u64 \<Rightarrow> int \<times> u64" where
  "setxattr_uint64_t attrval flags x =
     (if exclusive flags then (- EEXIST, x)
      else case to_uint64_t attrval of None \<Rightarrow> (- EINVAL, x) | Some y \<Rightarrow> (0, y))"

definition to_double :: "'d platform \<Rightarrow> string \<Rightarrow> 'd option" where
  "to_double pf str = (case strtod pf (c_str str) of (tmp, endptr) \<Rightarrow> if endptr \<noteq> [] then None else Some tmp)"

definition setxattr_double :: "'d platform \<Rightarrow> string \<Rightarrow> u32 \<Rightarrow> 'd \<Rightarrow> int \<times> 'd" where
  "setxattr_double pf attrval flags d =
     (if exclusive flags then (- EEXIST, d)
      else case to_double pf attrval of None \<Rightarrow> (- EINVAL, d) | Some y \<Rightarrow> (0, y))"

definition setxattr_time_t :: "string \<Rightarrow> u32 \<Rightarrow> time_t \<Rightarrow> int \<times> time_t" where
  "setxattr_time_t attrval flags t =
     (if exclusive flags then (- EEXIST, t)
      else case to_time_t attrval of None \<Rightarrow> (- EINVAL, t) | Some y \<Rightarrow> (0, y))"

definition setxattr_bool :: "string \<Rightarrow> u32 \<Rightarrow> bool \<Rightarrow> int \<times> bool" where
  "setxattr_bool attrval flags b =
     (if exclusive flags then (- EEXIST, b)
      else if attrval = ''false'' then (0, False)
      else if attrval = ''true'' then (0, True)
      else (- EINVAL, b))"

text \<open>The value is assigned to a parameter passed by value: the setting of the caller stays.\<close>

definition setxattr_xattr :: "string \<Rightarrow> u32 \<Rightarrow> int" where
  "setxattr_xattr attrval flags =
     (if exclusive flags then - EEXIST
      else if attrval = ''passthrough'' then 0
      else if attrval = ''noattr'' then 0
      else if attrval = ''nosys'' then 0
      else - EINVAL)"

definition setxattr_statfs :: "string \<Rightarrow> u32 \<Rightarrow> StatFS \<Rightarrow> int \<times> StatFS" where
  "setxattr_statfs attrval flags e =
     (if exclusive flags then (- EEXIST, e)
      else if attrval = ''base'' then (0, StatFS_BASE)
      else if attrval = ''full'' then (0, StatFS_FULL)
      else (- EINVAL, e))"

definition setxattr_statfsignore :: "string \<Rightarrow> u32 \<Rightarrow> StatFSIgnore \<Rightarrow> int \<times> StatFSIgnore" where
  "setxattr_statfsignore attrval flags e =
     (if exclusive flags then (- EEXIST, e)
      else if attrval = ''none'' then (0, StatFSIgnore_NONE)
      else if attrval = ''ro'' then (0, StatFSIgnore_RO)
      else if attrval = ''nc'' then (0, StatFSIgnore_NC)
      else (- EINVAL, e))"

definition setxattr_controlfile_func_policy ::
  "string \<Rightarrow> string \<Rightarrow> u32 \<Rightarrow> Config \<Rightarrow> 'w sys \<Rightarrow> int \<times> Config \<times> 'w sys" where
  "setxattr_controlfile_func_policy funcname attrval flags cfg s =
     (if exclusive flags then (- EEXIST, cfg, s)
      else
        let cfg = (if funcname = ''open'' then cfg\<lparr>cf_open_cache := PolicyCache_clear (cf_open_cache cfg)\<rparr> else cfg)
        in case set_func_policy funcname attrval cfg s of (rv, cfg, s) \<Rightarrow> (if rv = - 1 then - errno s else 0, cfg, s))"

definition setxattr_controlfile_category_policy ::
  "string \<Rightarrow> string \<Rightarrow> u32 \<Rightarrow> Config \<Rightarrow> 'w sys \<Rightarrow> int \<times> Config \<times> 'w sys" where
  "setxattr_controlfile_category_policy categoryname attrval flags cfg s =
     (if exclusive flags then (- EEXIST, cfg, s)
      else
        let cfg = (if categoryname = ''search'' then cfg\<lparr>cf_open_cache := PolicyCache_clear (cf_open_cache cfg)\<rparr> else cfg)
        in case set_category_policy categoryname attrval cfg s of (rv, cfg, s) \<Rightarrow> (if rv = - 1 then - errno s else 0, cfg, s))"

definition statvfs_cache_timeout :: "u64 \<Rightarrow> 'w sys \<Rightarrow> 'w sys" where
  "statvfs_cache_timeout timeout s = s\<lparr>g_timeout := timeout\<rparr>"

definition setxattr_statfs_timeout :: "string \<Rightarrow> u32 \<Rightarrow> 'w sys \<Rightarrow> int \<times> 'w sys" where
  "setxattr_statfs_timeout attrval flags s =
     (case setxattr_uint64_t attrval flags 0 of (rv, timeout) \<Rightarrow>
        (rv, if rv \<ge> 0 then statvfs_cache_timeout timeout s else s))"

definition setxattr_controlfile_cache_attr :: "'d platform \<Rightarrow> string \<Rightarrow> u32 \<Rightarrow> 'd fuse_conf \<Rightarrow> int \<times> 'd fuse_conf" where
  "setxattr_controlfile_cache_attr pf attrval flags fu =
     (case setxattr_double pf attrval flags (fu_attr_timeout fu) of (rv, d) \<Rightarrow>
        (rv, if rv \<ge> 0 then fu\<lparr>fu_attr_timeout := d\<rparr> else fu))"

definition setxattr_controlfile_cache_entry :: "'d platform \<Rightarrow> string \<Rightarrow> u32 \<Rightarrow> 'd fuse_conf \<Rightarrow> int \<times> 'd fuse_conf" where
  "setxattr_controlfile_cache_entry pf attrval flags fu =
     (case setxattr_double pf attrval flags (fu_entry_timeout fu) of (rv, d) \<Rightarrow>
        (rv, if rv \<ge> 0 then fu\<lparr>fu_entry_timeout := d\<rparr> else fu))"

definition setxattr_controlfile_cache_negative_entry ::
  "'d platform \<Rightarrow> string \<Rightarrow> u32 \<Rightarrow> 'd fuse_conf \<Rightarrow> int \<times> 'd fuse_conf" where
  "setxattr_controlfile_cache_negative_entry pf attrval flags fu =
     (case setxattr_double pf attrval flags (fu_negative_timeout fu) of (rv, d) \<Rightarrow>
        (rv, if rv \<ge> 0 then fu\<lparr>fu_negative_timeout := d\<rparr> else fu))"

text \<open>The settings of one name, in the order of the code; \<open>put\<close> places a setting back into the configuration.\<close>

definition put :: "('a \<Rightarrow> Config) \<Rightarrow> int \<times> 'a \<Rightarrow> int \<times> Config" where
  "put upd r = (case r of (rv, x) \<Rightarrow> (rv, upd x))"

definition control_set_3 :: "'w os \<Rightarrow> 'w \<Rightarrow> string \<Rightarrow> string \<Rightarrow> u32 \<Rightarrow> Config \<Rightarrow> (int \<times> Config) option" where
  "control_set_3 os w a v flags cfg =
     (if a = ''srcmounts'' \<or> a = ''branches''
      then map_option (put (\<lambda>x. cfg\<lparr>cf_branches := x\<rparr>)) (setxattr_srcmounts os w v flags (cf_branches cfg))
      else Some (
        if a = ''minfreespace'' then put (\<lambda>x. cfg\<lparr>cf_minfreespace := x\<rparr>) (setxattr_uint64_t v flags (cf_minfreespace cfg))
        else if a = ''moveonenospc'' then put (\<lambda>x. cfg\<lparr>cf_moveonenospc := x\<rparr>) (setxattr_bool v flags (cf_moveonenospc cfg))
        else if a = ''dropcacheonclose''
          then put (\<lambda>x. cfg\<lparr>cf_dropcacheonclose := x\<rparr>) (setxattr_bool v flags (cf_dropcacheonclose cfg))
        else if a = ''symlinkify'' then put (\<lambda>x. cfg\<lparr>cf_symlinkify := x\<rparr>) (setxattr_bool v flags (cf_symlinkify cfg))
        else if a = ''symlinkify_timeout''
          then put (\<lambda>x. cfg\<lparr>cf_symlinkify_timeout := x\<rparr>) (setxattr_time_t v flags (cf_symlinkify_timeout cfg))
        else if a = ''ignorepponrename''
          then put (\<lambda>x. cfg\<lparr>cf_ignorepponrename := x\<rparr>) (setxattr_bool v flags (cf_ignorepponrename cfg))
        else if a = ''security_capability''
          then put (\<lambda>x. cfg\<lparr>cf_security_capability := x\<rparr>) (setxattr_bool v flags (cf_security_capability cfg))
        else if a = ''xattr'' then (setxattr_xattr v flags, cfg)
        else if a = ''link_cow'' then put (\<lambda>x. cfg\<lparr>cf_link_cow := x\<rparr>) (setxattr_bool v flags (cf_link_cow cfg))
        else if a = ''statfs'' then put (\<lambda>x. cfg\<lparr>cf_statfs := x\<rparr>) (setxattr_statfs v flags (cf_statfs cfg))
        else if a = ''statfs_ignore''
          then put (\<lambda>x. cfg\<lparr>cf_statfs_ignore := x\<rparr>) (setxattr_statfsignore v flags (cf_statfs_ignore cfg))
        else if a = ''direct_io'' then put (\<lambda>x. cfg\<lparr>cf_direct_io := x\<rparr>) (setxattr_bool v flags (cf_direct_io cfg))
        else (- EINVAL, cfg)))"

definition control_set_4 ::
  "'d platform \<Rightarrow> string \<Rightarrow> string \<Rightarrow> string \<Rightarrow> u32 \<Rightarrow> 'd fuse_conf \<Rightarrow> Config \<Rightarrow> 'w sys \<Rightarrow>
   int \<times> 'd fuse_conf \<times> Config \<times> 'w sys" where
  "control_set_4 pf a b v flags fu cfg s =
     (if a = ''category''
      then (case setxattr_controlfile_category_policy b v flags cfg s of (rv, cfg, s) \<Rightarrow> (rv, fu, cfg, s))
      else if a = ''func''
      then (case setxattr_controlfile_func_policy b v flags cfg s of (rv, cfg, s) \<Rightarrow> (rv, fu, cfg, s))
      else if a = ''cache'' \<and> b = ''open''
      then (case setxattr_uint64_t v flags (pc_timeout (cf_open_cache cfg)) of (rv, x) \<Rightarrow>
              (rv, fu, cfg\<lparr>cf_open_cache := (cf_open_cache cfg)\<lparr>pc_timeout := x\<rparr>\<rparr>, s))
      else if a = ''cache'' \<and> b = ''statfs''
      then (case setxattr_statfs_timeout v flags s of (rv, s) \<Rightarrow> (rv, fu, cfg, s))
      else if a = ''cache'' \<and> b = ''attr''
      then (case setxattr_controlfile_cache_attr pf v flags fu of (rv, fu) \<Rightarrow> (rv, fu, cfg, s))
      else if a = ''cache'' \<and> b = ''entry''
      then (case setxattr_controlfile_cache_entry pf v flags fu of (rv, fu) \<Rightarrow> (rv, fu, cfg, s))
      else if a = ''cache'' \<and> b = ''negative_entry''
      then (case setxattr_controlfile_cache_negative_entry pf v flags fu of (rv, fu) \<Rightarrow> (rv, fu, cfg, s))
      else (- EINVAL, fu, cfg, s))"

definition setxattr_controlfile ::
  "'w os \<Rightarrow> 'd platform \<Rightarrow> string \<Rightarrow> string \<Rightarrow> u32 \<Rightarrow> 'd fuse_conf \<Rightarrow> Config \<Rightarrow> 'w sys \<Rightarrow>
   (int \<times> 'd fuse_conf \<times> Config \<times> 'w sys) option" where
  "setxattr_controlfile os pf attrname attrval flags fu cfg s =
     (let attr = split [] attrname CHR ''.''
      in if length attr = 3
         then map_option (\<lambda>(rv, cfg). (rv, fu, cfg, s)) (control_set_3 os (world s) (attr ! 2) attrval flags cfg)
         else if length attr = 4 then Some (control_set_4 pf (attr ! 2) (attr ! 3) attrval flags fu cfg s)
         else Some (- EINVAL, fu, cfg, s))"

definition FUSE_setxattr ::
  "'w os \<Rightarrow> 'd platform \<Rightarrow> fuse_context \<Rightarrow> string \<Rightarrow> string \<Rightarrow> string \<Rightarrow> u32 \<Rightarrow> 'd fuse_conf \<Rightarrow> Config \<Rightarrow> 'w sys \<Rightarrow>
   (int \<times> 'd fuse_conf \<times> Config \<times> 'w sys) option" where
  "FUSE_setxattr os pf fc fusepath attrname attrval flags fu cfg s =
     (if fusepath = cf_controlfile cfg then setxattr_controlfile os pf attrname attrval flags fu cfg s
      else if \<not> cf_security_capability cfg \<and> is_attrname_security_capability attrname then Some (- ENOATTR, fu, cfg, s)
      else if cf_xattr cfg \<noteq> 0 then Some (- cf_xattr cfg, fu, cfg, s)
      else
        let s = ugid_Set os (fc_uid fc) (fc_gid fc) s
        in case l_setxattr os (cf_policies cfg FF_setxattr) (cf_branches cfg) (cf_minfreespace cfg) fusepath attrname attrval
                 flags s of (rv, s) \<Rightarrow> Some (rv, fu, cfg, s))"

end
