(* ===== verification/Fuse_Opt.thy ===== *)
theory Fuse_Opt
  imports Str_Util
begin

text \<open>
  \<^verbatim>\<open>lib/fuse_opt.c\<close> of the bundled libfuse: the parser of the command line, which hands every option to the processor of
  the program and collects what is left for the mount. Memory allocation succeeds. The argument vectors are lists; the
  variables an option may be stored to are reached through the functions \<open>oe_set_int\<close>, \<open>oe_set_str\<close> and \<open>oe_scan\<close> (for
  \<^verbatim>\<open>sscanf\<close>) of the context.
\<close>

record fuse_opt =
  fo_templ :: string
  fo_offset :: "nat option"
  fo_value :: int

abbreviation FUSE_OPT_KEY_OPT :: int where "FUSE_OPT_KEY_OPT \<equiv> - 1"
abbreviation FUSE_OPT_KEY_NONOPT :: int where "FUSE_OPT_KEY_NONOPT \<equiv> - 2"
abbreviation FUSE_OPT_KEY_KEEP :: int where "FUSE_OPT_KEY_KEEP \<equiv> - 3"
abbreviation FUSE_OPT_KEY_DISCARD :: int where "FUSE_OPT_KEY_DISCARD \<equiv> - 4"

text \<open>The part of the context that does not change, and the part that does.\<close>

record 'd opt_env =
  oe_opt :: "fuse_opt list"
  oe_proc :: "'d \<Rightarrow> string \<Rightarrow> int \<Rightarrow> string list \<Rightarrow> int \<times> 'd \<times> string list"
  oe_argv :: "string list"
  oe_set_int :: "nat \<Rightarrow> int \<Rightarrow> 'd \<Rightarrow> 'd"
  oe_set_str :: "nat \<Rightarrow> string \<Rightarrow> 'd \<Rightarrow> 'd"
  oe_scan :: "nat \<Rightarrow> string \<Rightarrow> string \<Rightarrow> 'd \<Rightarrow> 'd option"

record 'd fuse_opt_context =
  oc_data :: 'd
  oc_argctr :: nat
  oc_outargs :: "string list"
  oc_opts :: "string option"
  oc_nonopt :: nat

section \<open>Collecting arguments\<close>

definition fuse_opt_add_arg :: "string list \<Rightarrow> string \<Rightarrow> string list" where
  "fuse_opt_add_arg args arg = args @ [arg]"

definition fuse_opt_insert_arg_common :: "string list \<Rightarrow> nat \<Rightarrow> string \<Rightarrow> string list" where
  "fuse_opt_insert_arg_common args pos arg =
     (let args = fuse_opt_add_arg args arg
      in if pos \<noteq> length args - 1 then take pos args @ last args # drop pos (butlast args) else args)"

definition next_arg :: "'d opt_env \<Rightarrow> 'd fuse_opt_context \<Rightarrow> int \<times> 'd fuse_opt_context" where
  "next_arg env ctx =
     (if oc_argctr ctx + 1 \<ge> length (oe_argv env) then (- 1, ctx) else (0, ctx\<lparr>oc_argctr := oc_argctr ctx + 1\<rparr>))"

definition add_arg :: "'d fuse_opt_context \<Rightarrow> string \<Rightarrow> int \<times> 'd fuse_opt_context" where
  "add_arg ctx arg = (0, ctx\<lparr>oc_outargs := fuse_opt_add_arg (oc_outargs ctx) arg\<rparr>)"

fun escape :: "bool \<Rightarrow> string \<Rightarrow> string" where
  "escape esc [] = []"
| "escape esc (c # cs) =
     (if esc \<and> (c = CHR '','' \<or> c = CHR 0x5C) then CHR 0x5C # c # escape esc cs else c # escape esc cs)"

definition add_opt_common :: "string option \<Rightarrow> string \<Rightarrow> bool \<Rightarrow> string option" where
  "add_opt_common os opt' esc =
     (let old = (case os of None \<Rightarrow> [] | Some d \<Rightarrow> d)
      in Some ((if old \<noteq> [] then old @ '','' else []) @ escape esc opt'))"

definition add_opt :: "'d fuse_opt_context \<Rightarrow> string \<Rightarrow> int \<times> 'd fuse_opt_context" where
  "add_opt ctx opt' = (0, ctx\<lparr>oc_opts := add_opt_common (oc_opts ctx) opt' True\<rparr>)"

definition call_proc ::
  "'d opt_env \<Rightarrow> 'd fuse_opt_context \<Rightarrow> string \<Rightarrow> int \<Rightarrow> bool \<Rightarrow> int \<times> 'd fuse_opt_context" where
  "call_proc env ctx arg key is_o =
     (if key = FUSE_OPT_KEY_DISCARD then (0, ctx)
      else case (if key \<noteq> FUSE_OPT_KEY_KEEP
                 then (case oe_proc env (oc_data ctx) arg key (oc_outargs ctx) of (res, d, out) \<Rightarrow>
                         (if res = - 1 \<or> res = 0 then Some res else None, ctx\<lparr>oc_data := d, oc_outargs := out\<rparr>))
                 else (None, ctx)) of
        (Some res, ctx) \<Rightarrow> (res, ctx)
      | (None, ctx) \<Rightarrow> if is_o then add_opt ctx arg else add_arg ctx arg)"

section \<open>Templates\<close>

definition strchr :: "string \<Rightarrow> char \<Rightarrow> nat option" where
  "strchr s c = (if c \<in> set s then Some (length (takeWhile (\<lambda>x. x \<noteq> c) s)) else None)"

definition match_template :: "string \<Rightarrow> string \<Rightarrow> nat option" where
  "match_template t arg =
     (let sep = (case strchr t CHR ''='' of None \<Rightarrow> strchr t CHR '' '' | Some i \<Rightarrow> Some i)
      in case (case sep of
                 None \<Rightarrow> None
               | Some i \<Rightarrow>
                   if (drop (i + 1) t = [] \<or> t ! (i + 1) = CHR ''%'')
                      \<and> (let tlen = (if t ! i = CHR ''='' then i + 1 else i)
                         in length arg \<ge> tlen \<and> take tlen arg = take tlen t)
                   then Some i else None) of
           Some i \<Rightarrow> Some i
         | None \<Rightarrow> if t = arg then Some 0 else None)"

text \<open>The first matching template with its separator, and the templates after it.\<close>

fun find_opt :: "fuse_opt list \<Rightarrow> string \<Rightarrow> (fuse_opt \<times> nat \<times> fuse_opt list) option" where
  "find_opt [] arg = None"
| "find_opt (o' # os) arg =
     (case match_template (fo_templ o') arg of Some sep \<Rightarrow> Some (o', sep, os) | None \<Rightarrow> find_opt os arg)"

definition fuse_opt_match :: "fuse_opt list \<Rightarrow> string \<Rightarrow> bool" where
  "fuse_opt_match os arg \<longleftrightarrow> find_opt os arg \<noteq> None"

section \<open>Processing options\<close>

definition process_opt_param ::
  "'d opt_env \<Rightarrow> nat \<Rightarrow> string \<Rightarrow> string \<Rightarrow> 'd fuse_opt_context \<Rightarrow> int \<times> 'd fuse_opt_context" where
  "process_opt_param env var format param ctx =
     (if length format > 1 \<and> format ! 1 = CHR ''s'' then (0, ctx\<lparr>oc_data := oe_set_str env var param (oc_data ctx)\<rparr>)
      else (case oe_scan env var format param (oc_data ctx) of
              None \<Rightarrow> (- 1, ctx)
            | Some d \<Rightarrow> (0, ctx\<lparr>oc_data := d\<rparr>)))"

definition process_opt ::
  "'d opt_env \<Rightarrow> 'd fuse_opt_context \<Rightarrow> fuse_opt \<Rightarrow> nat \<Rightarrow> string \<Rightarrow> bool \<Rightarrow> int \<times> 'd fuse_opt_context" where
  "process_opt env ctx o' sep arg is_o =
     (case fo_offset o' of
        None \<Rightarrow> (case call_proc env ctx arg (fo_value o') is_o of (res, ctx) \<Rightarrow> (if res = - 1 then - 1 else 0, ctx))
      | Some var \<Rightarrow>
          if sep \<noteq> 0 \<and> drop (sep + 1) (fo_templ o') \<noteq> []
          then (let param = drop (if fo_templ o' ! sep = CHR ''='' then sep + 1 else sep) arg
                in process_opt_param env var (drop (sep + 1) (fo_templ o')) param ctx)
          else (0, ctx\<lparr>oc_data := oe_set_int env var (fo_value o') (oc_data ctx)\<rparr>))"

definition process_opt_sep_arg ::
  "'d opt_env \<Rightarrow> 'd fuse_opt_context \<Rightarrow> fuse_opt \<Rightarrow> nat \<Rightarrow> string \<Rightarrow> bool \<Rightarrow> int \<times> 'd fuse_opt_context" where
  "process_opt_sep_arg env ctx o' sep arg is_o =
     (case next_arg env ctx of (res, ctx) \<Rightarrow>
      if res = - 1 then (- 1, ctx)
      else
        let param = oe_argv env ! oc_argctr ctx
        in process_opt env ctx o' sep (take sep arg @ param) is_o)"

text \<open>
  All the templates that match an option are processed, in order: \<^verbatim>\<open>find_opt\<close> goes on behind the last one
  that matched.
\<close>

fun gopt_loop ::
  "'d opt_env \<Rightarrow> 'd fuse_opt_context \<Rightarrow> fuse_opt list \<Rightarrow> string \<Rightarrow> bool \<Rightarrow> int \<times> 'd fuse_opt_context" where
  "gopt_loop env ctx [] arg is_o = (0, ctx)"
| "gopt_loop env ctx (o' # os) arg is_o =
     (case match_template (fo_templ o') arg of
        None \<Rightarrow> gopt_loop env ctx os arg is_o
      | Some sep \<Rightarrow>
          (case (if sep \<noteq> 0 \<and> fo_templ o' ! sep = CHR '' '' \<and> length arg = sep then process_opt_sep_arg env ctx o' sep arg is_o
                 else process_opt env ctx o' sep arg is_o) of (res, ctx) \<Rightarrow>
             if res = - 1 then (- 1, ctx) else gopt_loop env ctx os arg is_o))"

definition process_gopt ::
  "'d opt_env \<Rightarrow> 'd fuse_opt_context \<Rightarrow> string \<Rightarrow> bool \<Rightarrow> int \<times> 'd fuse_opt_context" where
  "process_gopt env ctx arg is_o =
     (if find_opt (oe_opt env) arg \<noteq> None then gopt_loop env ctx (oe_opt env) arg is_o
      else call_proc env ctx arg FUSE_OPT_KEY_OPT is_o)"

definition octal :: "char \<Rightarrow> nat" where
  "octal c = of_char c - 48"

definition is_octal :: "nat \<Rightarrow> char \<Rightarrow> bool" where
  "is_octal m c \<longleftrightarrow> 48 \<le> (of_char c :: nat) \<and> (of_char c :: nat) \<le> 48 + m"

text \<open>
  The group is rewritten in place: \<open>d\<close> is what has been written of the current option, a C string when it is
  handed on.
\<close>

fun option_group ::
  "'d opt_env \<Rightarrow> 'd fuse_opt_context \<Rightarrow> string \<Rightarrow> string \<Rightarrow> int \<times> 'd fuse_opt_context" where
  "option_group env ctx [] d =
     (case process_gopt env ctx (c_str d) True of (res, ctx) \<Rightarrow> (if res = - 1 then - 1 else 0, ctx))"
| "option_group env ctx (c # s) d =
     (if c = CHR '',''
      then (case process_gopt env ctx (c_str d) True of (res, ctx) \<Rightarrow>
              if res = - 1 then (- 1, ctx) else option_group env ctx s [])
      else if c = CHR 0x5C \<and> s \<noteq> []
      then (case s of
              c0 # c1 # c2 # s' \<Rightarrow>
                if is_octal 3 c0 \<and> is_octal 7 c1 \<and> is_octal 7 c2
                then option_group env ctx s' (d @ [char_of (octal c0 * 64 + octal c1 * 8 + octal c2)])
                else option_group env ctx (c1 # c2 # s') (d @ [c0])
            | c0 # s' \<Rightarrow> option_group env ctx s' (d @ [c0])
            | [] \<Rightarrow> (0, ctx))
      else option_group env ctx s (d @ [c]))"

definition process_option_group ::
  "'d opt_env \<Rightarrow> 'd fuse_opt_context \<Rightarrow> string \<Rightarrow> int \<times> 'd fuse_opt_context" where
  "process_option_group env ctx os = option_group env ctx os []"

definition process_one :: "'d opt_env \<Rightarrow> 'd fuse_opt_context \<Rightarrow> string \<Rightarrow> int \<times> 'd fuse_opt_context" where
  "process_one env ctx arg =
     (if oc_nonopt ctx \<noteq> 0 \<or> take 1 arg \<noteq> ''-'' then call_proc env ctx arg FUSE_OPT_KEY_NONOPT False
      else if take 2 arg = ''-o''
      then (if drop 2 arg \<noteq> [] then process_option_group env ctx (drop 2 arg)
            else (case next_arg env ctx of (res, ctx) \<Rightarrow>
                    if res = - 1 then (- 1, ctx) else process_option_group env ctx (oe_argv env ! oc_argctr ctx)))
      else if arg = ''--''
      then (case add_arg ctx arg of (res, ctx) \<Rightarrow>
              if res = - 1 then (- 1, ctx) else (0, ctx\<lparr>oc_nonopt := length (oc_outargs ctx)\<rparr>))
      else process_gopt env ctx arg False)"

section \<open>The whole command line\<close>

text \<open>Processing an argument never goes back in the vector, so the loop over it ends.\<close>

lemma call_proc_argctr [simp]: "oc_argctr (snd (call_proc env ctx arg key is_o)) = oc_argctr ctx"
  by (auto simp: call_proc_def add_opt_def add_arg_def split: prod.splits option.splits)

lemma process_opt_argctr [simp]: "oc_argctr (snd (process_opt env ctx o' sep arg is_o)) = oc_argctr ctx"
  by (simp add: process_opt_def process_opt_param_def Let_def case_prod_beta split: option.splits)

lemma process_opt_sep_arg_argctr: "oc_argctr ctx \<le> oc_argctr (snd (process_opt_sep_arg env ctx o' sep arg is_o))"
  by (simp add: process_opt_sep_arg_def next_arg_def Let_def case_prod_beta)

lemma gopt_loop_argctr: "oc_argctr ctx \<le> oc_argctr (snd (gopt_loop env ctx os arg is_o))"
proof (induction os arbitrary: ctx)
  case (Cons o' os)
  show ?case
  proof (cases "match_template (fo_templ o') arg")
    case None
    then show ?thesis using Cons by simp
  next
    case (Some sep)
    let ?r = "if sep \<noteq> 0 \<and> fo_templ o' ! sep = CHR '' '' \<and> length arg = sep
        then process_opt_sep_arg env ctx o' sep arg is_o else process_opt env ctx o' sep arg is_o"
    obtain res ctx' where r: "?r = (res, ctx')" by (cases ?r)
    have "oc_argctr ctx \<le> oc_argctr (snd ?r)" by (simp add: process_opt_sep_arg_argctr)
    then have "oc_argctr ctx \<le> oc_argctr ctx'" by (simp only: r snd_conv)
    then show ?thesis using Some r Cons [of ctx'] by auto
  qed
qed simp

lemma process_gopt_argctr: "oc_argctr ctx \<le> oc_argctr (snd (process_gopt env ctx arg is_o))"
  by (simp add: process_gopt_def gopt_loop_argctr)

declare option_group.simps [simp del]

lemma option_group_argctr: "oc_argctr ctx \<le> oc_argctr (snd (option_group env ctx s d))"
proof (induction "length s" arbitrary: ctx s d rule: less_induct)
  case less
  obtain res ctx' where r: "process_gopt env ctx (c_str d) True = (res, ctx')" by fastforce
  have step: "oc_argctr ctx \<le> oc_argctr ctx'" using process_gopt_argctr [of ctx env "c_str d" True] r by simp
  show ?case
  proof (cases s)
    case Nil
    then show ?thesis using r step by (simp add: option_group.simps)
  next
    case (Cons c t)
    have "oc_argctr ctx' \<le> oc_argctr (snd (option_group env ctx' t []))" by (rule less) (simp add: Cons)
    then show ?thesis
      unfolding Cons using r step
      by (subst option_group.simps(2)) (auto split: list.split intro!: less simp: Cons)
  qed
qed

lemma process_one_argctr: "oc_argctr ctx \<le> oc_argctr (snd (process_one env ctx arg))"
proof -
  have "oc_argctr ctx \<le> oc_argctr (snd (case next_arg env ctx of (res, ctx) \<Rightarrow>
      if res = - 1 then (- 1, ctx) else option_group env ctx (oe_argv env ! oc_argctr ctx) []))"
    using option_group_argctr [of "ctx\<lparr>oc_argctr := Suc (oc_argctr ctx)\<rparr>" env "oe_argv env ! Suc (oc_argctr ctx)" "[]"]
    by (simp add: next_arg_def)
  then show ?thesis
    unfolding process_one_def process_option_group_def
    by (auto simp: add_arg_def process_gopt_argctr option_group_argctr)
qed

function arg_loop :: "'d opt_env \<Rightarrow> 'd fuse_opt_context \<Rightarrow> int \<times> 'd fuse_opt_context" where
  "arg_loop env ctx =
     (if oc_argctr ctx < length (oe_argv env)
      then (case process_one env ctx (oe_argv env ! oc_argctr ctx) of (res, ctx) \<Rightarrow>
              if res = - 1 then (- 1, ctx) else arg_loop env (ctx\<lparr>oc_argctr := oc_argctr ctx + 1\<rparr>))
      else (0, ctx))"
  by pat_completeness auto
termination
proof (relation "measure (\<lambda>(env, ctx). length (oe_argv env) - oc_argctr ctx)", goal_cases)
  case (2 env ctx res ctx')
  then have "oc_argctr ctx \<le> oc_argctr ctx'" using process_one_argctr [of ctx env "oe_argv env ! oc_argctr ctx"] by (metis snd_conv)
  then show ?case using 2 by simp
qed simp

declare arg_loop.simps [simp del]

definition opt_parse :: "'d opt_env \<Rightarrow> 'd fuse_opt_context \<Rightarrow> int \<times> 'd fuse_opt_context" where
  "opt_parse env ctx =
     (let ctx = (if oe_argv env \<noteq> [] then snd (add_arg ctx (oe_argv env ! 0)) else ctx)
      in case arg_loop env (ctx\<lparr>oc_argctr := 1\<rparr>) of (res, ctx) \<Rightarrow>
         if res = - 1 then (- 1, ctx)
         else
           let ctx = (case oc_opts ctx of
                        None \<Rightarrow> ctx
                      | Some os \<Rightarrow> ctx\<lparr>oc_outargs := fuse_opt_insert_arg_common
                                       (fuse_opt_insert_arg_common (oc_outargs ctx) 1 ''-o'') 2 os\<rparr>);
               ctx = (if oc_nonopt ctx \<noteq> 0 \<and> oc_nonopt ctx = length (oc_outargs ctx) \<and> last (oc_outargs ctx) = ''--''
                      then ctx\<lparr>oc_outargs := butlast (oc_outargs ctx)\<rparr> else ctx)
           in (0, ctx))"

text \<open>The arguments are replaced unless the parser fails.\<close>

definition fuse_opt_parse :: "'d opt_env \<Rightarrow> 'd \<Rightarrow> int \<times> 'd \<times> string list" where
  "fuse_opt_parse env d =
     (if oe_argv env = [] then (0, d, [])
      else case opt_parse env \<lparr>oc_data = d, oc_argctr = 0, oc_outargs = [], oc_opts = None, oc_nonopt = 0\<rparr> of (res, ctx) \<Rightarrow>
        (res, oc_data ctx, if res \<noteq> - 1 then oc_outargs ctx else oe_argv env))"

section \<open>Options survive the round trip through the list\<close>

text \<open>The options left for the mount are joined with escapes; a parser that reads the list sees the same options.\<close>

fun run_gopts :: "'d opt_env \<Rightarrow> 'd fuse_opt_context \<Rightarrow> string list \<Rightarrow> int \<times> 'd fuse_opt_context" where
  "run_gopts env ctx [] = (0, ctx)"
| "run_gopts env ctx (x # xs) =
     (case process_gopt env ctx x True of (res, ctx) \<Rightarrow> if res = - 1 then (- 1, ctx) else run_gopts env ctx xs)"

lemma escape_group:
  "option_group env ctx (escape True x @ rest) d = option_group env ctx rest (d @ x)"
proof (induction x arbitrary: d)
  case (Cons c x)
  have digits: "\<not> is_octal 3 CHR '',''" "\<not> is_octal 3 CHR 0x5C" by (simp_all add: is_octal_def)
  show ?case
  proof (cases "c = CHR '','' \<or> c = CHR 0x5C")
    case True
    let ?r = "escape True x @ rest"
    have "option_group env ctx (CHR 0x5C # c # ?r) d = option_group env ctx ?r (d @ [c])"
      using True digits by (subst option_group.simps(2)) (auto split: list.split)
    then show ?thesis using True Cons [of "d @ [c]"] by auto
  next
    case False
    then show ?thesis using Cons [of "d @ [c]"] by (simp add: option_group.simps(2))
  qed
qed simp

lemma add_opts_append:
  "old \<noteq> [] \<Longrightarrow> foldl (\<lambda>os x. add_opt_common os x True) (Some old) xs = Some (old @ concat (map (\<lambda>x. CHR '','' # escape True x) xs))"
  by (induction xs arbitrary: old) (simp_all add: add_opt_common_def)

lemma run_gopts_group:
  assumes "\<forall>x \<in> set (x # xs). NUL \<notin> set x"
  shows "option_group env ctx (escape True x @ concat (map (\<lambda>x. CHR '','' # escape True x) xs)) [] = run_gopts env ctx (x # xs)"
  using assms
proof (induction xs arbitrary: ctx x)
  case Nil
  then show ?case using escape_group [of env ctx x "[]" "[]"] by (auto simp: c_str_id option_group.simps split: prod.splits)
next
  case (Cons y ys)
  then have "c_str x = x" by (simp add: c_str_id)
  then show ?case using Cons.IH [of y] Cons.prems by (simp add: escape_group) (auto simp: option_group.simps(2) escape_group split: prod.splits)
qed

lemma escape_Nil: "escape e x = [] \<longleftrightarrow> x = []"
  by (cases x) auto

text \<open>A processor that notes the options it is given.\<close>

definition noting_env :: "string list opt_env" where
  "noting_env = \<lparr>oe_opt = [], oe_proc = (\<lambda>d arg key out. (0, d @ [arg], out)), oe_argv = [],
     oe_set_int = (\<lambda>i v d. d), oe_set_str = (\<lambda>i v d. d), oe_scan = (\<lambda>i f p d. None)\<rparr>"

definition empty_context :: "string list fuse_opt_context" where
  "empty_context = \<lparr>oc_data = [], oc_argctr = 0, oc_outargs = [], oc_opts = None, oc_nonopt = 0\<rparr>"

text \<open>
  C33: options survive being collected. When non-empty options are added one after the other to the option list with
  \<^verbatim>\<open>add_opt\<close>, whatever commas and backslashes they contain, then processing the list processes exactly these
  options, unchanged and in order.
\<close>

theorem option_list_roundtrip:
  assumes "x \<noteq> []" "\<forall>y \<in> set (x # xs). NUL \<notin> set y"
    and "foldl (\<lambda>os y. add_opt_common os y True) None (x # xs) = Some os"
  shows "process_option_group env ctx os = run_gopts env ctx (x # xs)"
proof -
  have "escape True x \<noteq> []" using assms(1) by (simp add: escape_Nil)
  then have "os = escape True x @ concat (map (\<lambda>x. CHR '','' # escape True x) xs)"
    using assms(3) add_opts_append [of "escape True x" xs] add_opt_common_def [of None x True] by simp
  then show ?thesis using run_gopts_group [OF assms(2)] by (simp add: process_option_group_def)
qed

theorem option_list_roundtrip_witness:
  "oc_data (snd (process_option_group noting_env empty_context (''a'' @ [CHR 0x5C] @ '',b,c''))) = [''a,b'', ''c'']"
proof -
  have "foldl (\<lambda>os y. add_opt_common os y True) None [''a,b'', ''c''] = Some (''a'' @ [CHR 0x5C] @ '',b,c'')"
    by (simp add: add_opt_common_def)
  then have "process_option_group noting_env empty_context (''a'' @ [CHR 0x5C] @ '',b,c'')
      = run_gopts noting_env empty_context [''a,b'', ''c'']"
    by (intro option_list_roundtrip) simp_all
  then show ?thesis
    by (simp add: process_gopt_def call_proc_def noting_env_def empty_context_def)
qed

end
