(* ===== verification/Options.thy ===== *)
theory Options
  imports Control_File Fuse_Opt
begin

text \<open>
  \<^verbatim>\<open>option_parser.cpp\<close>, \<^verbatim>\<open>resources.cpp\<close> and the start in \<^verbatim>\<open>mergerfs.cpp\<close>: the mount options. The data the parser of libfuse
  hands around is the configuration with the state of the program. The texts printed for help and version are left out.
\<close>

unbundle bit_operations_syntax

section \<open>Options passed on to libfuse\<close>

definition set_option :: "string list \<Rightarrow> string \<Rightarrow> string list" where
  "set_option args option = fuse_opt_add_arg (fuse_opt_add_arg args ''-o'') (c_str option)"

definition set_kv_option :: "string list \<Rightarrow> string \<Rightarrow> string \<Rightarrow> string list" where
  "set_kv_option args key val = set_option args (key @ CHR ''='' # val)"

definition set_fsname :: "string list \<Rightarrow> Branch list \<Rightarrow> string list option" where
  "set_fsname args bs =
     (let branches = to_paths bs
      in if length branches > 0
         then map_option (set_kv_option args ''fsname'') (remove_common_prefix_and_join branches CHR '':'')
         else Some args)"

definition set_subtype :: "string list \<Rightarrow> string list" where
  "set_subtype args = set_kv_option args ''subtype'' ''mergerfs''"

definition set_default_options :: "string list \<Rightarrow> string list" where
  "set_default_options args =
     set_option (set_option (set_option args ''atomic_o_trunc'') ''big_writes'') ''default_permissions''"

section \<open>Options of mergerfs\<close>

text \<open>The result \<open>1\<close> leaves an option to libfuse.\<close>

definition parse_and_process_uint64 :: "string \<Rightarrow> u64 \<Rightarrow> int \<times> u64" where
  "parse_and_process_uint64 v x = (case to_uint64_t v of None \<Rightarrow> (1, x) | Some y \<Rightarrow> (0, y))"

definition parse_and_process_time :: "string \<Rightarrow> time_t \<Rightarrow> int \<times> time_t" where
  "parse_and_process_time v x = (case to_time_t v of None \<Rightarrow> (1, x) | Some y \<Rightarrow> (0, y))"

definition parse_and_process_bool :: "string \<Rightarrow> bool \<Rightarrow> int \<times> bool" where
  "parse_and_process_bool v b =
     (if v = ''false'' then (0, False) else if v = ''true'' then (0, True) else (1, b))"

definition parse_and_process_errno :: "string \<Rightarrow> int \<Rightarrow> int \<times> int" where
  "parse_and_process_errno v e =
     (if v = ''passthrough'' then (0, 0)
      else if v = ''nosys'' then (0, ENOSYS)
      else if v = ''noattr'' then (0, ENOATTR)
      else (1, e))"

definition parse_and_process_statfs :: "string \<Rightarrow> StatFS \<Rightarrow> int \<times> StatFS" where
  "parse_and_process_statfs v e =
     (if v = ''base'' then (0, StatFS_BASE) else if v = ''full'' then (0, StatFS_FULL) else (1, e))"

definition parse_and_process_statfsignore :: "string \<Rightarrow> StatFSIgnore \<Rightarrow> int \<times> StatFSIgnore" where
  "parse_and_process_statfsignore v e =
     (if v = ''none'' then (0, StatFSIgnore_NONE)
      else if v = ''ro'' then (0, StatFSIgnore_RO)
      else if v = ''nc'' then (0, StatFSIgnore_NC)
      else (1, e))"

definition parse_and_process_statfs_cache :: "string \<Rightarrow> 'w sys \<Rightarrow> int \<times> 'w sys" where
  "parse_and_process_statfs_cache v s =
     (case to_uint64_t v of None \<Rightarrow> (1, s) | Some timeout \<Rightarrow> (0, statvfs_cache_timeout timeout s))"

type_synonym 'w opt_result = "int \<times> Config \<times> string list \<times> 'w sys"

definition parse_and_process_cache :: "string \<Rightarrow> string \<Rightarrow> Config \<Rightarrow> string list \<Rightarrow> 'w sys \<Rightarrow> 'w opt_result" where
  "parse_and_process_cache func v cfg out s =
     (if func = ''open''
      then (case parse_and_process_uint64 v (pc_timeout (cf_open_cache cfg)) of (rv, x) \<Rightarrow>
              (rv, cfg\<lparr>cf_open_cache := (cf_open_cache cfg)\<lparr>pc_timeout := x\<rparr>\<rparr>, out, s))
      else if func = ''statfs'' then (case parse_and_process_statfs_cache v s of (rv, s) \<Rightarrow> (rv, cfg, out, s))
      else if func = ''entry'' then (0, cfg, set_kv_option out ''entry_timeout'' v, s)
      else if func = ''negative_entry'' then (0, cfg, set_kv_option out ''negative_timeout'' v, s)
      else if func = ''attr'' then (0, cfg, set_kv_option out ''attr_timeout'' v, s)
      else (1, cfg, out, s))"

definition parse_and_process_arg :: "string \<Rightarrow> Config \<Rightarrow> int \<times> Config" where
  "parse_and_process_arg arg cfg =
     (if arg = ''defaults'' then (0, cfg)
      else if arg = ''direct_io'' then (0, cfg\<lparr>cf_direct_io := True\<rparr>)
      else (1, cfg))"

definition kv_setting :: "string \<Rightarrow> string \<Rightarrow> Config \<Rightarrow> int \<times> Config" where
  "kv_setting key v cfg =
     (if key = ''minfreespace'' then put (\<lambda>x. cfg\<lparr>cf_minfreespace := x\<rparr>) (parse_and_process_uint64 v (cf_minfreespace cfg))
      else if key = ''moveonenospc'' then put (\<lambda>x. cfg\<lparr>cf_moveonenospc := x\<rparr>) (parse_and_process_bool v (cf_moveonenospc cfg))
      else if key = ''dropcacheonclose''
        then put (\<lambda>x. cfg\<lparr>cf_dropcacheonclose := x\<rparr>) (parse_and_process_bool v (cf_dropcacheonclose cfg))
      else if key = ''symlinkify'' then put (\<lambda>x. cfg\<lparr>cf_symlinkify := x\<rparr>) (parse_and_process_bool v (cf_symlinkify cfg))
      else if key = ''symlinkify_timeout''
        then put (\<lambda>x. cfg\<lparr>cf_symlinkify_timeout := x\<rparr>) (parse_and_process_time v (cf_symlinkify_timeout cfg))
      else if key = ''nullrw'' then put (\<lambda>x. cfg\<lparr>cf_nullrw := x\<rparr>) (parse_and_process_bool v (cf_nullrw cfg))
      else if key = ''ignorepponrename''
        then put (\<lambda>x. cfg\<lparr>cf_ignorepponrename := x\<rparr>) (parse_and_process_bool v (cf_ignorepponrename cfg))
      else if key = ''security_capability''
        then put (\<lambda>x. cfg\<lparr>cf_security_capability := x\<rparr>) (parse_and_process_bool v (cf_security_capability cfg))
      else if key = ''link_cow'' then put (\<lambda>x. cfg\<lparr>cf_link_cow := x\<rparr>) (parse_and_process_bool v (cf_link_cow cfg))
      else if key = ''xattr'' then put (\<lambda>x. cfg\<lparr>cf_xattr := x\<rparr>) (parse_and_process_errno v (cf_xattr cfg))
      else if key = ''statfs'' then put (\<lambda>x. cfg\<lparr>cf_statfs := x\<rparr>) (parse_and_process_statfs v (cf_statfs cfg))
      else if key = ''statfs_ignore''
        then put (\<lambda>x. cfg\<lparr>cf_statfs_ignore := x\<rparr>) (parse_and_process_statfsignore v (cf_statfs_ignore cfg))
      else (- 1, cfg))"

definition parse_and_process_kv_arg :: "string \<Rightarrow> string \<Rightarrow> Config \<Rightarrow> string list \<Rightarrow> 'w sys \<Rightarrow> 'w opt_result" where
  "parse_and_process_kv_arg key v cfg out s =
     (let keypart = split [] key CHR ''.'';
          r = (if length keypart = 2
               then (if keypart ! 0 = ''func''
                     then (case set_func_policy (keypart ! 1) v cfg s of (rv, cfg, s) \<Rightarrow> (rv, cfg, out, s))
                     else if keypart ! 0 = ''category''
                     then (case set_category_policy (keypart ! 1) v cfg s of (rv, cfg, s) \<Rightarrow> (rv, cfg, out, s))
                     else if keypart ! 0 = ''cache'' then parse_and_process_cache (keypart ! 1) v cfg out s
                     else (- 1, cfg, out, s))
               else (case kv_setting key v cfg of (rv, cfg) \<Rightarrow> (rv, cfg, out, s)))
      in case r of (rv, cfg, out, s) \<Rightarrow> (if rv = - 1 then 1 else rv, cfg, out, s))"

definition opt_process :: "string \<Rightarrow> Config \<Rightarrow> string list \<Rightarrow> 'w sys \<Rightarrow> 'w opt_result" where
  "opt_process arg cfg out s =
     (let argvalue = split [] arg CHR ''=''
      in if length argvalue = 1
         then (case parse_and_process_arg (argvalue ! 0) cfg of (rv, cfg) \<Rightarrow> (rv, cfg, out, s))
         else if length argvalue = 2 then parse_and_process_kv_arg (argvalue ! 0) (argvalue ! 1) cfg out s
         else (1, cfg, out, s))"

definition process_branches :: "'w os \<Rightarrow> 'w \<Rightarrow> string \<Rightarrow> Config \<Rightarrow> int \<times> Config" where
  "process_branches os w arg cfg = (0, cfg\<lparr>cf_branches := branches_set os w arg (cf_branches cfg)\<rparr>)"

definition process_destmounts :: "string \<Rightarrow> Config \<Rightarrow> int \<times> Config" where
  "process_destmounts arg cfg = (1, cfg\<lparr>cf_destmount := arg\<rparr>)"

abbreviation MERGERFS_OPT_HELP :: int where "MERGERFS_OPT_HELP \<equiv> 0"
abbreviation MERGERFS_OPT_VERSION :: int where "MERGERFS_OPT_VERSION \<equiv> 1"

definition option_processor ::
  "'w os \<Rightarrow> Config \<times> 'w sys \<Rightarrow> string \<Rightarrow> int \<Rightarrow> string list \<Rightarrow> int \<times> (Config \<times> 'w sys) \<times> string list" where
  "option_processor os d arg key out =
     (case d of (cfg, s) \<Rightarrow>
      if key = FUSE_OPT_KEY_OPT
      then (case opt_process arg cfg out s of (rv, cfg, out, s) \<Rightarrow> (rv, (cfg, s), out))
      else if key = FUSE_OPT_KEY_NONOPT
      then (case (if cf_branches cfg = [] then process_branches os (world s) arg cfg else process_destmounts arg cfg) of
              (rv, cfg) \<Rightarrow> (rv, (cfg, s), out))
      else if key = MERGERFS_OPT_HELP then (0, (cfg, s), fuse_opt_add_arg out ''-ho'')
      else if key = MERGERFS_OPT_VERSION then (0, (cfg, s), fuse_opt_add_arg out ''--version'')
      else (0, (cfg, s), out))"

definition mergerfs_opts :: "fuse_opt list" where
  "mergerfs_opts =
     [\<lparr>fo_templ = ''-h'', fo_offset = None, fo_value = MERGERFS_OPT_HELP\<rparr>,
      \<lparr>fo_templ = ''--help'', fo_offset = None, fo_value = MERGERFS_OPT_HELP\<rparr>,
      \<lparr>fo_templ = ''-v'', fo_offset = None, fo_value = MERGERFS_OPT_VERSION\<rparr>,
      \<lparr>fo_templ = ''-V'', fo_offset = None, fo_value = MERGERFS_OPT_VERSION\<rparr>,
      \<lparr>fo_templ = ''--version'', fo_offset = None, fo_value = MERGERFS_OPT_VERSION\<rparr>]"

text \<open>
  When the parser fails, or there are no arguments, they are still those of the process, to which libfuse refuses to add others: the
  assertion in \<^verbatim>\<open>fuse_opt_add_arg\<close> stops the program, the result is \<open>None\<close>.
\<close>

definition options_parse ::
  "'w os \<Rightarrow> string list \<Rightarrow> Config \<Rightarrow> 'w sys \<Rightarrow> (string list \<times> Config \<times> 'w sys) option" where
  "options_parse os args cfg s =
     (case fuse_opt_parse \<lparr>oe_opt = mergerfs_opts, oe_proc = option_processor os, oe_argv = args,
             oe_set_int = (\<lambda>i v d. d), oe_set_str = (\<lambda>i v d. d), oe_scan = (\<lambda>i f p d. Some d)\<rparr> (cfg, s) of
        (res, (cfg, s), out) \<Rightarrow>
        if res = - 1 \<or> args = [] then None
        else map_option (\<lambda>out. (set_subtype out, cfg, s)) (set_fsname (set_default_options out) (cf_branches cfg)))"

section \<open>Resource limits\<close>

text \<open>
  \<open>setrlimit cur max\<close> and \<open>getrlimit\<close> are the calls of the system for one resource, on its state \<open>r\<close>; the first
  returns \<open>0\<close> or \<open>-1\<close>. The loop ends when a limit is refused.
\<close>

abbreviation RLIM_INFINITY :: u64 where "RLIM_INFINITY \<equiv> - 1"

partial_function (option) rlimit_loop :: "(u64 \<Rightarrow> u64 \<Rightarrow> 'r \<Rightarrow> int \<times> 'r) \<Rightarrow> u64 \<Rightarrow> u64 \<Rightarrow> 'r \<Rightarrow> (int \<times> 'r) option" where
  "rlimit_loop setrlimit cur max' r =
     (case setrlimit cur max' r of (rv, r) \<Rightarrow>
        if rv = 0 then rlimit_loop setrlimit (max' * 2) (max' * 2) r else Some (rv, r))"

definition maxout_rlimit ::
  "(u64 \<Rightarrow> u64 \<Rightarrow> 'r \<Rightarrow> int \<times> 'r) \<Rightarrow> ('r \<Rightarrow> (u64 \<times> u64) option) \<Rightarrow> 'r \<Rightarrow> (int \<times> 'r) option" where
  "maxout_rlimit setrlimit getrlimit r =
     (case setrlimit RLIM_INFINITY RLIM_INFINITY r of (rv, r) \<Rightarrow>
      if rv = 0 then Some (0, r)
      else (case getrlimit r of
              None \<Rightarrow> Some (- 1, r)
            | Some (cur, max') \<Rightarrow> rlimit_loop setrlimit max' max' r))"

section \<open>Mount options and control file\<close>

definition shared_settings :: "string list" where
  "shared_settings =
     [''minfreespace'', ''moveonenospc'', ''dropcacheonclose'', ''symlinkify'', ''symlinkify_timeout'', ''ignorepponrename'',
      ''security_capability'', ''link_cow'', ''statfs'', ''statfs_ignore'']"

lemma not_exclusive_0 [simp]: "\<not> exclusive 0"
  by (simp add: exclusive_def)

lemmas setting_defs = put_def setxattr_uint64_t_def setxattr_bool_def setxattr_time_t_def setxattr_statfs_def
  setxattr_statfsignore_def parse_and_process_uint64_def parse_and_process_bool_def parse_and_process_time_def
  parse_and_process_statfs_def parse_and_process_statfsignore_def

lemma shared_setting_split:
  "k \<in> set shared_settings \<Longrightarrow>
   split [] (''user.mergerfs.'' @ k) CHR ''.'' = [''user'', ''mergerfs'', k] \<and> split [] k CHR ''.'' = [k]"
  unfolding shared_settings_def list.set insert_iff empty_iff
  by (elim disjE FalseE; hypsubst; code_simp)

lemma shared_setting_cases:
  "k \<in> set shared_settings \<Longrightarrow>
   control_set_3 os w k v 0 cfg = Some ((\<lambda>(rv, cfg). (if rv = 0 then 0 else - EINVAL, cfg)) (kv_setting k v cfg))"
  by (simp add: shared_settings_def, elim disjE)
    (simp_all add: control_set_3_def kv_setting_def setting_defs split: option.splits)

lemma kv_setting_codes: "k \<in> set shared_settings \<Longrightarrow> fst (kv_setting k v cfg) \<in> {0, 1}"
  by (simp add: shared_settings_def, elim disjE) (simp_all add: kv_setting_def setting_defs split: option.splits)



section \<open>The control file restores what it showed\<close>

lemma to_time_t_time_str:
  assumes "0 \<le> sint t"
  shows "to_time_t (time_str t) = Some t"
proof -
  have lt: "sint t < 2 ^ 63" using sint_lt [of t] by simp
  have "strtoll (c_str (time_str t)) = (min LLONG_MAX (sint t), [])"
    using assms strtoll_dec_str [of "[]" "nat (sint t)"] c_str_dec_str [of "[]" "nat (sint t)"] by (simp add: time_str_def)
  moreover have "min LLONG_MAX (sint t) = sint t" using lt by (simp add: LLONG_MAX_def)
  ultimately show ?thesis using assms by (simp add: to_time_t_def)
qed

text \<open>
  C35: what the control file showed for one of the ten settings of \<open>shared_settings\<close> can be written back. In any later
  configuration the write returns \<open>0\<close>, the setting then shows the same value, and every other attribute shows what it
  showed before. The numbers must be ones the parser can read, below \<open>2 ^ 63\<close>. The other attributes are not covered; among
  them a value shown for \<^verbatim>\<open>xattr\<close> is accepted and not stored, and one shown for \<^verbatim>\<open>nullrw\<close> is refused.
\<close>

theorem control_file_restores_setting:
  assumes k: "k \<in> set shared_settings"
    and numbers: "unat (cf_minfreespace cfg0) < 2 ^ 63" "0 \<le> sint (cf_symlinkify_timeout cfg0)"
  shows "\<exists>v cfg'. control_value_3 pf cfg0 k = Some v
           \<and> setxattr_controlfile os pf (''user.mergerfs.'' @ k) v 0 fu cfg s = Some (0, fu, cfg', s)
           \<and> control_value_3 pf cfg' k = Some v
           \<and> (\<forall>k'. k' \<noteq> k \<longrightarrow> control_value_3 pf cfg' k' = control_value_3 pf cfg k')"
proof -
  have "\<exists>v cfg'. control_value_3 pf cfg0 k = Some v \<and> control_set_3 os (world s) k v 0 cfg = Some (0, cfg')
          \<and> control_value_3 pf cfg' k = Some v
          \<and> (\<forall>k'. k' \<noteq> k \<longrightarrow> control_value_3 pf cfg' k' = control_value_3 pf cfg k')"
    using k to_uint64_t_u64_str [of "cf_minfreespace cfg0"] to_time_t_time_str [OF numbers(2)] numbers(1)
    by (simp add: shared_settings_def, elim disjE)
      (simp_all add: control_value_3_def control_set_3_def setting_defs getxattr_controlfile_bool_def
        getxattr_controlfile_uint64_t_def getxattr_controlfile_time_t_def getxattr_controlfile_statfs_def
        getxattr_controlfile_statfsignore_def getxattr_controlfile_srcmounts_def getxattr_controlfile_branches_def
        split: StatFS.splits StatFSIgnore.splits)
  then show ?thesis using shared_setting_split [OF k] by (auto simp: setxattr_controlfile_def)
qed

theorem control_file_restores_setting_witness:
  "\<forall>pf fu cfg s. \<exists>v cfg'.
     control_value_3 pf (cfg\<lparr>cf_minfreespace := 5, cf_symlinkify_timeout := 7\<rparr>) ''symlinkify_timeout'' = Some v
     \<and> setxattr_controlfile sample_os pf ''user.mergerfs.symlinkify_timeout'' v 0 fu cfg s = Some (0, fu, cfg', s)
     \<and> control_value_3 pf cfg' ''symlinkify_timeout'' = Some v
     \<and> control_value_3 pf cfg' ''statfs'' = control_value_3 pf cfg ''statfs''"
proof (intro allI)
  fix pf fu cfg s
  show "\<exists>v cfg'.
     control_value_3 pf (cfg\<lparr>cf_minfreespace := 5, cf_symlinkify_timeout := 7\<rparr>) ''symlinkify_timeout'' = Some v
     \<and> setxattr_controlfile sample_os pf ''user.mergerfs.symlinkify_timeout'' v 0 fu cfg s = Some (0, fu, cfg', s)
     \<and> control_value_3 pf cfg' ''symlinkify_timeout'' = Some v
     \<and> control_value_3 pf cfg' ''statfs'' = control_value_3 pf cfg ''statfs''"
    using control_file_restores_setting [of "''symlinkify_timeout''" "cfg\<lparr>cf_minfreespace := 5, cf_symlinkify_timeout := 7\<rparr>"
        pf sample_os fu cfg s]
    by (auto simp: shared_settings_def)
qed

text \<open>
  Writing \<^verbatim>\<open>user.mergerfs.xattr\<close> reports success and changes nothing; \<^verbatim>\<open>user.mergerfs.nullrw\<close> is shown and cannot be
  written.
\<close>

lemma xattr_setting_ignored: "control_set_3 os w ''xattr'' ''nosys'' 0 cfg = Some (0, cfg)"
  by (simp add: control_set_3_def setxattr_xattr_def)

lemma nullrw_setting_refused:
  "control_value_3 pf cfg ''nullrw'' \<noteq> None \<and> control_set_3 os w ''nullrw'' v 0 cfg = Some (- EINVAL, cfg)"
  by (simp add: control_value_3_def control_set_3_def)

section \<open>Raising a limit ends\<close>

lemma double_no_wrap: "unat (m :: u64) < 2 ^ 63 \<Longrightarrow> unat (m * 2) = 2 * unat m"
  by (simp add: unat_word_ariths(2))

lemma double_not_infinity: "(m :: u64) * 2 \<noteq> RLIM_INFINITY"
proof
  assume "m * 2 = RLIM_INFINITY"
  then have "bit (m * 2) 0 = bit (- 1 :: u64) 0" by (rule arg_cong)
  then show False by (simp add: bit_0)
qed

text \<open>What the loop relies on: the codes of the call, and a bound \<open>B\<close> above which a hard limit is refused.\<close>

definition bounded_rlimit :: "nat \<Rightarrow> (u64 \<Rightarrow> u64 \<Rightarrow> 'r \<Rightarrow> int \<times> 'r) \<Rightarrow> bool" where
  "bounded_rlimit B setrlimit \<longleftrightarrow>
     (\<forall>c m r. fst (setrlimit c m r) \<in> {0, - 1} \<and> (B < unat m \<longrightarrow> m \<noteq> RLIM_INFINITY \<longrightarrow> fst (setrlimit c m r) = - 1))"

lemma bounded_rlimitD:
  assumes "bounded_rlimit B setrlimit"
  shows "fst (setrlimit c m r) \<in> {0, - 1}" "B < unat m \<Longrightarrow> m \<noteq> RLIM_INFINITY \<Longrightarrow> fst (setrlimit c m r) = - 1"
  using assms by (auto simp: bounded_rlimit_def)

lemma rlimit_loop_refused:
  "fst (setrlimit m m r) = - 1 \<Longrightarrow> \<exists>r'. rlimit_loop setrlimit m m r = Some (- 1, r')"
  by (subst rlimit_loop.simps) (auto simp: case_prod_beta)

lemma rlimit_loop_accepted:
  "setrlimit m m r = (0, r1) \<Longrightarrow> rlimit_loop setrlimit m m r = rlimit_loop setrlimit (m * 2) (m * 2) r1"
  by (subst rlimit_loop.simps) simp

lemma rlimit_loop_ends:
  assumes bounded: "bounded_rlimit B setrlimit" and B: "B < 2 ^ 63" and m: "m \<noteq> 0" "m \<noteq> RLIM_INFINITY"
  shows "\<exists>r'. rlimit_loop setrlimit m m r = Some (- 1, r')"
  using m
proof (induction "Suc B - unat m" arbitrary: m r rule: less_induct)
  case less
  show ?case
  proof (cases "fst (setrlimit m m r) = - 1")
    case True
    then show ?thesis by (rule rlimit_loop_refused)
  next
    case False
    then obtain r1 where acc: "setrlimit m m r = (0, r1)"
      using bounded_rlimitD(1) [OF bounded, of m m r] by (cases "setrlimit m m r") auto
    have le: "unat m \<le> B" using False bounded_rlimitD(2) [OF bounded, of m m r] less.prems by (metis not_less)
    then have d: "unat (m * 2) = 2 * unat m" using double_no_wrap [of m] B by simp
    have pos: "0 < unat m" using less.prems by (simp add: unat_gt_0)
    then have nz: "m * 2 \<noteq> 0" using d by (metis mult_eq_0_iff not_less_zero unat_0 zero_neq_numeral)
    have "Suc B - unat (m * 2) < Suc B - unat m" using d pos le by simp
    then show ?thesis
      using less.hyps nz double_not_infinity [of m] rlimit_loop_accepted [of setrlimit m r r1] acc by metis
  qed
qed

text \<open>
  C36: raising a resource limit ends, provided that the hard limit the system reports is not \<open>0\<close> and that the kernel refuses
  every hard limit between a bound below \<open>2 ^ 63\<close> and \<^verbatim>\<open>RLIM_INFINITY\<close>: then the doubling stops; the result is \<open>0\<close> exactly when the resource
  could be made unlimited, and \<open>-1\<close> otherwise, also after limits that were accepted.
\<close>

theorem maxout_rlimit_returns:
  assumes bounded: "bounded_rlimit B setrlimit" and B: "B < 2 ^ 63"
    and positive: "\<And>r c m. getrlimit r = Some (c, m) \<Longrightarrow> m \<noteq> 0"
  shows "\<exists>r'. maxout_rlimit setrlimit getrlimit r = Some (fst (setrlimit RLIM_INFINITY RLIM_INFINITY r), r')"
proof -
  obtain rv r1 where first: "setrlimit RLIM_INFINITY RLIM_INFINITY r = (rv, r1)" by fastforce
  have rv: "rv = 0 \<or> rv = - 1" using bounded_rlimitD(1) [OF bounded, of RLIM_INFINITY RLIM_INFINITY r] first by simp
  have loop: "\<exists>r'. rlimit_loop setrlimit m m q = Some (- 1, r')" if m: "m \<noteq> 0" for m q
  proof (cases "m = RLIM_INFINITY \<and> fst (setrlimit m m q) \<noteq> - 1")
    case True
    then obtain q1 where acc: "setrlimit m m q = (0, q1)"
      using bounded_rlimitD(1) [OF bounded, of m m q] by (cases "setrlimit m m q") auto
    have "m * 2 \<noteq> 0" using True by simp
    then show ?thesis
      using rlimit_loop_ends [OF bounded B _ double_not_infinity] rlimit_loop_accepted [of setrlimit m q q1] acc by metis
  next
    case False
    then show ?thesis by (cases "m = RLIM_INFINITY") (simp_all add: rlimit_loop_refused rlimit_loop_ends [OF bounded B m])
  qed
  show ?thesis
  proof (cases "rv = 0")
    case True
    then show ?thesis using first by (simp add: maxout_rlimit_def)
  next
    case False
    show ?thesis
    proof (cases "getrlimit r1")
      case None
      then show ?thesis using first rv False by (simp add: maxout_rlimit_def)
    next
      case (Some cm)
      then obtain c m where cm: "getrlimit r1 = Some (c, m)" by (cases cm) simp
      show ?thesis using loop [OF positive [OF cm], of r1] first rv False cm by (simp add: maxout_rlimit_def)
    qed
  qed
qed

text \<open>A kernel with the limits \<open>1024\<close> now and \<open>4096\<close> at most.\<close>

definition sample_setrlimit :: "u64 \<Rightarrow> u64 \<Rightarrow> u64 \<Rightarrow> int \<times> u64" where
  "sample_setrlimit c m r = (if unat m \<le> 4096 then (0, m) else (- 1, r))"

theorem maxout_rlimit_returns_witness:
  "\<exists>r'. maxout_rlimit sample_setrlimit (\<lambda>r. Some (r, 1024)) 1024
     = Some (fst (sample_setrlimit RLIM_INFINITY RLIM_INFINITY 1024), r')"
proof (rule maxout_rlimit_returns [of 4096])
  show "bounded_rlimit 4096 sample_setrlimit" by (auto simp: bounded_rlimit_def sample_setrlimit_def)
qed auto

text \<open>With the hard limit \<open>0\<close> the doubled limit stays \<open>0\<close>: a kernel that accepts it is asked forever.\<close>

lemma rlimit_loop_zero:
  assumes "\<And>r. fst (setrlimit 0 0 r) = 0"
  shows "rlimit_loop setrlimit 0 0 r = None"
proof -
  let ?P = "\<lambda>f (cur :: u64) (m :: u64) r y. cur = 0 \<longrightarrow> m = 0 \<longrightarrow> (\<exists>r. fst (f 0 0 r) \<noteq> (0 :: int))"
  have never: "?P f cur m r y" if eq: "rlimit_loop f cur m r = Some y" for f cur m r y
  proof (rule rlimit_loop.raw_induct [where P = ?P, OF _ eq], intro impI, rule ccontr)
    fix loop f r y and cur m :: u64
    assume IH: "\<And>f cur m r y. loop f cur m r = Some y \<Longrightarrow> ?P f cur m r y" and zero: "cur = 0" "m = 0"
      and body: "(case f cur m r of (rv, r) \<Rightarrow> if rv = 0 then loop f (m * 2) (m * 2) r else Some (rv, r)) = Some y"
      and all: "\<not> (\<exists>r. fst (f 0 0 r) \<noteq> 0)"
    obtain r1 where "f 0 0 r = (0, r1)" using all by (cases "f 0 0 r") (metis fst_conv)
    then have "loop f 0 0 r1 = Some y" using body zero by simp
    then show False using IH [of f 0 0 r1 y] all by simp
  qed
  show ?thesis
  proof (cases "rlimit_loop setrlimit 0 0 r")
    case (Some y)
    then show ?thesis using never [OF Some] assms by simp
  qed
qed

end
