(* ===== verification/Khash.thy ===== *)
theory Khash
  imports Directory
begin

text \<open>
  \<^verbatim>\<open>khash.h\<close> and \<^verbatim>\<open>hashset.hpp\<close>: the open addressing hash table behind the set of names of a directory listing, in its
  instance for 64-bit keys without values. The flags are the packed words of the code, two bits a bucket; the numbers of
  the type \<^verbatim>\<open>khint_t\<close> are naturals, below \<open>2 ^ 31\<close> in the theorems. Memory allocation succeeds; \<open>mem\<close> is what the
  buckets hold that an expansion adds.
\<close>

unbundle bit_operations_syntax

section \<open>Flags\<close>

type_synonym kflags = "u32 list"

definition ac_shift :: "nat \<Rightarrow> nat" where
  "ac_shift i = push_bit 1 (i AND 0xf)"

definition ac_isempty :: "kflags \<Rightarrow> nat \<Rightarrow> bool" where
  "ac_isempty flag i \<longleftrightarrow> drop_bit (ac_shift i) (flag ! drop_bit 4 i) AND 2 \<noteq> 0"

definition ac_isdel :: "kflags \<Rightarrow> nat \<Rightarrow> bool" where
  "ac_isdel flag i \<longleftrightarrow> drop_bit (ac_shift i) (flag ! drop_bit 4 i) AND 1 \<noteq> 0"

definition ac_iseither :: "kflags \<Rightarrow> nat \<Rightarrow> bool" where
  "ac_iseither flag i \<longleftrightarrow> drop_bit (ac_shift i) (flag ! drop_bit 4 i) AND 3 \<noteq> 0"

definition ac_set_isempty_false :: "kflags \<Rightarrow> nat \<Rightarrow> kflags" where
  "ac_set_isempty_false flag i = flag[drop_bit 4 i := flag ! drop_bit 4 i AND NOT (push_bit (ac_shift i) 2)]"

definition ac_set_isboth_false :: "kflags \<Rightarrow> nat \<Rightarrow> kflags" where
  "ac_set_isboth_false flag i = flag[drop_bit 4 i := flag ! drop_bit 4 i AND NOT (push_bit (ac_shift i) 3)]"

definition ac_set_isdel_true :: "kflags \<Rightarrow> nat \<Rightarrow> kflags" where
  "ac_set_isdel_true flag i = flag[drop_bit 4 i := flag ! drop_bit 4 i OR push_bit (ac_shift i) 1]"

definition ac_fsize :: "nat \<Rightarrow> nat" where
  "ac_fsize m = (if m < 16 then 1 else drop_bit 4 m)"

text \<open>All buckets empty: the bytes \<^verbatim>\<open>0xaa\<close>.\<close>

definition ac_empty_flags :: "nat \<Rightarrow> kflags" where
  "ac_empty_flags m = replicate (ac_fsize m) 0xaaaaaaaa"

section \<open>The table\<close>

record khash =
  n_buckets :: nat
  kh_size :: nat
  n_occupied :: nat
  upper_bound :: nat
  kh_flags :: kflags
  kh_keys :: "u64 list"

definition kroundup32_word :: "u32 \<Rightarrow> u32" where
  "kroundup32_word x =
     (let x = x - 1;
          x = x OR drop_bit 1 x;
          x = x OR drop_bit 2 x;
          x = x OR drop_bit 4 x;
          x = x OR drop_bit 8 x;
          x = x OR drop_bit 16 x
      in x + 1)"

definition kroundup32 :: "nat \<Rightarrow> nat" where
  "kroundup32 n = unat (kroundup32_word (of_nat n))"

text \<open>\<^verbatim>\<open>(khint_t)(n * 0.77 + 0.5)\<close>, which for a power of two is exact in the arithmetic of doubles.\<close>

definition hash_upper :: "nat \<Rightarrow> nat" where
  "hash_upper n = (n * 77 + 50) div 100"

definition kh_int64_hash_func :: "u64 \<Rightarrow> u32" where
  "kh_int64_hash_func key = ucast (drop_bit 33 key XOR key XOR push_bit 11 key)"

definition kh_init :: khash where
  "kh_init = \<lparr>n_buckets = 0, kh_size = 0, n_occupied = 0, upper_bound = 0, kh_flags = [], kh_keys = []\<rparr>"

definition kh_clear :: "khash \<Rightarrow> khash" where
  "kh_clear h =
     (if kh_flags h \<noteq> [] then h\<lparr>kh_flags := ac_empty_flags (n_buckets h), kh_size := 0, n_occupied := 0\<rparr> else h)"

partial_function (option) kh_get_loop :: "khash \<Rightarrow> u64 \<Rightarrow> nat \<Rightarrow> nat \<Rightarrow> nat \<Rightarrow> nat \<Rightarrow> nat option" where
  "kh_get_loop h key msk last' i step =
     (if \<not> ac_isempty (kh_flags h) i \<and> (ac_isdel (kh_flags h) i \<or> kh_keys h ! i \<noteq> key)
      then (let i' = (i + (step + 1)) AND msk
            in if i' = last' then Some (n_buckets h) else kh_get_loop h key msk last' i' (step + 1))
      else Some (if ac_iseither (kh_flags h) i then n_buckets h else i))"

definition kh_get :: "khash \<Rightarrow> u64 \<Rightarrow> nat option" where
  "kh_get h key =
     (if n_buckets h \<noteq> 0
      then (let msk = n_buckets h - 1; i = unat (kh_int64_hash_func key) AND msk in kh_get_loop h key msk i i 0)
      else Some 0)"

subsection \<open>Resizing\<close>

partial_function (option) probe_empty :: "kflags \<Rightarrow> nat \<Rightarrow> nat \<Rightarrow> nat \<Rightarrow> nat option" where
  "probe_empty flag msk i step =
     (if \<not> ac_isempty flag i then probe_empty flag msk ((i + (step + 1)) AND msk) (step + 1) else Some i)"

text \<open>
  An element is written to its place in the new table, which uses the same array of keys; an element of the old table
  found there is the next to be placed.
\<close>

partial_function (option) kick_out ::
  "nat \<Rightarrow> nat \<Rightarrow> u64 \<Rightarrow> u64 list \<Rightarrow> kflags \<Rightarrow> kflags \<Rightarrow> (u64 list \<times> kflags \<times> kflags) option" where
  "kick_out n new_mask key ks flag new_flags =
     Option.bind (probe_empty new_flags new_mask (unat (kh_int64_hash_func key) AND new_mask) 0) (\<lambda>i.
       let new_flags = ac_set_isempty_false new_flags i
       in if i < n \<and> \<not> ac_iseither flag i
          then kick_out n new_mask (ks ! i) (ks[i := key]) (ac_set_isdel_true flag i) new_flags
          else Some (ks[i := key], flag, new_flags))"

fun rehash :: "nat \<Rightarrow> nat \<Rightarrow> nat list \<Rightarrow> u64 list \<Rightarrow> kflags \<Rightarrow> kflags \<Rightarrow> (u64 list \<times> kflags \<times> kflags) option" where
  "rehash n new_mask [] ks flag new_flags = Some (ks, flag, new_flags)"
| "rehash n new_mask (j # js) ks flag new_flags =
     (if \<not> ac_iseither flag j
      then Option.bind (kick_out n new_mask (ks ! j) ks (ac_set_isdel_true flag j) new_flags) (\<lambda>(ks, flag, new_flags).
             rehash n new_mask js ks flag new_flags)
      else rehash n new_mask js ks flag new_flags)"

definition kh_resize :: "(nat \<Rightarrow> u64) \<Rightarrow> khash \<Rightarrow> nat \<Rightarrow> khash option" where
  "kh_resize mem h new_n =
     (let new_n = kroundup32 new_n;
          new_n = (if new_n < 4 then 4 else new_n)
      in if kh_size h \<ge> hash_upper new_n then Some h
         else
           let ks = (if n_buckets h < new_n then kh_keys h @ map mem [n_buckets h ..< new_n] else kh_keys h)
           in Option.bind (rehash (n_buckets h) (new_n - 1) [0 ..< n_buckets h] ks (kh_flags h) (ac_empty_flags new_n))
                (\<lambda>(ks, _, new_flags).
                   Some (h\<lparr>kh_keys := if n_buckets h > new_n then take new_n ks else ks, kh_flags := new_flags,
                           n_buckets := new_n, n_occupied := kh_size h, upper_bound := hash_upper new_n\<rparr>)))"

subsection \<open>Inserting and deleting\<close>

text \<open>The result of the loop is \<open>x\<close>, \<open>i\<close> and \<open>site\<close> of the code.\<close>

partial_function (option) kh_put_loop ::
  "khash \<Rightarrow> u64 \<Rightarrow> nat \<Rightarrow> nat \<Rightarrow> nat \<Rightarrow> nat \<Rightarrow> nat \<Rightarrow> (nat \<times> nat \<times> nat) option" where
  "kh_put_loop h key msk last' i step site =
     (if \<not> ac_isempty (kh_flags h) i \<and> (ac_isdel (kh_flags h) i \<or> kh_keys h ! i \<noteq> key)
      then (let site = (if ac_isdel (kh_flags h) i then i else site); i' = (i + (step + 1)) AND msk
            in if i' = last' then Some (site, i', site) else kh_put_loop h key msk last' i' (step + 1) site)
      else Some (n_buckets h, i, site))"

definition kh_put_bucket :: "khash \<Rightarrow> u64 \<Rightarrow> nat option" where
  "kh_put_bucket h key =
     (let msk = n_buckets h - 1; i = unat (kh_int64_hash_func key) AND msk
      in if ac_isempty (kh_flags h) i then Some i
         else Option.bind (kh_put_loop h key msk i i 0 (n_buckets h)) (\<lambda>(x, i, site).
           Some (if x = n_buckets h then (if ac_isempty (kh_flags h) i \<and> site \<noteq> n_buckets h then site else i) else x)))"

definition kh_put :: "(nat \<Rightarrow> u64) \<Rightarrow> khash \<Rightarrow> u64 \<Rightarrow> (nat \<times> int \<times> khash) option" where
  "kh_put mem h key =
     Option.bind (if n_occupied h \<ge> upper_bound h
                  then (if n_buckets h > push_bit 1 (kh_size h) then kh_resize mem h (n_buckets h - 1)
                        else kh_resize mem h (n_buckets h + 1))
                  else Some h) (\<lambda>h.
     Option.bind (kh_put_bucket h key) (\<lambda>x.
       Some (if ac_isempty (kh_flags h) x
             then (x, 1, h\<lparr>kh_keys := (kh_keys h)[x := key], kh_flags := ac_set_isboth_false (kh_flags h) x,
                           kh_size := kh_size h + 1, n_occupied := n_occupied h + 1\<rparr>)
             else if ac_isdel (kh_flags h) x
             then (x, 2, h\<lparr>kh_keys := (kh_keys h)[x := key], kh_flags := ac_set_isboth_false (kh_flags h) x,
                           kh_size := kh_size h + 1\<rparr>)
             else (x, 0, h))))"

definition kh_del :: "khash \<Rightarrow> nat \<Rightarrow> khash" where
  "kh_del h x =
     (if x \<noteq> n_buckets h \<and> \<not> ac_iseither (kh_flags h) x
      then h\<lparr>kh_flags := ac_set_isdel_true (kh_flags h) x, kh_size := kh_size h - 1\<rparr> else h)"

section \<open>The set of names\<close>

definition khash_put :: "(nat \<Rightarrow> u64) \<Rightarrow> khash \<Rightarrow> string \<Rightarrow> (int \<times> khash) option" where
  "khash_put mem h str =
     (let key = name_hash str
      in Option.bind (kh_put mem h key) (\<lambda>(x, rv, h).
           Some (if rv = 0 then (0, h) else (rv, h\<lparr>kh_keys := (kh_keys h)[x := key]\<rparr>))))"

section \<open>Reading and writing flags\<close>

lemma drop4: "drop_bit 4 (i :: nat) = i div 16"
  by (simp add: drop_bit_eq_div)

lemma ac_shift_eq: "ac_shift i = 2 * (i mod 16)"
proof -
  have "i AND 0xf = i mod 16" using take_bit_eq_mask [of 4 i] by (simp add: take_bit_eq_mod mask_eq_exp_minus_1)
  then show ?thesis by (simp add: ac_shift_def push_bit_eq_mult)
qed

lemma small_bits: "bit (2 :: int) n \<longleftrightarrow> n = 1" "bit (3 :: int) n \<longleftrightarrow> n = 0 \<or> n = 1"
proof -
  have three: "(3 :: int) = mask 2" by (simp add: mask_eq_exp_minus_1)
  show "bit (2 :: int) n \<longleftrightarrow> n = 1" by (auto simp: bit_2_iff)
  show "bit (3 :: int) n \<longleftrightarrow> n = 0 \<or> n = 1" unfolding three by (auto simp: bit_mask_iff)
qed

lemma and_low_bits:
  "(w :: u32) AND 1 \<noteq> 0 \<longleftrightarrow> bit w 0"
  "(w :: u32) AND 2 \<noteq> 0 \<longleftrightarrow> bit w 1"
  "(w :: u32) AND 3 \<noteq> 0 \<longleftrightarrow> bit w 0 \<or> bit w 1"
proof -
  show "w AND 1 \<noteq> 0 \<longleftrightarrow> bit w 0" by (simp add: and_one_eq bit_0 odd_iff_mod_2_eq_one)
  show "w AND 2 \<noteq> 0 \<longleftrightarrow> bit w 1" by (simp only: bit_eq_iff) (auto simp: bit_and_iff small_bits)
  show "w AND 3 \<noteq> 0 \<longleftrightarrow> bit w 0 \<or> bit w 1"
    by (simp only: bit_eq_iff) (auto simp: bit_and_iff small_bits intro: exI [of _ 0] exI [of _ "Suc 0"])
qed

lemma flag_bits:
  "ac_isempty flag i \<longleftrightarrow> bit (flag ! (i div 16)) (2 * (i mod 16) + 1)"
  "ac_isdel flag i \<longleftrightarrow> bit (flag ! (i div 16)) (2 * (i mod 16))"
  "ac_iseither flag i \<longleftrightarrow> ac_isempty flag i \<or> ac_isdel flag i"
  by (auto simp: ac_isempty_def ac_isdel_def ac_iseither_def and_low_bits bit_drop_bit_eq drop4 ac_shift_eq)

lemma masks_bits:
  assumes "s < 31"
  shows "bit (push_bit s 1 :: u32) n \<longleftrightarrow> n = s" "bit (push_bit s 2 :: u32) n \<longleftrightarrow> n = s + 1"
    "bit (push_bit s 3 :: u32) n \<longleftrightarrow> n = s \<or> n = s + 1"
  using assms by (auto simp: bit_push_bit_iff bit_exp_iff small_bits)

lemma same_bucket: "(i :: nat) div 16 = j div 16 \<Longrightarrow> i mod 16 = j mod 16 \<longleftrightarrow> i = j"
  by (metis div_mult_mod_eq)

lemma bucket_lt_31: "2 * (i mod 16 :: nat) < 31"
  using mod_less_divisor [of 16 i] by linarith

lemma double_offset_neq: "2 * (a :: nat) \<noteq> Suc (2 * b)"
  by presburger

lemma word_updates:
  fixes w :: u32
  assumes "s < 31" "n < 32"
  shows "bit (w AND NOT (push_bit s 2)) n \<longleftrightarrow> bit w n \<and> n \<noteq> s + 1"
    "bit (w AND NOT (push_bit s 3)) n \<longleftrightarrow> bit w n \<and> n \<noteq> s \<and> n \<noteq> s + 1"
    "bit (w OR push_bit s 1) n \<longleftrightarrow> bit w n \<or> n = s"
  using assms(2) unfolding bit_and_iff bit_or_iff bit_not_iff masks_bits [OF assms(1)] by auto

lemma flag_word_updates:
  fixes fl :: "u32 list"
  assumes a: "a < length fl" and lt: "s < 16" "t < 16"
  shows "bit (fl[a := fl ! a AND NOT (push_bit (2 * s) 2)] ! b) (2 * t + 1) \<longleftrightarrow> \<not> (b = a \<and> t = s) \<and> bit (fl ! b) (2 * t + 1)"
    "bit (fl[a := fl ! a AND NOT (push_bit (2 * s) 2)] ! b) (2 * t) \<longleftrightarrow> bit (fl ! b) (2 * t)"
    "bit (fl[a := fl ! a AND NOT (push_bit (2 * s) 3)] ! b) (2 * t + 1) \<longleftrightarrow> \<not> (b = a \<and> t = s) \<and> bit (fl ! b) (2 * t + 1)"
    "bit (fl[a := fl ! a AND NOT (push_bit (2 * s) 3)] ! b) (2 * t) \<longleftrightarrow> \<not> (b = a \<and> t = s) \<and> bit (fl ! b) (2 * t)"
    "bit (fl[a := fl ! a OR push_bit (2 * s) 1] ! b) (2 * t + 1) \<longleftrightarrow> bit (fl ! b) (2 * t + 1)"
    "bit (fl[a := fl ! a OR push_bit (2 * s) 1] ! b) (2 * t) \<longleftrightarrow> b = a \<and> t = s \<or> bit (fl ! b) (2 * t)"
proof -
  have lt': "2 * s < 31" "2 * t < 32" "2 * t + 1 < 32" using lt by simp_all
  have neq: "2 * t \<noteq> 2 * s + 1" "2 * t + 1 \<noteq> 2 * s" by presburger+
  note words = word_updates [OF lt'(1) lt'(2)] word_updates [OF lt'(1) lt'(3)]
  show "bit (fl[a := fl ! a AND NOT (push_bit (2 * s) 2)] ! b) (2 * t + 1) \<longleftrightarrow> \<not> (b = a \<and> t = s) \<and> bit (fl ! b) (2 * t + 1)"
    "bit (fl[a := fl ! a AND NOT (push_bit (2 * s) 2)] ! b) (2 * t) \<longleftrightarrow> bit (fl ! b) (2 * t)"
    "bit (fl[a := fl ! a AND NOT (push_bit (2 * s) 3)] ! b) (2 * t + 1) \<longleftrightarrow> \<not> (b = a \<and> t = s) \<and> bit (fl ! b) (2 * t + 1)"
    "bit (fl[a := fl ! a AND NOT (push_bit (2 * s) 3)] ! b) (2 * t) \<longleftrightarrow> \<not> (b = a \<and> t = s) \<and> bit (fl ! b) (2 * t)"
    "bit (fl[a := fl ! a OR push_bit (2 * s) 1] ! b) (2 * t + 1) \<longleftrightarrow> bit (fl ! b) (2 * t + 1)"
    "bit (fl[a := fl ! a OR push_bit (2 * s) 1] ! b) (2 * t) \<longleftrightarrow> b = a \<and> t = s \<or> bit (fl ! b) (2 * t)"
    unfolding nth_list_update [OF a] using neq by (simp_all only: words split: if_split) auto
qed

lemma flag_updates [simp]:
  assumes "i div 16 < length flag"
  shows "ac_isempty (ac_set_isempty_false flag i) j \<longleftrightarrow> j \<noteq> i \<and> ac_isempty flag j"
    "ac_isdel (ac_set_isempty_false flag i) j \<longleftrightarrow> ac_isdel flag j"
    "ac_isempty (ac_set_isboth_false flag i) j \<longleftrightarrow> j \<noteq> i \<and> ac_isempty flag j"
    "ac_isdel (ac_set_isboth_false flag i) j \<longleftrightarrow> j \<noteq> i \<and> ac_isdel flag j"
    "ac_isempty (ac_set_isdel_true flag i) j \<longleftrightarrow> ac_isempty flag j"
    "ac_isdel (ac_set_isdel_true flag i) j \<longleftrightarrow> j = i \<or> ac_isdel flag j"
proof -
  have eq: "j = i \<longleftrightarrow> j div 16 = i div 16 \<and> j mod 16 = i mod 16" by (metis div_mult_mod_eq)
  note at = flag_word_updates [OF assms, of "i mod 16" "j mod 16" "j div 16"]
  show "ac_isempty (ac_set_isempty_false flag i) j \<longleftrightarrow> j \<noteq> i \<and> ac_isempty flag j"
    "ac_isdel (ac_set_isempty_false flag i) j \<longleftrightarrow> ac_isdel flag j"
    "ac_isempty (ac_set_isboth_false flag i) j \<longleftrightarrow> j \<noteq> i \<and> ac_isempty flag j"
    "ac_isdel (ac_set_isboth_false flag i) j \<longleftrightarrow> j \<noteq> i \<and> ac_isdel flag j"
    "ac_isempty (ac_set_isdel_true flag i) j \<longleftrightarrow> ac_isempty flag j"
    "ac_isdel (ac_set_isdel_true flag i) j \<longleftrightarrow> j = i \<or> ac_isdel flag j"
    unfolding flag_bits(1,2) ac_set_isempty_false_def ac_set_isboth_false_def ac_set_isdel_true_def drop4 ac_shift_eq eq
    by (rule at; simp)+
qed

lemma flag_lengths [simp]:
  "length (ac_set_isempty_false flag i) = length flag"
  "length (ac_set_isboth_false flag i) = length flag"
  "length (ac_set_isdel_true flag i) = length flag"
  "length (ac_empty_flags n) = ac_fsize n"
  by (simp_all add: ac_set_isempty_false_def ac_set_isboth_false_def ac_set_isdel_true_def ac_empty_flags_def)

lemma ac_empty_word: "k < 16 \<Longrightarrow> bit (0xaaaaaaaa :: u32) (2 * k + 1) \<and> \<not> bit (0xaaaaaaaa :: u32) (2 * k)"
proof -
  have "\<forall>k \<in> set [0 ..< 16]. bit (0xaaaaaaaa :: u32) (2 * k + 1) \<and> \<not> bit (0xaaaaaaaa :: u32) (2 * k)" by code_simp
  then show "k < 16 \<Longrightarrow> bit (0xaaaaaaaa :: u32) (2 * k + 1) \<and> \<not> bit (0xaaaaaaaa :: u32) (2 * k)" by simp
qed

lemma ac_empty_flags_empty: "i div 16 < ac_fsize n \<Longrightarrow> ac_isempty (ac_empty_flags n) i \<and> \<not> ac_isdel (ac_empty_flags n) i"
  using ac_empty_word [of "i mod 16"] by (simp add: flag_bits ac_empty_flags_def)

lemma bucket_in_flags:
  assumes "n = 2 ^ e" "i < n"
  shows "i div 16 < ac_fsize n"
proof (cases "n < 16")
  case False
  then have "4 \<le> e" using assms(1) power_strict_increasing_iff [of "2 :: nat" e 4] by simp
  then obtain d where "e = 4 + d" using le_Suc_ex by blast
  then have "n = 16 * 2 ^ d" using assms(1) by (simp add: power_add)
  then show ?thesis using assms(2) False by (simp add: ac_fsize_def drop4 less_mult_imp_div_less mult.commute)
qed (use assms in \<open>simp add: ac_fsize_def\<close>)

section \<open>Probing visits every bucket\<close>

definition tri :: "nat \<Rightarrow> nat" where
  "tri s = s * (s + 1) div 2"

definition probe :: "nat \<Rightarrow> u64 \<Rightarrow> nat \<Rightarrow> nat" where
  "probe n key s = (unat (kh_int64_hash_func key) + tri s) mod n"

lemma tri_double: "2 * tri s = s * (s + 1)"
  by (simp add: tri_def)

lemma tri_Suc: "tri (Suc s) = tri s + (s + 1)"
proof -
  have "2 * tri (Suc s) = 2 * (tri s + (s + 1))" unfolding distrib_left tri_double by simp
  then show ?thesis by simp
qed

lemma and_mask_mod: "n = 2 ^ e \<Longrightarrow> (x :: nat) AND (n - 1) = x mod n"
  using take_bit_eq_mask [of e x] by (simp add: take_bit_eq_mod mask_eq_exp_minus_1)

lemma probe_start: "n = 2 ^ e \<Longrightarrow> unat (kh_int64_hash_func key) AND (n - 1) = probe n key 0"
  using and_mask_mod [of n e] by (simp add: probe_def tri_def)

lemma probe_next:
  assumes "n = 2 ^ e"
  shows "(probe n key s + (s + 1)) AND (n - 1) = probe n key (Suc s)"
  unfolding and_mask_mod [OF assms] probe_def tri_Suc unfolding mod_add_left_eq add.assoc ..

lemma probe_lt: "n = 2 ^ e \<Longrightarrow> probe n key s < n"
  by (simp add: probe_def)

lemma odd_pow2_dvd: "odd (a :: nat) \<Longrightarrow> 2 ^ e dvd a * b \<Longrightarrow> 2 ^ e dvd b"
  by (metis coprime_dvd_mult_right_iff coprime_left_2_iff_odd coprime_power_left_iff)

lemma probe_inj:
  assumes n: "n = 2 ^ e" and lt: "s < n" "t < n" and eq: "probe n key s = probe n key t"
  shows "s = t"
proof -
  have key: "x = y" if xy: "x \<le> y" "y < n" and same: "probe n key x = probe n key y" for x y
  proof (rule ccontr)
    assume "x \<noteq> y"
    then have less: "x < y" using xy by simp
    have "tri x \<le> tri y" unfolding tri_def using xy(1) by (intro div_le_mono mult_le_mono) auto
    then have "n dvd tri y - tri x"
      using same unfolding probe_def by (metis add_diff_cancel_left add_le_cancel_left mod_eq_dvd_iff_nat)
    then have "2 * n dvd 2 * (tri y - tri x)" by simp
    moreover have "2 * (tri y - tri x) = (y - x) * (y + x + 1)"
    proof -
      obtain d where d: "y = x + d" using xy(1) le_Suc_ex by blast
      show ?thesis unfolding right_diff_distrib' tri_double d by (simp add: algebra_simps)
    qed
    ultimately have dvd: "2 ^ Suc e dvd (y - x) * (y + x + 1)" using n by simp
    show False
    proof (cases "odd (y - x)")
      case True
      then have "2 ^ Suc e dvd y + x + 1" using odd_pow2_dvd dvd by blast
      then have "2 * n \<le> y + x + 1" using n dvd_imp_le by fastforce
      then show False using less xy by simp
    next
      case False
      then have "odd (y + x + 1)" using xy(1) by simp
      then have "2 ^ Suc e dvd y - x" using odd_pow2_dvd dvd by (metis mult.commute)
      then have "2 * n \<le> y - x" using n less dvd_imp_le by fastforce
      then show False using xy by simp
    qed
  qed
  show ?thesis
  proof (cases "s \<le> t")
    case True
    then show ?thesis using key [of s t] lt eq by simp
  next
    case False
    then show ?thesis using key [of t s] lt eq by simp
  qed
qed

lemma probe_surj:
  assumes n: "n = 2 ^ e" and i: "i < n"
  shows "\<exists>s < n. probe n key s = i"
proof -
  have "inj_on (probe n key) {..< n}" using probe_inj [OF n] by (auto simp: inj_on_def)
  moreover have "probe n key ` {..< n} \<subseteq> {..< n}" using probe_lt [OF n] by auto
  ultimately have "probe n key ` {..< n} = {..< n}" by (simp add: endo_inj_surj)
  then show ?thesis using i by (metis imageE lessThan_iff)
qed

section \<open>Invariants\<close>

definition live :: "kflags \<Rightarrow> nat \<Rightarrow> bool" where
  "live flag i \<longleftrightarrow> \<not> ac_iseither flag i"

text \<open>A key is found at bucket \<open>i\<close> when no bucket probed before is empty.\<close>

definition chained :: "nat \<Rightarrow> kflags \<Rightarrow> u64 \<Rightarrow> nat \<Rightarrow> bool" where
  "chained n flag key i \<longleftrightarrow> (\<exists>s < n. probe n key s = i \<and> (\<forall>t < s. \<not> ac_isempty flag (probe n key t)))"

definition live_set :: "nat \<Rightarrow> kflags \<Rightarrow> nat set" where
  "live_set n flag = {i. i < n \<and> live flag i}"

definition used_set :: "nat \<Rightarrow> kflags \<Rightarrow> nat set" where
  "used_set n flag = {i. i < n \<and> \<not> ac_isempty flag i}"

definition kh_ok :: "khash \<Rightarrow> bool" where
  "kh_ok h \<longleftrightarrow> h = kh_init \<or>
     (\<exists>e. 2 \<le> e \<and> e \<le> 30 \<and> n_buckets h = 2 ^ e
        \<and> length (kh_flags h) = ac_fsize (n_buckets h) \<and> length (kh_keys h) = n_buckets h
        \<and> inj_on ((!) (kh_keys h)) (live_set (n_buckets h) (kh_flags h))
        \<and> (\<forall>i \<in> live_set (n_buckets h) (kh_flags h). chained (n_buckets h) (kh_flags h) (kh_keys h ! i) i)
        \<and> kh_size h = card (live_set (n_buckets h) (kh_flags h))
        \<and> n_occupied h = card (used_set (n_buckets h) (kh_flags h))
        \<and> upper_bound h = hash_upper (n_buckets h) \<and> n_occupied h \<le> upper_bound h)"

definition kh_set :: "khash \<Rightarrow> u64 set" where
  "kh_set h = (!) (kh_keys h) ` live_set (n_buckets h) (kh_flags h)"

lemma live_iff: "live flag i \<longleftrightarrow> \<not> ac_isempty flag i \<and> \<not> ac_isdel flag i"
  by (simp add: live_def flag_bits(3))

lemma bucket_sets [simp]:
  "finite (live_set n flag)" "finite (used_set n flag)" "live_set n flag \<subseteq> used_set n flag"
  by (auto simp: live_set_def used_set_def live_iff)

lemma used_set_le: "card (used_set n flag) \<le> n"
  using card_mono [of "{..< n}" "used_set n flag"] by (auto simp: used_set_def)

lemma empty_bucket_exists:
  assumes "card (used_set n flag) < n"
  shows "\<exists>i < n. ac_isempty flag i"
proof (rule ccontr)
  assume "\<not> (\<exists>i < n. ac_isempty flag i)"
  then have "used_set n flag = {..< n}" by (auto simp: used_set_def)
  then show False using assms by simp
qed

lemma first_probe:
  assumes n: "n = 2 ^ e" and i: "i < n" "P i"
  obtains s where "s < n" "P (probe n key s)" "\<And>t. t < s \<Longrightarrow> \<not> P (probe n key t)"
proof -
  obtain s where s: "s < n" "P (probe n key s)" using probe_surj [OF n i(1)] i(2) by metis
  let ?l = "LEAST s. P (probe n key s)"
  have "P (probe n key ?l)" using LeastI [of "\<lambda>s. P (probe n key s)"] s(2) by blast
  moreover have "?l < n" using Least_le [of "\<lambda>s. P (probe n key s)"] s le_less_trans by blast
  moreover have "\<not> P (probe n key t)" if "t < ?l" for t using not_less_Least [OF that] by simp
  ultimately show thesis using that by blast
qed

lemma probe_empty_finds:
  assumes n: "n = 2 ^ e" and s: "ac_isempty flag (probe n key s)" "\<And>t. t < s \<Longrightarrow> \<not> ac_isempty flag (probe n key t)"
    and le: "t \<le> s"
  shows "probe_empty flag (n - 1) (probe n key t) t = Some (probe n key s)"
  using le
proof (induction "s - t" arbitrary: t)
  case 0
  then show ?case using s(1) by (subst probe_empty.simps) simp
next
  case (Suc d)
  then have lt: "t < s" by simp
  have "probe_empty flag (n - 1) (probe n key (Suc t)) (Suc t) = Some (probe n key s)"
    using Suc.hyps(1) [of "Suc t"] Suc.hyps(2) lt by simp
  then show ?case
    using s(2) [OF lt] probe_next [OF n, of key t] by (subst probe_empty.simps) simp
qed

lemma hash_upper_lt: "4 \<le> n \<Longrightarrow> hash_upper n < n"
  unfolding hash_upper_def by (rule less_mult_imp_div_less) simp

lemma chained_mono:
  "chained n flag key i \<Longrightarrow> (\<And>j. j < n \<Longrightarrow> ac_isempty flag' j \<Longrightarrow> ac_isempty flag j) \<Longrightarrow> n = 2 ^ e \<Longrightarrow> chained n flag' key i"
  unfolding chained_def using probe_lt by blast

section \<open>Rehashing\<close>

text \<open>
  During a rehash the elements \<open>K\<close> are in the old table, in the new one, or in hand; the two tables share the keys but
  no bucket.
\<close>

definition rehash_inv ::
  "nat \<Rightarrow> nat \<Rightarrow> u64 set \<Rightarrow> u64 set \<Rightarrow> u64 list \<Rightarrow> kflags \<Rightarrow> kflags \<Rightarrow> bool" where
  "rehash_inv n m K hand ks flag new_flags \<longleftrightarrow>
     (\<forall>i < n. i div 16 < length flag) \<and> length new_flags = ac_fsize m \<and> length ks = max n m
     \<and> (\<forall>i < m. \<not> ac_isdel new_flags i)
     \<and> live_set n flag \<inter> used_set m new_flags = {}
     \<and> inj_on ((!) ks) (live_set n flag \<union> used_set m new_flags)
     \<and> hand \<inter> (!) ks ` (live_set n flag \<union> used_set m new_flags) = {}
     \<and> hand \<union> (!) ks ` (live_set n flag \<union> used_set m new_flags) = K
     \<and> (\<forall>i \<in> used_set m new_flags. chained m new_flags (ks ! i) i)"

lemma rehash_inv_card:
  assumes inv: "rehash_inv n m K {key} ks flag new_flags" and K: "card K < m"
  shows "card (used_set m new_flags) < m"
proof -
  let ?A = "live_set n flag \<union> used_set m new_flags"
  have "card (used_set m new_flags) \<le> card ?A" by (intro card_mono) auto
  also have "\<dots> = card ((!) ks ` ?A)" using inv by (simp add: rehash_inv_def card_image)
  also have "\<dots> \<le> card K"
  proof (rule card_mono)
    have "K = insert key ((!) ks ` ?A)" using inv by (auto simp: rehash_inv_def)
    then show "finite K" "(!) ks ` ?A \<subseteq> K" by (simp, blast)
  qed
  finally show ?thesis using K by simp
qed

lemma used_set_fill:
  "i div 16 < length flag \<Longrightarrow> i < m \<Longrightarrow> used_set m (ac_set_isempty_false flag i) = insert i (used_set m flag)"
  by (auto simp: used_set_def)

lemma live_set_delete:
  "i div 16 < length flag \<Longrightarrow> live_set n (ac_set_isdel_true flag i) = live_set n flag - {i}"
  by (auto simp: live_set_def live_iff)

lemma image_update: "i < length ks \<Longrightarrow> (!) (ks[i := x]) ` insert i A = insert x ((!) ks ` (A - {i}))"
  by (auto simp: nth_list_update image_iff)

lemma inj_update:
  assumes "i < length ks" "inj_on ((!) ks) (A - {i})" "x \<notin> (!) ks ` (A - {i})"
  shows "inj_on ((!) (ks[i := x])) (insert i A)"
  using assms by (force simp: inj_on_def nth_list_update)

text \<open>Placing the key in hand at the first empty bucket of its chain; what the old table had there is in hand next.\<close>

lemma rehash_place:
  assumes inv: "rehash_inv n m K {key} ks flag new_flags" and m: "m = 2 ^ e"
    and s: "s < m" "ac_isempty new_flags (probe m key s)" "\<And>t. t < s \<Longrightarrow> \<not> ac_isempty new_flags (probe m key t)"
    and i: "i = probe m key s"
  shows "i < n \<Longrightarrow> live flag i \<Longrightarrow>
      rehash_inv n m K {ks ! i} (ks[i := key]) (ac_set_isdel_true flag i) (ac_set_isempty_false new_flags i)"
    and "\<not> (i < n \<and> live flag i) \<Longrightarrow> rehash_inv n m K {} (ks[i := key]) flag (ac_set_isempty_false new_flags i)"
proof -
  let ?O = "live_set n flag" and ?N = "used_set m new_flags" and ?f = "ac_set_isempty_false new_flags i"
  let ?A = "?O \<union> ?N" and ?ks = "ks[i := key]"
  note I = inv [unfolded rehash_inv_def]
  have im: "i < m" using i probe_lt [OF m] by simp
  have bit: "i div 16 < length new_flags" using bucket_in_flags [OF m im] I by simp
  have len: "i < length ks" using im I by simp
  have iN: "i \<notin> ?N" using s(2) i by (simp add: used_set_def)
  have N': "used_set m ?f = insert i ?N" using used_set_fill [OF bit im] .
  have dels: "\<forall>j < m. \<not> ac_isdel ?f j" using I bit by simp
  have hand: "key \<notin> (!) ks ` ?A" using I by simp
  have K: "K = insert key ((!) ks ` ?A)" using I by auto
  have inj: "inj_on ((!) ks) ?A" using I by simp
  have "chained m ?f (?ks ! j) j" if "j \<in> insert i ?N" for j
  proof (cases "j = i")
    case True
    then show ?thesis using s i len bit by (auto simp: chained_def)
  next
    case False
    then have "chained m new_flags (ks ! j) j" using that I by blast
    then show ?thesis using chained_mono [of m new_flags "ks ! j" j ?f, OF _ _ m] False bit by auto
  qed
  then have chain: "\<forall>j \<in> insert i ?N. chained m ?f (?ks ! j) j" by blast
  have inj': "inj_on ((!) ?ks) (insert i ?A)"
    using inj_update [OF len, of ?A key] inj hand inj_on_diff by blast
  have img: "(!) ?ks ` insert i ?A = insert key ((!) ks ` (?A - {i}))" using image_update [OF len] .
  show "rehash_inv n m K {ks ! i} ?ks (ac_set_isdel_true flag i) ?f" if "i < n" "live flag i"
  proof -
    have iO: "i \<in> ?O" using that by (simp add: live_set_def)
    have fl: "i div 16 < length flag" using I that(1) by blast
    have un: "live_set n (ac_set_isdel_true flag i) \<union> insert i ?N = insert i ?A"
      using live_set_delete [OF fl] iO by auto
    have "ks ! i \<notin> insert key ((!) ks ` (?A - {i}))"
      using hand iO inj by (auto simp: inj_on_def)
    moreover have "insert (ks ! i) (insert key ((!) ks ` (?A - {i}))) = K" using K iO by auto
    moreover have "live_set n (ac_set_isdel_true flag i) \<inter> insert i ?N = {}" using live_set_delete [OF fl] I by auto
    ultimately show ?thesis
      unfolding rehash_inv_def N' un img using I dels chain inj' fl by (simp add: insert_commute)
  qed
  show "rehash_inv n m K {} ?ks flag ?f" if "\<not> (i < n \<and> live flag i)"
  proof -
    have iO: "i \<notin> ?O" using that by (simp add: live_set_def)
    have un: "?O \<union> insert i ?N = insert i ?A" by blast
    have "insert key ((!) ks ` (?A - {i})) = K" using K iO iN by simp
    moreover have "?O \<inter> insert i ?N = {}" using iO I by auto
    ultimately show ?thesis
      unfolding rehash_inv_def N' un img using I dels chain inj' by simp
  qed
qed

lemma kick_out_places:
  assumes "rehash_inv n m K {key} ks flag new_flags" and m: "m = 2 ^ e" and K: "card K < m"
  shows "\<exists>ks' flag' new_flags'. kick_out n (m - 1) key ks flag new_flags = Some (ks', flag', new_flags')
           \<and> rehash_inv n m K {} ks' flag' new_flags' \<and> live_set n flag' \<subseteq> live_set n flag"
  using assms(1)
proof (induction "card (live_set n flag)" arbitrary: key ks flag new_flags rule: less_induct)
  case less
  obtain j where j: "j < m" "ac_isempty new_flags j"
    using empty_bucket_exists [OF rehash_inv_card [OF less.prems K]] by blast
  obtain s where s: "s < m" "ac_isempty new_flags (probe m key s)" "\<And>t. t < s \<Longrightarrow> \<not> ac_isempty new_flags (probe m key t)"
    using first_probe [OF m j(1), of "ac_isempty new_flags" key] j(2) by blast
  let ?i = "probe m key s"
  have found: "probe_empty new_flags (m - 1) (unat (kh_int64_hash_func key) AND (m - 1)) 0 = Some ?i"
    using probe_empty_finds [OF m s(2,3), of 0] probe_start [OF m] by simp
  have step: "kick_out n (m - 1) key ks flag new_flags =
      (if ?i < n \<and> live flag ?i
       then kick_out n (m - 1) (ks ! ?i) (ks[?i := key]) (ac_set_isdel_true flag ?i) (ac_set_isempty_false new_flags ?i)
       else Some (ks[?i := key], flag, ac_set_isempty_false new_flags ?i))"
    by (subst kick_out.simps) (simp only: found Option.bind.simps Let_def live_def)
  note place = rehash_place [OF less.prems m s refl]
  show ?case
  proof (cases "?i < n \<and> live flag ?i")
    case True
    let ?flag = "ac_set_isdel_true flag ?i"
    have fl: "?i div 16 < length flag" using less.prems True by (simp add: rehash_inv_def)
    have sub: "live_set n ?flag = live_set n flag - {?i}" using live_set_delete [OF fl] .
    have "?i \<in> live_set n flag" using True by (simp add: live_set_def)
    then have "card (live_set n ?flag) < card (live_set n flag)" unfolding sub by (intro card_Diff1_less) simp
    from less.hyps [OF this place(1)] True sub show ?thesis unfolding step by auto
  next
    case False
    then show ?thesis using place(2) unfolding step by auto
  qed
qed

lemma rehash_moves_all:
  assumes "rehash_inv n m K {} ks flag new_flags" and m: "m = 2 ^ e" and K: "card K < m"
    and moved: "\<And>i. i < j \<Longrightarrow> \<not> live flag i" and j: "j \<le> n"
  shows "\<exists>ks' flag' new_flags'. rehash n (m - 1) [j ..< n] ks flag new_flags = Some (ks', flag', new_flags')
           \<and> rehash_inv n m K {} ks' flag' new_flags' \<and> live_set n flag' = {}"
  using assms(1) moved j
proof (induction "n - j" arbitrary: j ks flag new_flags)
  case 0
  then have "live_set n flag = {}" by (auto simp: live_set_def)
  then show ?case using 0 by simp
next
  case (Suc d)
  then have jn: "j < n" and upt: "[j ..< n] = j # [Suc j ..< n]" by (simp_all add: upt_conv_Cons)
  show ?case
  proof (cases "live flag j")
    case True
    let ?flag = "ac_set_isdel_true flag j"
    have fl: "j div 16 < length flag" using Suc.prems(1) jn by (simp add: rehash_inv_def)
    have jO: "j \<in> live_set n flag" using True jn by (simp add: live_set_def)
    have sub: "live_set n ?flag = live_set n flag - {j}" using live_set_delete [OF fl] .
    have "rehash_inv n m K {ks ! j} ks ?flag new_flags"
    proof -
      note I = Suc.prems(1) [unfolded rehash_inv_def]
      have jN: "j \<notin> used_set m new_flags" using I jO by blast
      have un: "live_set n ?flag \<union> used_set m new_flags = live_set n flag \<union> used_set m new_flags - {j}"
        unfolding sub using jN by blast
      have "insert (ks ! j) ((!) ks ` (live_set n flag \<union> used_set m new_flags - {j})) = K" using I jO by auto
      moreover have "ks ! j \<notin> (!) ks ` (live_set n flag \<union> used_set m new_flags - {j})" using I jO by (auto simp: inj_on_def)
      ultimately show ?thesis unfolding rehash_inv_def un using I fl sub by (auto intro: inj_on_diff)
    qed
    from kick_out_places [OF this m K] obtain ks' flag' nf' where k:
      "kick_out n (m - 1) (ks ! j) ks ?flag new_flags = Some (ks', flag', nf')"
      "rehash_inv n m K {} ks' flag' nf'" "live_set n flag' \<subseteq> live_set n ?flag" by blast
    have "\<not> live flag' i" if "i < Suc j" for i
    proof
      assume "live flag' i"
      then have "i \<in> live_set n flag'" using that jn by (simp add: live_set_def)
      then have "i \<in> live_set n flag - {j}" using k(3) sub by blast
      then show False using Suc.prems(2) [of i] that by (auto simp: live_set_def)
    qed
    then show ?thesis
      using Suc.hyps(1) [of "Suc j" ks' flag' nf'] Suc.hyps(2) k(1,2) True jn unfolding upt by (simp add: live_def)
  next
    case False
    then have "\<not> live flag i" if "i < Suc j" for i using Suc.prems(2) [of i] that by (auto simp: less_Suc_eq)
    then show ?thesis
      using Suc.hyps(1) [of "Suc j" ks flag new_flags] Suc.hyps(2) Suc.prems(1) False jn unfolding upt by (simp add: live_def)
  qed
qed

lemma kh_init_sets [simp]: "n_buckets kh_init = 0" "kh_size kh_init = 0" "kh_set kh_init = {}" "live_set 0 flag = {}"
  by (simp_all add: kh_init_def kh_set_def live_set_def)

lemma kh_ok_init [simp]: "kh_ok kh_init"
  by (simp add: kh_ok_def)

lemma kh_size_card: "kh_ok h \<Longrightarrow> kh_size h = card (kh_set h)"
  by (auto simp: kh_ok_def kh_set_def card_image)

lemma empty_flags_sets: "m = 2 ^ e \<Longrightarrow> used_set m (ac_empty_flags m) = {} \<and> (\<forall>i < m. \<not> ac_isdel (ac_empty_flags m) i)"
  using bucket_in_flags ac_empty_flags_empty by (auto simp: used_set_def)

lemma rehash_inv_start:
  assumes ok: "kh_ok h" and m: "m = 2 ^ e"
    and ks: "ks = (if n_buckets h < m then kh_keys h @ map mem [n_buckets h ..< m] else kh_keys h)"
  shows "rehash_inv (n_buckets h) m (kh_set h) {} ks (kh_flags h) (ac_empty_flags m)"
proof -
  have len: "length (kh_keys h) = n_buckets h" and flags: "\<forall>i < n_buckets h. i div 16 < length (kh_flags h)"
    and inj: "inj_on ((!) (kh_keys h)) (live_set (n_buckets h) (kh_flags h))"
    using ok bucket_in_flags by (auto simp: kh_ok_def) (simp_all add: kh_init_def live_set_def)
  have same: "ks ! i = kh_keys h ! i" if "i \<in> live_set (n_buckets h) (kh_flags h)" for i
    using that len unfolding ks by (auto simp: live_set_def nth_append)
  have "(!) ks ` live_set (n_buckets h) (kh_flags h) = kh_set h" unfolding kh_set_def using same by force
  moreover have "inj_on ((!) ks) (live_set (n_buckets h) (kh_flags h))" using inj same by (simp add: inj_on_def)
  moreover have "length ks = max (n_buckets h) m" using len ks by auto
  ultimately show ?thesis using flags empty_flags_sets [OF m] by (simp add: rehash_inv_def)
qed

lemma kh_resize_keeps:
  assumes ok: "kh_ok h" and new: "m = (let r = kroundup32 new_n in if r < 4 then 4 else r)"
    and m: "m = 2 ^ e" "2 \<le> e" "e \<le> 30" and small: "kh_size h < hash_upper m"
  shows "\<exists>h'. kh_resize mem h new_n = Some h' \<and> kh_ok h' \<and> h' \<noteq> kh_init \<and> kh_set h' = kh_set h
           \<and> n_occupied h' < upper_bound h'"
proof -
  let ?n = "n_buckets h" and ?K = "kh_set h"
  define ks where "ks = (if ?n < m then kh_keys h @ map mem [?n ..< m] else kh_keys h)"
  have four: "4 \<le> m" using m power_increasing [of 2 e "2 :: nat"] by simp
  have K: "card ?K < m" using small hash_upper_lt [OF four] kh_size_card [OF ok] by simp
  obtain ks' flag' nf where r:
    "rehash ?n (m - 1) [0 ..< ?n] ks (kh_flags h) (ac_empty_flags m) = Some (ks', flag', nf)"
    "rehash_inv ?n m ?K {} ks' flag' nf" "live_set ?n flag' = {}"
    using rehash_moves_all [OF rehash_inv_start [OF ok m(1) ks_def] m(1) K, of 0] by auto
  define ks2 where "ks2 = (if m < ?n then take m ks' else ks')"
  define h' where "h' = h\<lparr>kh_keys := ks2, kh_flags := nf, n_buckets := m, n_occupied := kh_size h, upper_bound := hash_upper m\<rparr>"
  note I = r(2) [unfolded rehash_inv_def r(3)]
  have live: "live_set m nf = used_set m nf" using I by (auto simp: live_set_def used_set_def live_iff)
  have nth: "ks2 ! i = ks' ! i" if "i \<in> used_set m nf" for i using that by (simp add: ks2_def used_set_def)
  have set: "(!) ks2 ` used_set m nf = ?K" using I image_cong [OF refl nth, of "used_set m nf"] by simp
  have inj: "inj_on ((!) ks2) (used_set m nf)" using I inj_on_cong [of "used_set m nf" "(!) ks2" "(!) ks'", OF nth] by simp
  have card: "card (used_set m nf) = kh_size h" using card_image [OF inj] set kh_size_card [OF ok] by simp
  have "length ks2 = m" using I by (auto simp: ks2_def)
  then have "kh_ok h'"
    using I m live nth inj card small unfolding kh_ok_def h'_def by (intro disjI2 exI [of _ e]) auto
  moreover have "kh_resize mem h new_n = Some h'"
    unfolding kh_resize_def Let_def new [unfolded Let_def, symmetric] ks_def [symmetric] r(1) using small
    by (simp add: h'_def ks2_def)
  moreover have "kh_set h' = ?K" using live set by (simp add: kh_set_def h'_def)
  moreover have "n_occupied h' < upper_bound h'" using small by (simp add: h'_def)
  moreover have "n_buckets h' \<noteq> n_buckets kh_init" using four by (simp add: h'_def)
  ultimately show ?thesis by metis
qed

lemma unat_power2: "e \<le> 31 \<Longrightarrow> unat (2 ^ e :: u32) = 2 ^ e"
  using unat_of_nat [where ?'a = 32 and x = "2 ^ e"] power_strict_increasing [of e 32 "2 :: nat"] by simp

text \<open>Each shift doubles the number of ones below the highest one.\<close>

definition smeared :: "nat \<Rightarrow> nat \<Rightarrow> u32 \<Rightarrow> bool" where
  "smeared e k x \<longleftrightarrow> (\<forall>n. bit x n \<longrightarrow> n \<le> e) \<and> (\<forall>n \<le> e. e < n + k \<longrightarrow> bit x n)"

lemma smear:
  assumes "smeared e k x"
  shows "smeared e (2 * k) (x OR drop_bit k x)"
proof -
  have "bit (x OR drop_bit k x) n" if n: "n \<le> e" "e < n + 2 * k" for n
  proof (cases "e < n + k")
    case True
    then show ?thesis using assms n by (simp add: smeared_def bit_or_iff)
  next
    case False
    then have "bit x (n + k)" using assms n by (simp add: smeared_def)
    then show ?thesis by (simp add: bit_or_iff bit_drop_bit_eq add.commute)
  qed
  moreover have "n \<le> e" if "bit (x OR drop_bit k x) n" for n
    using assms that unfolding smeared_def bit_or_iff bit_drop_bit_eq comp_def by (metis add_leD2)
  ultimately show ?thesis by (simp add: smeared_def)
qed

lemma kroundup32_top:
  assumes top: "smeared e 1 (x - 1)" and e: "e \<le> 30"
  shows "kroundup32_word x = 2 ^ Suc e"
proof -
  have "smeared e 32 (let x = x - 1; x = x OR drop_bit 1 x; x = x OR drop_bit 2 x; x = x OR drop_bit 4 x;
                          x = x OR drop_bit 8 x in x OR drop_bit 16 x)" (is "smeared e 32 ?y")
    using smear [OF smear [OF smear [OF smear [OF smear [OF top]]]]] by (simp add: Let_def)
  then have "bit ?y n \<longleftrightarrow> n < Suc e" for n using e by (auto simp: smeared_def less_Suc_eq_le)
  then have "?y = mask (Suc e)" using e by (intro bit_eqI) (simp add: bit_mask_iff)
  then show ?thesis by (simp add: kroundup32_word_def mask_eq_exp_minus_1 Let_def)
qed

lemma kroundup32_next: "e \<le> 29 \<Longrightarrow> kroundup32 (2 ^ e + 1) = 2 ^ Suc e"
  using kroundup32_top [of e "2 ^ e + 1"] unat_power2 [of "Suc e"]
  by (simp add: kroundup32_def smeared_def bit_exp_iff add.commute)

lemma kroundup32_same:
  assumes e: "2 \<le> e" "e \<le> 30"
  shows "kroundup32 (2 ^ e - 1) = 2 ^ e"
proof -
  obtain d where d: "e = Suc (Suc d)" using e(1) by (metis add_2_eq_Suc le_Suc_ex)
  have "(2 ^ e - 1) - 1 = push_bit 1 (mask (Suc d) :: u32)" unfolding d by (simp add: push_bit_eq_mult mask_eq_exp_minus_1)
  moreover have "smeared (Suc d) 1 (push_bit 1 (mask (Suc d)))"
    using e d unfolding smeared_def bit_push_bit_iff bit_mask_iff by auto
  ultimately have "kroundup32_word (2 ^ e - 1) = 2 ^ Suc (Suc d)" using kroundup32_top [of "Suc d" "2 ^ e - 1"] e d by simp
  then show ?thesis using unat_power2 [of e] e d by (simp add: kroundup32_def of_nat_diff)
qed

lemma kroundup32_1: "kroundup32 1 = 1"
  by (simp add: kroundup32_def kroundup32_word_def)

section \<open>Inserting a key\<close>

lemma live_le_used: "card (live_set n flag) \<le> card (used_set n flag)"
  by (rule card_mono) simp_all

lemma hash_upper_half: "2 * k < n \<Longrightarrow> k < hash_upper n"
  unfolding hash_upper_def less_eq_Suc_le by (subst less_eq_div_iff_mult_less_eq) simp_all

lemma hash_upper_double: "2 \<le> n \<Longrightarrow> hash_upper n < hash_upper (2 * n)"
proof -
  assume n: "2 \<le> n"
  have "hash_upper n * 100 \<le> n * 77 + 50" unfolding hash_upper_def by (rule div_times_less_eq_dividend)
  then show ?thesis
    using n unfolding hash_upper_def [of "2 * n"] less_eq_Suc_le by (subst less_eq_div_iff_mult_less_eq) simp_all
qed

text \<open>The table after the resize at the start of an insertion has room.\<close>

lemma kh_put_makes_room:
  assumes ok: "kh_ok h" and small: "kh_size h < 2 ^ 28"
  shows "\<exists>h'. (if n_occupied h \<ge> upper_bound h
               then (if n_buckets h > push_bit 1 (kh_size h) then kh_resize mem h (n_buckets h - 1)
                     else kh_resize mem h (n_buckets h + 1))
               else Some h) = Some h'
           \<and> kh_ok h' \<and> h' \<noteq> kh_init \<and> kh_set h' = kh_set h \<and> n_occupied h' < upper_bound h'"
proof (cases "h = kh_init")
  case True
  have "kh_size h < hash_upper 4" using True by (simp add: hash_upper_def)
  then have "\<exists>h'. kh_resize mem h 1 = Some h' \<and> kh_ok h' \<and> h' \<noteq> kh_init \<and> kh_set h' = kh_set h
      \<and> n_occupied h' < upper_bound h'"
    by (intro kh_resize_keeps [OF ok, where m = 4 and e = 2]) (simp_all add: kroundup32_1 [unfolded One_nat_def])
  moreover have "n_occupied h = 0" "upper_bound h = 0" "n_buckets h = 0" using True by (simp_all add: kh_init_def)
  ultimately show ?thesis by simp
next
  case False
  then obtain e where e: "2 \<le> e" "e \<le> 30" "n_buckets h = 2 ^ e" "upper_bound h = hash_upper (2 ^ e)"
    and occ: "n_occupied h \<le> upper_bound h" and le: "kh_size h \<le> n_occupied h"
    using ok unfolding kh_ok_def by (auto simp: live_le_used)
  have four: "(4 :: nat) \<le> 2 ^ e" using power_increasing [of 2 e "2 :: nat"] e(1) by simp
  show ?thesis
  proof (cases "n_occupied h \<ge> upper_bound h")
    case full: True
    show ?thesis
    proof (cases "n_buckets h > push_bit 1 (kh_size h)")
      case True
      then have "2 * kh_size h < 2 ^ e" using e(3) by (simp add: push_bit_eq_mult)
      then have "kh_size h < hash_upper (2 ^ e)" by (rule hash_upper_half)
      moreover have "2 ^ e = (let r = kroundup32 (n_buckets h - 1) in if r < 4 then 4 else r)"
        using kroundup32_same [OF e(1,2)] e(3) four by simp
      ultimately show ?thesis using kh_resize_keeps [OF ok _ refl e(1,2)] full True by simp
    next
      case False
      then have "2 ^ e \<le> 2 * kh_size h" using e(3) by (simp add: push_bit_eq_mult)
      then have "(2 :: nat) ^ e < 2 ^ 29" using small by simp
      then have "e < 29" by (rule power_less_imp_less_exp [rotated]) simp
      then have "e \<le> 28" by simp
      moreover have "hash_upper (2 ^ e) < hash_upper (2 ^ Suc e)" using hash_upper_double [of "2 ^ e"] four by simp
      moreover have "2 ^ Suc e = (let r = kroundup32 (n_buckets h + 1) in if r < 4 then 4 else r)"
        using kroundup32_next [of e] \<open>e \<le> 28\<close> e(3) four by simp
      ultimately show ?thesis using kh_resize_keeps [OF ok, of _ "n_buckets h + 1" "Suc e" mem] full False occ le e by simp
    qed
  next
    case False
    then show ?thesis using ok \<open>h \<noteq> kh_init\<close> by simp
  qed
qed

text \<open>The bucket an insertion chooses holds the key, or is free and the key is not in the table.\<close>

lemma kh_put_loop_finds:
  assumes n: "n_buckets h = 2 ^ e" and s: "s < n_buckets h"
    and stop: "ac_isempty (kh_flags h) (probe (n_buckets h) key s)
               \<or> live (kh_flags h) (probe (n_buckets h) key s) \<and> kh_keys h ! probe (n_buckets h) key s = key"
    and go: "\<And>t. t < s \<Longrightarrow> \<not> ac_isempty (kh_flags h) (probe (n_buckets h) key t)
               \<and> (ac_isdel (kh_flags h) (probe (n_buckets h) key t) \<or> kh_keys h ! probe (n_buckets h) key t \<noteq> key)"
    and t: "t \<le> s"
  shows "\<exists>site'. kh_put_loop h key (n_buckets h - 1) (probe (n_buckets h) key 0) (probe (n_buckets h) key t) t site
             = Some (n_buckets h, probe (n_buckets h) key s, site')
           \<and> (site' = site \<or> (\<exists>u < s. site' = probe (n_buckets h) key u \<and> ac_isdel (kh_flags h) site'))"
  using t
proof (induction "s - t" arbitrary: t site)
  case 0
  then have "t = s" by simp
  then show ?case using stop by (subst kh_put_loop.simps) (auto simp: live_iff)
next
  case (Suc d)
  then have lt: "t < s" by simp
  let ?p = "probe (n_buckets h) key"
  let ?site = "if ac_isdel (kh_flags h) (?p t) then ?p t else site"
  have "?p (Suc t) \<noteq> ?p 0" using probe_inj [OF n, of "Suc t" 0 key] lt s by auto
  then have "kh_put_loop h key (n_buckets h - 1) (?p 0) (?p t) t site
      = kh_put_loop h key (n_buckets h - 1) (?p 0) (?p (Suc t)) (Suc t) ?site"
    using go [OF lt] probe_next [OF n, of key t] by (subst kh_put_loop.simps) (simp add: Let_def)
  moreover obtain site' where
    "kh_put_loop h key (n_buckets h - 1) (?p 0) (?p (Suc t)) (Suc t) ?site = Some (n_buckets h, ?p s, site')"
    "site' = ?site \<or> (\<exists>u < s. site' = ?p u \<and> ac_isdel (kh_flags h) site')"
  proof -
    have "d = s - Suc t" "Suc t \<le> s" using Suc.hyps(2) lt by simp_all
    then show thesis using that Suc.hyps(1) [of "Suc t" ?site] by blast
  qed
  ultimately show ?case using lt by (auto split: if_splits)
qed

lemma kh_put_bucket_spec:
  assumes ok: "kh_ok h" "h \<noteq> kh_init" and room: "n_occupied h < upper_bound h"
  obtains x where "kh_put_bucket h key = Some x" "x < n_buckets h"
    "live (kh_flags h) x \<and> kh_keys h ! x = key \<or>
     \<not> live (kh_flags h) x \<and> key \<notin> kh_set h \<and> chained (n_buckets h) (kh_flags h) key x"
proof -
  let ?n = "n_buckets h" and ?f = "kh_flags h" and ?p = "probe (n_buckets h) key"
  obtain e where e: "2 \<le> e" "?n = 2 ^ e" and chain: "\<And>i. i \<in> live_set ?n ?f \<Longrightarrow> chained ?n ?f (kh_keys h ! i) i"
    and cards: "n_occupied h = card (used_set ?n ?f)" "upper_bound h = hash_upper ?n"
    using ok by (auto simp: kh_ok_def)
  have "(4 :: nat) \<le> ?n" using power_increasing [of 2 e "2 :: nat"] e by simp
  then have "card (used_set ?n ?f) < ?n" using room cards hash_upper_lt [of ?n] by simp
  then obtain j where j: "j < ?n" "ac_isempty ?f j" using empty_bucket_exists by blast
  let ?P = "\<lambda>i. ac_isempty ?f i \<or> live ?f i \<and> kh_keys h ! i = key"
  obtain s where s: "s < ?n" "?P (?p s)" "\<And>t. t < s \<Longrightarrow> \<not> ?P (?p t)"
    using first_probe [OF e(2) j(1), of ?P key] j(2) by blast
  then have go: "\<And>t. t < s \<Longrightarrow> \<not> ac_isempty ?f (?p t) \<and> (ac_isdel ?f (?p t) \<or> kh_keys h ! ?p t \<noteq> key)"
    by (auto simp: live_iff)
  have absent: "key \<notin> kh_set h" if emp: "ac_isempty ?f (?p s)"
  proof
    assume "key \<in> kh_set h"
    then obtain i where i: "i \<in> live_set ?n ?f" "kh_keys h ! i = key" by (auto simp: kh_set_def)
    then obtain u where u: "?p u = i" "\<And>t. t < u \<Longrightarrow> \<not> ac_isempty ?f (?p t)" using chain [OF i(1)] by (auto simp: chained_def)
    have "?P (?p u)" using i u(1) by (simp add: live_set_def)
    then have "s \<le> u" using s(3) [of u] by (meson not_less)
    moreover have "u \<noteq> s" using i(1) u(1) emp by (auto simp: live_set_def live_iff)
    ultimately show False using u(2) [of s] emp by simp
  qed
  have free: "chained ?n ?f key (?p u)" if "u \<le> s" for u
    using that s(1) go unfolding chained_def by (intro exI [of _ u]) auto
  obtain site where site: "kh_put_loop h key (?n - 1) (?p 0) (?p 0) 0 ?n = Some (?n, ?p s, site)"
    "site = ?n \<or> (\<exists>u < s. site = ?p u \<and> ac_isdel ?f site)"
    using kh_put_loop_finds [OF e(2) s(1,2) go, of 0 ?n] by auto
  have start: "unat (kh_int64_hash_func key) AND (?n - 1) = ?p 0" using probe_start [OF e(2)] .
  show thesis
  proof (cases "ac_isempty ?f (?p 0)")
    case True
    then have "s = 0" using s(3) [of 0] by auto
    then show thesis
      using that [of "?p 0"] True start absent free [of 0] probe_lt [OF e(2)] unfolding kh_put_bucket_def Let_def start
      by (simp add: live_iff)
  next
    case False
    then have put: "kh_put_bucket h key = Some (if ac_isempty ?f (?p s) \<and> site \<noteq> ?n then site else ?p s)"
      unfolding kh_put_bucket_def Let_def start site(1) by simp
    show thesis
    proof (cases "ac_isempty ?f (?p s) \<and> site \<noteq> ?n")
      case True
      then obtain u where u: "u < s" "site = ?p u" "ac_isdel ?f site" using site(2) by blast
      then show thesis
        using that [of site] put True absent free [of u] probe_lt [OF e(2)] by (simp add: live_iff)
    next
      case False
      then show thesis
        using that [of "?p s"] put absent free [of s] probe_lt [OF e(2)] s(2) by (auto simp: live_iff)
    qed
  qed
qed

lemma live_set_fill:
  "x div 16 < length flag \<Longrightarrow> x < n \<Longrightarrow> live_set n (ac_set_isboth_false flag x) = insert x (live_set n flag)
     \<and> used_set n (ac_set_isboth_false flag x) = insert x (used_set n flag)"
  by (auto simp: live_set_def used_set_def live_iff)

lemma kh_fill:
  assumes ok: "kh_ok h" "h \<noteq> kh_init" and room: "n_occupied h < upper_bound h" and x: "x < n_buckets h"
    and free: "\<not> live (kh_flags h) x" "key \<notin> kh_set h" "chained (n_buckets h) (kh_flags h) key x"
    and h': "h' = h\<lparr>kh_keys := (kh_keys h)[x := key], kh_flags := ac_set_isboth_false (kh_flags h) x, kh_size := kh_size h + 1,
                     n_occupied := if ac_isempty (kh_flags h) x then n_occupied h + 1 else n_occupied h\<rparr>"
  shows "kh_ok h' \<and> kh_set h' = insert key (kh_set h)"
proof -
  let ?n = "n_buckets h" and ?f = "kh_flags h" and ?f' = "ac_set_isboth_false (kh_flags h) x" and ?ks = "(kh_keys h)[x := key]"
  obtain e where e: "2 \<le> e" "e \<le> 30" "?n = 2 ^ e" and len: "length ?f = ac_fsize ?n" "length (kh_keys h) = ?n"
    and inj: "inj_on ((!) (kh_keys h)) (live_set ?n ?f)"
    and chain: "\<And>i. i \<in> live_set ?n ?f \<Longrightarrow> chained ?n ?f (kh_keys h ! i) i"
    and size: "kh_size h = card (live_set ?n ?f)" "n_occupied h = card (used_set ?n ?f)" "upper_bound h = hash_upper ?n"
    using ok by (auto simp: kh_ok_def)
  have bit: "x div 16 < length ?f" using bucket_in_flags [OF e(3) x] len by simp
  note sets = live_set_fill [OF bit x]
  have xl: "x \<notin> live_set ?n ?f" using free by (simp add: live_set_def)
  have diff: "live_set ?n ?f - {x} = live_set ?n ?f" using xl by simp
  have xk: "x < length (kh_keys h)" using x len by simp
  have image: "(!) ?ks ` live_set ?n ?f' = insert key (kh_set h)"
    using sets image_update [OF xk, of key "live_set ?n ?f"] diff by (simp add: kh_set_def)
  have "inj_on ((!) ?ks) (live_set ?n ?f')"
    using sets inj_update [OF xk, of "live_set ?n ?f" key] diff inj free(2) by (simp add: kh_set_def)
  moreover have "chained ?n ?f' (?ks ! i) i" if "i \<in> insert x (live_set ?n ?f)" for i
  proof -
    have "chained ?n ?f (?ks ! i) i" using that chain xk xl free(3) by (cases "i = x") auto
    then show ?thesis using chained_mono [OF _ _ e(3), of ?f "?ks ! i" i ?f'] bit by simp
  qed
  moreover have "card (insert x (live_set ?n ?f)) = kh_size h + 1" using xl size by simp
  moreover have "card (used_set ?n ?f') = (if ac_isempty ?f x then n_occupied h + 1 else n_occupied h)"
  proof (cases "ac_isempty ?f x")
    case True
    then show ?thesis using sets size by (simp add: used_set_def)
  next
    case False
    then have "insert x (used_set ?n ?f) = used_set ?n ?f" using x by (auto simp: used_set_def)
    then show ?thesis using sets size False by simp
  qed
  ultimately have "kh_ok h'"
    using e len size room sets unfolding kh_ok_def h' by (intro disjI2 exI [of _ e]) auto
  then show ?thesis using image by (simp add: kh_set_def h')
qed

lemma kh_put_spec:
  assumes ok: "kh_ok h" and small: "kh_size h < 2 ^ 28"
  shows "\<exists>x rv h'. kh_put mem h key = Some (x, rv, h') \<and> kh_ok h' \<and> kh_set h' = insert key (kh_set h)
           \<and> (rv = 0 \<longleftrightarrow> key \<in> kh_set h) \<and> x < length (kh_keys h') \<and> kh_keys h' ! x = key"
proof -
  obtain g where g: "(if n_occupied h \<ge> upper_bound h
               then (if n_buckets h > push_bit 1 (kh_size h) then kh_resize mem h (n_buckets h - 1)
                     else kh_resize mem h (n_buckets h + 1))
               else Some h) = Some g"
    and ok': "kh_ok g" "g \<noteq> kh_init" "kh_set g = kh_set h" and room: "n_occupied g < upper_bound g"
    using kh_put_makes_room [OF ok small, of mem] by blast
  obtain x where x: "kh_put_bucket g key = Some x" "x < n_buckets g"
    "live (kh_flags g) x \<and> kh_keys g ! x = key \<or>
     \<not> live (kh_flags g) x \<and> key \<notin> kh_set g \<and> chained (n_buckets g) (kh_flags g) key x"
    using kh_put_bucket_spec [OF ok'(1,2) room] by blast
  have len: "length (kh_keys g) = n_buckets g" using ok'(1,2) by (auto simp: kh_ok_def)
  let ?g = "g\<lparr>kh_keys := (kh_keys g)[x := key], kh_flags := ac_set_isboth_false (kh_flags g) x, kh_size := kh_size g + 1,
                 n_occupied := if ac_isempty (kh_flags g) x then n_occupied g + 1 else n_occupied g\<rparr>"
  have put: "kh_put mem h key = Some (if live (kh_flags g) x then (x, 0, g)
                                      else (x, if ac_isempty (kh_flags g) x then 1 else 2, ?g))"
    unfolding kh_put_def g Option.bind.simps x(1) by (simp add: live_iff)
  show ?thesis
  proof (cases "live (kh_flags g) x")
    case True
    then have "key \<in> kh_set g" using x by (auto simp: kh_set_def live_set_def)
    then show ?thesis using put True x ok' len by (simp add: insert_absorb)
  next
    case False
    then show ?thesis
      using put x ok' len kh_fill [OF ok'(1,2) room x(2) _ _ _ refl, of key] by simp
  qed
qed

section \<open>The set behind a listing\<close>

text \<open>A run of insertions, with which of them were new.\<close>

fun put_all :: "('t \<Rightarrow> string \<Rightarrow> (int \<times> 't) option) \<Rightarrow> 't \<Rightarrow> string list \<Rightarrow> (bool list \<times> 't) option" where
  "put_all put_name t [] = Some ([], t)"
| "put_all put_name t (x # xs) =
     Option.bind (put_name t x) (\<lambda>(rv, t).
       map_option (\<lambda>(rs, t). ((rv \<noteq> 0) # rs, t)) (put_all put_name t xs))"

fun HashSet_puts :: "u64 set \<Rightarrow> string list \<Rightarrow> bool list \<times> u64 set" where
  "HashSet_puts names [] = ([], names)"
| "HashSet_puts names (x # xs) =
     (case HashSet_put x names of (rv, names) \<Rightarrow>
      case HashSet_puts names xs of (rs, names) \<Rightarrow> ((rv \<noteq> 0) # rs, names))"

locale name_set =
  fixes ok :: "'t \<Rightarrow> bool" and elems :: "'t \<Rightarrow> u64 set" and put_name :: "'t \<Rightarrow> string \<Rightarrow> (int \<times> 't) option" and cap :: nat
  assumes put_spec: "ok t \<Longrightarrow> card (elems t) < cap \<Longrightarrow>
    \<exists>rv t'. put_name t x = Some (rv, t') \<and> ok t' \<and> (rv \<noteq> 0 \<longleftrightarrow> fst (HashSet_put x (elems t)) \<noteq> 0)
      \<and> elems t' = snd (HashSet_put x (elems t))"
begin

lemma put_all_refines:
  "ok t \<Longrightarrow> card (elems t) + length xs \<le> cap \<Longrightarrow>
   \<exists>t'. put_all put_name t xs = Some (fst (HashSet_puts (elems t) xs), t') \<and> ok t'
     \<and> elems t' = snd (HashSet_puts (elems t) xs)"
proof (induction xs arbitrary: t)
  case (Cons x xs)
  then obtain rv t1 where p: "put_name t x = Some (rv, t1)" "ok t1" "rv \<noteq> 0 \<longleftrightarrow> fst (HashSet_put x (elems t)) \<noteq> 0"
    "elems t1 = snd (HashSet_put x (elems t))"
    using put_spec [of t x] by auto
  have "card (elems t1) \<le> Suc (card (elems t))"
    using card_insert_le_m1 p(4) by (auto simp: HashSet_put_def Let_def card_insert_if le_SucI intro: card_ge_0_finite)
  then have "card (elems t1) + length xs \<le> cap" using Cons.prems(2) by simp
  with Cons.IH [OF p(2) this] p show ?case by (cases "HashSet_put x (elems t)") (auto simp: case_prod_beta)
qed simp

end

interpretation khs: name_set kh_ok kh_set "khash_put mem" "2 ^ 28"
proof
  fix h x
  assume "kh_ok h" "card (kh_set h) < 2 ^ 28"
  then obtain b rv h' where p: "kh_put mem h (name_hash x) = Some (b, rv, h')" "kh_ok h'"
    "kh_set h' = insert (name_hash x) (kh_set h)" "rv = 0 \<longleftrightarrow> name_hash x \<in> kh_set h"
    "kh_keys h' ! b = name_hash x"
    using kh_put_spec [of h mem "name_hash x"] kh_size_card by auto
  have same: "h'\<lparr>kh_keys := (kh_keys h')[b := name_hash x]\<rparr> = h'" using p(5) by (metis list_update_id khash.surjective khash.update_convs(6))
  have "khash_put mem h x = Some (rv, h')" using p(1,4) same by (simp add: khash_put_def Let_def)
  then show "\<exists>rv t'. khash_put mem h x = Some (rv, t') \<and> kh_ok t' \<and> (rv \<noteq> 0 \<longleftrightarrow> fst (HashSet_put x (kh_set h)) \<noteq> 0)
      \<and> kh_set t' = snd (HashSet_put x (kh_set h))"
    using p by (auto simp: HashSet_put_def name_hash_def [symmetric] Let_def insert_absorb)
qed

text \<open>
  C32: the hash table implements the set of a directory listing. Inserting names one after the other, with the
  table growing and moving its elements on the way, always returns; it answers for every name whether its hash was new
  exactly as a mathematical set would, and the table holds exactly the hashes inserted. This holds up to \<open>2 ^ 28\<close>
  names.
\<close>

theorem hash_table_refines_set:
  assumes "kh_ok h" "card (kh_set h) + length names \<le> 2 ^ 28"
  shows "\<exists>h'. put_all (khash_put mem) h names = Some (fst (HashSet_puts (kh_set h) names), h')
           \<and> kh_ok h' \<and> kh_set h' = snd (HashSet_puts (kh_set h) names)"
  using assms by (rule khs.put_all_refines)

theorem hash_table_refines_set_witness:
  "\<exists>h'. put_all (khash_put (\<lambda>i. 0)) kh_init [''a'', ''b'', ''a'']
          = Some (fst (HashSet_puts {} [''a'', ''b'', ''a'']), h')
      \<and> kh_ok h' \<and> kh_set h' = snd (HashSet_puts {} [''a'', ''b'', ''a''])"
  using hash_table_refines_set [of kh_init "[''a'', ''b'', ''a'']" "\<lambda>i. 0"] by simp

section \<open>Looking up, deleting and clearing\<close>

lemma kh_get_loop_finds:
  assumes n: "n_buckets h = 2 ^ e" and s: "s < n_buckets h"
    and stop: "ac_isempty (kh_flags h) (probe (n_buckets h) key s)
               \<or> live (kh_flags h) (probe (n_buckets h) key s) \<and> kh_keys h ! probe (n_buckets h) key s = key"
    and go: "\<And>t. t < s \<Longrightarrow> \<not> ac_isempty (kh_flags h) (probe (n_buckets h) key t)
               \<and> (ac_isdel (kh_flags h) (probe (n_buckets h) key t) \<or> kh_keys h ! probe (n_buckets h) key t \<noteq> key)"
    and t: "t \<le> s"
  shows "kh_get_loop h key (n_buckets h - 1) (probe (n_buckets h) key 0) (probe (n_buckets h) key t) t
    = Some (if live (kh_flags h) (probe (n_buckets h) key s) then probe (n_buckets h) key s else n_buckets h)"
  using t
proof (induction "s - t" arbitrary: t)
  case 0
  then have "t = s" by simp
  then show ?case using stop by (subst kh_get_loop.simps) (auto simp: live_iff flag_bits(3))
next
  case (Suc d)
  then have lt: "t < s" by simp
  let ?p = "probe (n_buckets h) key"
  have "?p (Suc t) \<noteq> ?p 0" using probe_inj [OF n, of "Suc t" 0 key] lt s by auto
  then have "kh_get_loop h key (n_buckets h - 1) (?p 0) (?p t) t = kh_get_loop h key (n_buckets h - 1) (?p 0) (?p (Suc t)) (Suc t)"
    using go [OF lt] probe_next [OF n, of key t] by (subst kh_get_loop.simps) (simp add: Let_def)
  moreover have "d = s - Suc t" "Suc t \<le> s" using Suc.hyps(2) lt by simp_all
  ultimately show ?case using Suc.hyps(1) [of "Suc t"] by simp
qed

lemma kh_get_finds:
  assumes ok: "kh_ok h"
  shows "\<exists>i. kh_get h key = Some i
           \<and> (if key \<in> kh_set h then i < n_buckets h \<and> live (kh_flags h) i \<and> kh_keys h ! i = key else i = n_buckets h)"
proof (cases "h = kh_init")
  case False
  let ?n = "n_buckets h" and ?f = "kh_flags h" and ?p = "probe (n_buckets h) key"
  obtain e where e: "2 \<le> e" "?n = 2 ^ e" and chain: "\<And>i. i \<in> live_set ?n ?f \<Longrightarrow> chained ?n ?f (kh_keys h ! i) i"
    and cards: "card (used_set ?n ?f) \<le> hash_upper ?n"
    using ok False by (auto simp: kh_ok_def)
  have "(4 :: nat) \<le> ?n" using power_increasing [of 2 e "2 :: nat"] e by simp
  then have "card (used_set ?n ?f) < ?n" using cards hash_upper_lt [of ?n] by simp
  then obtain j where j: "j < ?n" "ac_isempty ?f j" using empty_bucket_exists by blast
  let ?P = "\<lambda>i. ac_isempty ?f i \<or> live ?f i \<and> kh_keys h ! i = key"
  obtain s where s: "s < ?n" "?P (?p s)" "\<And>t. t < s \<Longrightarrow> \<not> ?P (?p t)"
    using first_probe [OF e(2) j(1), of ?P key] j(2) by blast
  then have go: "\<And>t. t < s \<Longrightarrow> \<not> ac_isempty ?f (?p t) \<and> (ac_isdel ?f (?p t) \<or> kh_keys h ! ?p t \<noteq> key)"
    by (auto simp: live_iff)
  have "live ?f (?p s)" if "key \<in> kh_set h"
  proof (rule ccontr)
    assume "\<not> live ?f (?p s)"
    then have emp: "ac_isempty ?f (?p s)" using s(2) by simp
    obtain i where i: "i \<in> live_set ?n ?f" "kh_keys h ! i = key" using \<open>key \<in> kh_set h\<close> by (auto simp: kh_set_def)
    then obtain u where u: "?p u = i" "\<And>t. t < u \<Longrightarrow> \<not> ac_isempty ?f (?p t)" using chain [OF i(1)] by (auto simp: chained_def)
    have "?P (?p u)" using i u(1) by (simp add: live_set_def)
    then have "s \<le> u" using s(3) [of u] by (meson not_less)
    moreover have "u \<noteq> s" using i(1) u(1) emp by (auto simp: live_set_def live_iff)
    ultimately show False using u(2) [of s] emp by simp
  qed
  moreover have "key \<in> kh_set h \<and> kh_keys h ! ?p s = key" if "live ?f (?p s)"
  proof -
    have "?p s \<in> live_set ?n ?f" "kh_keys h ! ?p s = key" using that s(2) probe_lt [OF e(2)] by (auto simp: live_set_def live_iff)
    then show ?thesis unfolding kh_set_def using image_eqI [of key "(!) (kh_keys h)" "?p s"] by simp
  qed
  moreover have "kh_get h key = Some (if live ?f (?p s) then ?p s else ?n)"
    using kh_get_loop_finds [OF e(2) s(1,2) go, of 0] probe_start [OF e(2), of key] e(2) by (simp add: kh_get_def Let_def)
  ultimately show ?thesis using probe_lt [OF e(2)] by auto
qed (simp add: kh_get_def)

lemma kh_del_removes:
  assumes ok: "kh_ok h" and x: "x < n_buckets h" "live (kh_flags h) x"
  shows "kh_ok (kh_del h x) \<and> kh_set (kh_del h x) = kh_set h - {kh_keys h ! x}"
proof -
  let ?n = "n_buckets h" and ?f = "kh_flags h" and ?f' = "ac_set_isdel_true (kh_flags h) x"
  have "h \<noteq> kh_init" using x(1) by auto
  then obtain e where e: "2 \<le> e" "e \<le> 30" "?n = 2 ^ e" and len: "length ?f = ac_fsize ?n" "length (kh_keys h) = ?n"
    and inj: "inj_on ((!) (kh_keys h)) (live_set ?n ?f)"
    and chain: "\<And>i. i \<in> live_set ?n ?f \<Longrightarrow> chained ?n ?f (kh_keys h ! i) i"
    and size: "kh_size h = card (live_set ?n ?f)" "n_occupied h = card (used_set ?n ?f)" "upper_bound h = hash_upper ?n"
      "n_occupied h \<le> upper_bound h"
    using ok by (auto simp: kh_ok_def)
  have bit: "x div 16 < length ?f" using bucket_in_flags [OF e(3) x(1)] len by simp
  have xl: "x \<in> live_set ?n ?f" using x by (simp add: live_set_def)
  have sets: "live_set ?n ?f' = live_set ?n ?f - {x}" "used_set ?n ?f' = used_set ?n ?f"
    using live_set_delete [OF bit] bit by (auto simp: used_set_def)
  have del: "kh_del h x = h\<lparr>kh_flags := ?f', kh_size := kh_size h - 1\<rparr>" using x by (simp add: kh_del_def live_def)
  have "chained ?n ?f' (kh_keys h ! i) i" if "i \<in> live_set ?n ?f" for i
    using chained_mono [OF chain [OF that] _ e(3), of ?f'] bit by simp
  moreover have "inj_on ((!) (kh_keys h)) (live_set ?n ?f - {x})" using inj by (rule inj_on_diff)
  ultimately have "kh_ok (kh_del h x)"
    using e len size sets xl unfolding kh_ok_def del by (intro disjI2 exI [of _ e]) auto
  moreover have "(!) (kh_keys h) ` (live_set ?n ?f - {x}) = kh_set h - {kh_keys h ! x}"
    unfolding kh_set_def using inj xl by (auto simp: inj_on_def)
  ultimately show ?thesis using sets by (simp add: kh_set_def del)
qed

lemma kh_clear_empties: "kh_ok h \<Longrightarrow> kh_ok (kh_clear h) \<and> kh_set (kh_clear h) = {}"
proof (cases "h = kh_init")
  case False
  assume "kh_ok h"
  then obtain e where e: "2 \<le> e" "e \<le> 30" "n_buckets h = 2 ^ e" and len: "length (kh_flags h) = ac_fsize (n_buckets h)"
    "length (kh_keys h) = n_buckets h" "upper_bound h = hash_upper (n_buckets h)" using False by (auto simp: kh_ok_def)
  have "0 < n_buckets h" using e by simp
  from bucket_in_flags [OF e(3) this] len have ne: "kh_flags h \<noteq> []" by auto
  have "used_set (n_buckets h) (ac_empty_flags (n_buckets h)) = {}" using empty_flags_sets [OF e(3)] by simp
  moreover from this have "live_set (n_buckets h) (ac_empty_flags (n_buckets h)) = {}" using bucket_sets(3) by blast
  ultimately show ?thesis using e len ne by (auto simp: kh_ok_def kh_clear_def kh_set_def)
qed (simp add: kh_clear_def kh_init_def [THEN arg_cong, of kh_flags])

end
