(* ===== verification/Buffer.thy ===== *)
theory Buffer
  imports File_Handles
begin

text \<open>
  \<^verbatim>\<open>lib/buffer.c\<close> of the bundled libfuse: copying between vectors of buffers, each in memory or behind a file descriptor.
  Memory is a function from addresses to bytes. A transfer call returns at most the number of bytes asked for. The
  call \<^verbatim>\<open>splice\<close> is a parameter, \<open>None\<close> where libfuse is built without it. A failed assertion of the code is the result
  \<open>None\<close>.
\<close>

unbundle bit_operations_syntax

section \<open>Buffers\<close>

type_synonym memory = "nat \<Rightarrow> char"

record iobuf = fuse_buf +
  fb_mem :: nat

record fuse_bufvec =
  bv_idx :: nat
  bv_off :: nat
  bv_buf :: "iobuf list"

abbreviation SIZE_MAX :: nat where "SIZE_MAX \<equiv> 2 ^ 64 - 1"

abbreviation FUSE_BUF_NO_SPLICE :: u32 where "FUSE_BUF_NO_SPLICE \<equiv> 2"
abbreviation FUSE_BUF_FORCE_SPLICE :: u32 where "FUSE_BUF_FORCE_SPLICE \<equiv> 4"
abbreviation FUSE_BUF_SPLICE_MOVE :: u32 where "FUSE_BUF_SPLICE_MOVE \<equiv> 8"
abbreviation FUSE_BUF_SPLICE_NONBLOCK :: u32 where "FUSE_BUF_SPLICE_NONBLOCK \<equiv> 16"
abbreviation SPLICE_F_MOVE :: u32 where "SPLICE_F_MOVE \<equiv> 1"
abbreviation SPLICE_F_NONBLOCK :: u32 where "SPLICE_F_NONBLOCK \<equiv> 2"

definition buf_has :: "('a fuse_buf_scheme) \<Rightarrow> u32 \<Rightarrow> bool" where
  "buf_has b flag \<longleftrightarrow> fb_flags b AND flag \<noteq> 0"

definition mem_read :: "memory \<Rightarrow> nat \<Rightarrow> nat \<Rightarrow> string" where
  "mem_read mem addr len = map mem [addr ..< addr + len]"

definition mem_write :: "memory \<Rightarrow> nat \<Rightarrow> string \<Rightarrow> memory" where
  "mem_write mem addr bs = (\<lambda>a. if addr \<le> a \<and> a < addr + length bs then bs ! (a - addr) else mem a)"

definition fuse_buf_size :: "fuse_bufvec \<Rightarrow> nat" where
  "fuse_buf_size bufv =
     foldl (\<lambda>size b. if fb_size b = SIZE_MAX then SIZE_MAX else (size + fb_size b) mod 2 ^ 64) 0 (bv_buf bufv)"

section \<open>One buffer\<close>

definition buf_out :: "'w os \<Rightarrow> iobuf \<Rightarrow> nat \<Rightarrow> string \<Rightarrow> 'w sys \<Rightarrow> nat option \<times> 'w sys" where
  "buf_out os dst dst_off bs s =
     (if buf_has dst FUSE_BUF_FD_SEEK then fs_pwrite os (fb_fd dst) bs (fb_pos dst + of_nat dst_off) s
      else fs_write os (fb_fd dst) bs s)"

function fuse_buf_write ::
  "'w os \<Rightarrow> iobuf \<Rightarrow> nat \<Rightarrow> iobuf \<Rightarrow> nat \<Rightarrow> nat \<Rightarrow> nat \<Rightarrow> memory \<Rightarrow> 'w sys \<Rightarrow> int \<times> 'w sys" where
  "fuse_buf_write os dst dst_off src src_off len copied mem s =
     (if len = 0 then (int copied, s)
      else case buf_out os dst dst_off (mem_read mem (fb_mem src + src_off) len) s of
        (None, s) \<Rightarrow> (if copied = 0 then - errno s else int copied, s)
      | (Some res, s) \<Rightarrow>
          if res = 0 then (int copied, s)
          else if \<not> buf_has dst FUSE_BUF_FD_RETRY then (int (copied + res), s)
          else fuse_buf_write os dst (dst_off + res) src (src_off + res) (len - res) (copied + res) mem s)"
  by pat_completeness auto
termination by (relation "measure (\<lambda>(os, dst, dst_off, src, src_off, len, copied, mem, s). len)") auto

definition buf_in :: "'w os \<Rightarrow> iobuf \<Rightarrow> nat \<Rightarrow> nat \<Rightarrow> 'w sys \<Rightarrow> string option \<times> 'w sys" where
  "buf_in os src src_off len s =
     (if buf_has src FUSE_BUF_FD_SEEK then fs_pread os (fb_fd src) len (fb_pos src + of_nat src_off) s
      else fs_read os (fb_fd src) len s)"

function fuse_buf_read ::
  "'w os \<Rightarrow> iobuf \<Rightarrow> nat \<Rightarrow> iobuf \<Rightarrow> nat \<Rightarrow> nat \<Rightarrow> nat \<Rightarrow> memory \<Rightarrow> 'w sys \<Rightarrow> int \<times> memory \<times> 'w sys" where
  "fuse_buf_read os dst dst_off src src_off len copied mem s =
     (if len = 0 then (int copied, mem, s)
      else case buf_in os src src_off len s of
        (None, s) \<Rightarrow> (if copied = 0 then - errno s else int copied, mem, s)
      | (Some bs, s) \<Rightarrow>
          let res = length bs; mem = mem_write mem (fb_mem dst + dst_off) bs
          in if res = 0 then (int copied, mem, s)
             else if \<not> buf_has src FUSE_BUF_FD_RETRY then (int (copied + res), mem, s)
             else fuse_buf_read os dst (dst_off + res) src (src_off + res) (len - res) (copied + res) mem s)"
  by pat_completeness auto
termination by (relation "measure (\<lambda>(os, dst, dst_off, src, src_off, len, copied, mem, s). len)") auto

text \<open>The bounce buffer of 4096 bytes is memory of its own.\<close>

definition bounce_buf :: iobuf where
  "bounce_buf = \<lparr>fb_size = 4096, fb_flags = 0, fb_fd = 0, fb_pos = 0, fb_mem = 0\<rparr>"

function fuse_buf_fd_to_fd ::
  "'w os \<Rightarrow> iobuf \<Rightarrow> nat \<Rightarrow> iobuf \<Rightarrow> nat \<Rightarrow> nat \<Rightarrow> nat \<Rightarrow> memory \<Rightarrow> 'w sys \<Rightarrow> int \<times> 'w sys" where
  "fuse_buf_fd_to_fd os dst dst_off src src_off len copied tmp s =
     (if len = 0 then (int copied, s)
      else
        let this_len = min (fb_size bounce_buf) len
        in case fuse_buf_read os bounce_buf 0 src src_off this_len 0 tmp s of (res, tmp, s) \<Rightarrow>
           if res < 0 then (if copied = 0 then res else int copied, s)
           else if res = 0 then (int copied, s)
           else case fuse_buf_write os dst dst_off bounce_buf 0 (nat res) 0 tmp s of (res, s) \<Rightarrow>
             if res < 0 then (if copied = 0 then res else int copied, s)
             else if res = 0 then (int copied, s)
             else if res < int this_len then (int (copied + nat res), s)
             else fuse_buf_fd_to_fd os dst (dst_off + nat res) src (src_off + nat res) (len - nat res) (copied + nat res) tmp s)"
  by pat_completeness auto
termination
  by (relation "measure (\<lambda>(os, dst, dst_off, src, src_off, len, copied, tmp, s). len)") auto

text \<open>\<^verbatim>\<open>splice\<close> with the positions it is given, which the kernel advances by the number of bytes moved.\<close>

type_synonym 'w splice_call =
  "int \<Rightarrow> 64 word option \<Rightarrow> int \<Rightarrow> 64 word option \<Rightarrow> nat \<Rightarrow> u32 \<Rightarrow> 'w \<Rightarrow> nat ret \<times> 'w"

function splice_loop ::
  "'w os \<Rightarrow> 'w splice_call \<Rightarrow> u32 \<Rightarrow> iobuf \<Rightarrow> nat \<Rightarrow> iobuf \<Rightarrow> nat \<Rightarrow> 64 word option \<Rightarrow> 64 word option \<Rightarrow> u32 \<Rightarrow> nat \<Rightarrow> nat \<Rightarrow>
   memory \<Rightarrow> 'w sys \<Rightarrow> int \<times> 'w sys" where
  "splice_loop os spl flags dst dst_off src src_off srcpos dstpos splice_flags len copied tmp s =
     (if len = 0 then (int copied, s)
      else case sys_ret (spl (fb_fd src) srcpos (fb_fd dst) dstpos len splice_flags (world s)) s of
        (None, s) \<Rightarrow>
          if copied \<noteq> 0 then (int copied, s)
          else if errno s \<noteq> EINVAL \<or> flags AND FUSE_BUF_FORCE_SPLICE \<noteq> 0 then (- errno s, s)
          else fuse_buf_fd_to_fd os dst dst_off src src_off len 0 tmp s
      | (Some res, s) \<Rightarrow>
          if res = 0 then (int copied, s)
          else if \<not> buf_has src FUSE_BUF_FD_RETRY \<and> \<not> buf_has dst FUSE_BUF_FD_RETRY then (int (copied + res), s)
          else splice_loop os spl flags dst dst_off src src_off (map_option (\<lambda>p. p + of_nat res) srcpos)
                 (map_option (\<lambda>p. p + of_nat res) dstpos) splice_flags (len - res) (copied + res) tmp s)"
  by pat_completeness auto
termination
  by (relation "measure (\<lambda>(os, spl, flags, dst, dst_off, src, src_off, srcpos, dstpos, splice_flags, len, copied, tmp, s). len)") auto

definition fuse_buf_splice ::
  "'w os \<Rightarrow> 'w splice_call option \<Rightarrow> u32 \<Rightarrow> iobuf \<Rightarrow> nat \<Rightarrow> iobuf \<Rightarrow> nat \<Rightarrow> nat \<Rightarrow> memory \<Rightarrow> 'w sys \<Rightarrow> int \<times> 'w sys" where
  "fuse_buf_splice os sp flags dst dst_off src src_off len tmp s =
     (case sp of
        None \<Rightarrow> fuse_buf_fd_to_fd os dst dst_off src src_off len 0 tmp s
      | Some spl \<Rightarrow>
          let splice_flags = (if flags AND FUSE_BUF_SPLICE_MOVE \<noteq> 0 then SPLICE_F_MOVE else 0)
                OR (if flags AND FUSE_BUF_SPLICE_NONBLOCK \<noteq> 0 then SPLICE_F_NONBLOCK else 0);
              srcpos = (if buf_has src FUSE_BUF_FD_SEEK then Some (fb_pos src + of_nat src_off) else None);
              dstpos = (if buf_has dst FUSE_BUF_FD_SEEK then Some (fb_pos dst + of_nat dst_off) else None)
          in splice_loop os spl flags dst dst_off src src_off srcpos dstpos splice_flags len 0 tmp s)"

definition fuse_buf_copy_one ::
  "'w os \<Rightarrow> 'w splice_call option \<Rightarrow> u32 \<Rightarrow> iobuf \<Rightarrow> nat \<Rightarrow> iobuf \<Rightarrow> nat \<Rightarrow> nat \<Rightarrow> memory \<Rightarrow> 'w sys \<Rightarrow> int \<times> memory \<times> 'w sys" where
  "fuse_buf_copy_one os sp flags dst dst_off src src_off len mem s =
     (let src_is_fd = buf_has src FUSE_BUF_IS_FD; dst_is_fd = buf_has dst FUSE_BUF_IS_FD
      in if \<not> src_is_fd \<and> \<not> dst_is_fd
         then (let dstmem = fb_mem dst + dst_off; srcmem = fb_mem src + src_off
               in (int len, if dstmem \<noteq> srcmem then mem_write mem dstmem (mem_read mem srcmem len) else mem, s))
         else if \<not> src_is_fd
         then (case fuse_buf_write os dst dst_off src src_off len 0 mem s of (res, s) \<Rightarrow> (res, mem, s))
         else if \<not> dst_is_fd then fuse_buf_read os dst dst_off src src_off len 0 mem s
         else if flags AND FUSE_BUF_NO_SPLICE \<noteq> 0
         then (case fuse_buf_fd_to_fd os dst dst_off src src_off len 0 (\<lambda>a. NUL) s of (res, s) \<Rightarrow> (res, mem, s))
         else (case fuse_buf_splice os sp flags dst dst_off src src_off len (\<lambda>a. NUL) s of (res, s) \<Rightarrow> (res, mem, s)))"

section \<open>Vectors of buffers\<close>

definition fuse_bufvec_current :: "fuse_bufvec \<Rightarrow> iobuf option" where
  "fuse_bufvec_current bufv = (if bv_idx bufv < length (bv_buf bufv) then Some (bv_buf bufv ! bv_idx bufv) else None)"

definition fuse_bufvec_advance :: "fuse_bufvec \<Rightarrow> nat \<Rightarrow> (bool \<times> fuse_bufvec) option" where
  "fuse_bufvec_advance bufv len =
     (case fuse_bufvec_current bufv of
        None \<Rightarrow> None
      | Some buf \<Rightarrow>
          let bufv = bufv\<lparr>bv_off := bv_off bufv + len\<rparr>
          in if bv_off bufv > fb_size buf then None
             else if bv_off bufv = fb_size buf
             then (let bufv = bufv\<lparr>bv_idx := bv_idx bufv + 1\<rparr>
                   in Some (if bv_idx bufv = length (bv_buf bufv) then (False, bufv) else (True, bufv\<lparr>bv_off := 0\<rparr>)))
             else Some (True, bufv))"

lemma advance_facts:
  assumes "fuse_bufvec_advance bufv n = Some (go, bufv')" "fuse_bufvec_current bufv = Some buf"
  shows "bv_buf bufv' = bv_buf bufv" "bv_off bufv + n \<le> fb_size buf" "bv_idx bufv < length (bv_buf bufv)"
    "bv_off bufv + n = fb_size buf \<Longrightarrow> bv_idx bufv' = bv_idx bufv + 1 \<and> (go \<longleftrightarrow> bv_idx bufv' < length (bv_buf bufv))
       \<and> (go \<longrightarrow> bv_off bufv' = 0)"
    "bv_off bufv + n < fb_size buf \<Longrightarrow> go \<and> bufv' = bufv\<lparr>bv_off := bv_off bufv + n\<rparr>"
  using assms
  by (auto simp: fuse_bufvec_advance_def fuse_bufvec_current_def Let_def split: if_splits)

abbreviation buffers_left :: "fuse_bufvec \<Rightarrow> nat" where
  "buffers_left bufv \<equiv> length (bv_buf bufv) - bv_idx bufv"

lemma advance_left:
  assumes "fuse_bufvec_advance bufv n = Some (go, bufv')" "fuse_bufvec_current bufv = Some buf"
  shows "buffers_left bufv' \<le> buffers_left bufv" "bv_off bufv + n = fb_size buf \<Longrightarrow> buffers_left bufv' < buffers_left bufv"
  using advance_facts [OF assms] by (cases "bv_off bufv + n = fb_size buf"; auto)+

lemma copy_progress:
  assumes "fuse_bufvec_advance srcv n = Some (a, srcv')" "fuse_bufvec_current srcv = Some src"
    and "fuse_bufvec_advance dstv n = Some (b, dstv')" "fuse_bufvec_current dstv = Some dst"
    and "\<not> n < min (fb_size src - bv_off srcv) (fb_size dst - bv_off dstv)"
  shows "buffers_left srcv' + buffers_left dstv' < buffers_left srcv + buffers_left dstv"
proof -
  note s = advance_left [OF assms(1,2)] advance_facts(2) [OF assms(1,2)]
  note d = advance_left [OF assms(3,4)] advance_facts(2) [OF assms(3,4)]
  consider "bv_off srcv + n = fb_size src" | "bv_off dstv + n = fb_size dst" using assms(5) s(3) d(3) by linarith
  then show ?thesis using s d by cases linarith+
qed

text \<open>The result is the value returned with both vectors, which the copy moves on.\<close>

type_synonym 'w copy_result = "(int \<times> fuse_bufvec \<times> fuse_bufvec \<times> memory \<times> 'w sys) option"

function fuse_buf_copy_loop ::
  "'w os \<Rightarrow> 'w splice_call option \<Rightarrow> u32 \<Rightarrow> fuse_bufvec \<Rightarrow> fuse_bufvec \<Rightarrow> nat \<Rightarrow> memory \<Rightarrow> 'w sys \<Rightarrow> 'w copy_result" where
  "fuse_buf_copy_loop os sp flags dstv srcv copied mem s =
     (case (fuse_bufvec_current srcv, fuse_bufvec_current dstv) of
        (Some src, Some dst) \<Rightarrow>
          let len = min (fb_size src - bv_off srcv) (fb_size dst - bv_off dstv)
          in case fuse_buf_copy_one os sp flags dst (bv_off dstv) src (bv_off srcv) len mem s of (res, mem, s) \<Rightarrow>
             if res < 0 then Some (if copied = 0 then res else int copied, dstv, srcv, mem, s)
             else
               let copied = copied + nat res
               in (case fuse_bufvec_advance srcv (nat res) of
                     None \<Rightarrow> None
                   | Some (False, srcv) \<Rightarrow> Some (int copied, dstv, srcv, mem, s)
                   | Some (True, srcv) \<Rightarrow>
                       (case fuse_bufvec_advance dstv (nat res) of
                          None \<Rightarrow> None
                        | Some (False, dstv) \<Rightarrow> Some (int copied, dstv, srcv, mem, s)
                        | Some (True, dstv) \<Rightarrow>
                            if nat res < len then Some (int copied, dstv, srcv, mem, s)
                            else fuse_buf_copy_loop os sp flags dstv srcv copied mem s))
      | _ \<Rightarrow> Some (int copied, dstv, srcv, mem, s))"
  by pat_completeness auto
termination
  by (relation "measure (\<lambda>(os, sp, flags, dstv, srcv, copied, mem, s). buffers_left srcv + buffers_left dstv)")
    (simp, auto intro: copy_progress [OF _ sym _ sym])

text \<open>\<open>same\<close> says whether both arguments are the same vector.\<close>

definition fuse_buf_copy ::
  "'w os \<Rightarrow> 'w splice_call option \<Rightarrow> bool \<Rightarrow> u32 \<Rightarrow> fuse_bufvec \<Rightarrow> fuse_bufvec \<Rightarrow> memory \<Rightarrow> 'w sys \<Rightarrow> 'w copy_result" where
  "fuse_buf_copy os sp same flags dstv srcv mem s =
     (if same then Some (int (fuse_buf_size dstv), dstv, srcv, mem, s)
      else fuse_buf_copy_loop os sp flags dstv srcv 0 mem s)"

section \<open>write\_buf\<close>

definition bufvec_init :: "nat \<Rightarrow> fuse_bufvec" where
  "bufvec_init sz =
     \<lparr>bv_idx = 0, bv_off = 0, bv_buf = [\<lparr>fb_size = sz, fb_flags = 0, fb_fd = - 1, fb_pos = 0, fb_mem = 0\<rparr>]\<rparr>"

definition l_write_buf ::
  "'w os \<Rightarrow> 'w splice_call option \<Rightarrow> int \<Rightarrow> fuse_bufvec \<Rightarrow> 64 word \<Rightarrow> memory \<Rightarrow> 'w sys \<Rightarrow> (int \<times> fuse_bufvec \<times> memory \<times> 'w sys) option" where
  "l_write_buf os sp fd src offset mem s =
     (let size = fuse_buf_size src;
          dst = (bufvec_init size)\<lparr>bv_buf := [\<lparr>fb_size = size, fb_flags = FUSE_BUF_IS_FD OR FUSE_BUF_FD_SEEK, fb_fd = fd,
                                                fb_pos = offset, fb_mem = 0\<rparr>]\<rparr>;
          cpflags = FUSE_BUF_SPLICE_MOVE OR FUSE_BUF_SPLICE_NONBLOCK
      in map_option (\<lambda>(rv, dst, src, mem, s). (to_int rv, src, mem, s)) (fuse_buf_copy os sp False cpflags dst src mem s))"

section \<open>A copy writes a prefix of the data\<close>

definition buf_bytes :: "memory \<Rightarrow> iobuf \<Rightarrow> string" where
  "buf_bytes mem b = mem_read mem (fb_mem b) (fb_size b)"

text \<open>The bytes a vector has left from its position on.\<close>

definition rest_bytes :: "memory \<Rightarrow> fuse_bufvec \<Rightarrow> string" where
  "rest_bytes mem bufv = drop (bv_off bufv) (concat (map (buf_bytes mem) (drop (bv_idx bufv) (bv_buf bufv))))"

definition in_memory :: "fuse_bufvec \<Rightarrow> bool" where
  "in_memory bufv \<longleftrightarrow> (\<forall>b \<in> set (bv_buf bufv). \<not> buf_has b FUSE_BUF_IS_FD)
     \<and> (\<forall>b. fuse_bufvec_current bufv = Some b \<longrightarrow> bv_off bufv \<le> fb_size b)"

text \<open>What \<^verbatim>\<open>pwrite\<close> does to the contents of a file: some of the bytes are written at the position, or none and an error.\<close>

definition pwrite_laws :: "'w os \<Rightarrow> int \<Rightarrow> ('w \<Rightarrow> memory) \<Rightarrow> bool" where
  "pwrite_laws os fd content \<longleftrightarrow>
     (\<forall>bs pos w. case k_pwrite os fd bs pos w of
        (Inl e, w') \<Rightarrow> 0 < e \<and> e < 4096 \<and> content w' = content w
      | (Inr n, w') \<Rightarrow> n \<le> length bs \<and> content w' = mem_write (content w) (unat pos) (take n bs))"

lemma pwrite_lawsD:
  assumes "pwrite_laws os fd content" "k_pwrite os fd bs pos w = (x, w')"
  shows "case x of Inl e \<Rightarrow> 0 < e \<and> e < 4096 \<and> content w' = content w
           | Inr n \<Rightarrow> n \<le> length bs \<and> content w' = mem_write (content w) (unat pos) (take n bs)"
proof -
  have "case k_pwrite os fd bs pos w of
        (Inl e, w') \<Rightarrow> 0 < e \<and> e < 4096 \<and> content w' = content w
      | (Inr n, w') \<Rightarrow> n \<le> length bs \<and> content w' = mem_write (content w) (unat pos) (take n bs)"
    by (rule assms(1) [unfolded pwrite_laws_def, THEN spec, THEN spec, THEN spec])
  then show ?thesis using assms(2) by (cases x) auto
qed

lemma length_mem_read [simp]: "length (mem_read mem a n) = n"
  by (simp add: mem_read_def)

lemma mem_read_0 [simp]: "mem_read mem a 0 = []"
  by (simp add: mem_read_def)

lemma mem_write_Nil [simp]: "mem_write mem a [] = mem"
  by (rule ext) (auto simp: mem_write_def)

lemma mem_write_append: "mem_write (mem_write mem a xs) (a + length xs) ys = mem_write mem a (xs @ ys)"
  by (rule ext) (auto simp: mem_write_def nth_append)

lemma mem_read_drop: "n \<le> sz \<Longrightarrow> drop n (mem_read mem a sz) = mem_read mem (a + n) (sz - n)"
  by (simp add: mem_read_def drop_map)

lemma write_once:
  assumes laws: "pwrite_laws os (fb_fd dst) content"
    and dst: "buf_has dst FUSE_BUF_FD_SEEK" "\<not> buf_has dst FUSE_BUF_FD_RETRY"
    and w: "fuse_buf_write os dst off src soff len 0 mem s = (r, s')"
  shows "- 4096 < r \<and> r < 0 \<and> content (world s') = content (world s) \<or>
         (\<exists>n \<le> len. r = int n \<and>
            content (world s') = mem_write (content (world s)) (unat (fb_pos dst + of_nat off)) (take n (mem_read mem (fb_mem src + soff) len)))"
proof (cases "len = 0")
  case False
  let ?bs = "mem_read mem (fb_mem src + soff) len"
  obtain x w' where k: "k_pwrite os (fb_fd dst) ?bs (fb_pos dst + of_nat off) (world s) = (x, w')" by fastforce
  show ?thesis
  proof (cases x)
    case (Inl e)
    then have "0 < e \<and> e < 4096 \<and> content w' = content (world s)"
      using pwrite_lawsD [OF laws k] by simp
    then show ?thesis using w False dst k Inl by (auto simp: buf_out_def fs_pwrite_def sys_ret_def)
  next
    case (Inr n)
    then have n: "n \<le> len \<and> content w' = mem_write (content (world s)) (unat (fb_pos dst + of_nat off)) (take n ?bs)"
      using pwrite_lawsD [OF laws k] by simp
    then show ?thesis using w False dst k Inr
      by (intro disjI2 exI [of _ n]) (auto simp: buf_out_def fs_pwrite_def sys_ret_def split: if_splits)
  qed
qed (use w in auto)

lemma rest_bytes_current:
  assumes "fuse_bufvec_current bufv = Some b" "bv_off bufv \<le> fb_size b"
  shows "rest_bytes mem bufv = mem_read mem (fb_mem b + bv_off bufv) (fb_size b - bv_off bufv)
           @ concat (map (buf_bytes mem) (drop (bv_idx bufv + 1) (bv_buf bufv)))"
proof -
  have "drop (bv_idx bufv) (bv_buf bufv) = b # drop (bv_idx bufv + 1) (bv_buf bufv)"
    using assms(1) by (auto simp: fuse_bufvec_current_def Cons_nth_drop_Suc split: if_splits)
  then show ?thesis using assms(2) by (simp add: rest_bytes_def buf_bytes_def mem_read_drop)
qed

lemma advance_defined:
  "fuse_bufvec_current bufv = Some b \<Longrightarrow> bv_off bufv + n \<le> fb_size b \<Longrightarrow> \<exists>go bufv'. fuse_bufvec_advance bufv n = Some (go, bufv')"
  by (auto simp: fuse_bufvec_advance_def Let_def)

text \<open>Moving a vector on by \<open>n\<close> bytes of its current buffer drops them.\<close>

lemma advance_rest:
  assumes adv: "fuse_bufvec_advance bufv n = Some (go, bufv')" and cur: "fuse_bufvec_current bufv = Some b"
    and mem: "in_memory bufv"
  shows "rest_bytes mem bufv' = drop n (rest_bytes mem bufv) \<and> in_memory bufv'"
proof -
  note f = advance_facts [OF adv cur]
  have off: "bv_off bufv \<le> fb_size b" using mem cur by (simp add: in_memory_def)
  note rest = rest_bytes_current [OF cur off, of mem]
  show ?thesis
  proof (cases "bv_off bufv + n = fb_size b")
    case True
    then have n: "n = fb_size b - bv_off bufv" by simp
    have idx: "bv_idx bufv' = bv_idx bufv + 1" using f(4) [OF True] by simp
    have "rest_bytes mem bufv' = concat (map (buf_bytes mem) (drop (bv_idx bufv + 1) (bv_buf bufv)))"
    proof (cases go)
      case True
      then show ?thesis using f(1) f(4) [OF \<open>bv_off bufv + n = fb_size b\<close>] by (simp add: rest_bytes_def)
    next
      case False
      then have "\<not> bv_idx bufv + 1 < length (bv_buf bufv)" using f(4) [OF True] by simp
      then show ?thesis using f(1) idx by (simp add: rest_bytes_def)
    qed
    moreover have "in_memory bufv'"
      using mem f(1) f(4) [OF True] by (auto simp: in_memory_def fuse_bufvec_current_def split: if_splits)
    ultimately show ?thesis unfolding rest n by simp
  next
    case False
    then have lt: "bv_off bufv + n < fb_size b" using f(2) by simp
    have b': "bufv' = bufv\<lparr>bv_off := bv_off bufv + n\<rparr>" using f(5) [OF lt] by simp
    have "rest_bytes mem bufv' = drop n (rest_bytes mem bufv)"
      unfolding b' rest_bytes_def by (simp add: add.commute)
    moreover have "in_memory bufv'"
      using mem lt cur unfolding b' by (auto simp: in_memory_def fuse_bufvec_current_def split: if_splits)
    ultimately show ?thesis by simp
  qed
qed

definition file_buf :: "int \<Rightarrow> 64 word \<Rightarrow> nat \<Rightarrow> iobuf" where
  "file_buf fd offset N = \<lparr>fb_size = N, fb_flags = FUSE_BUF_IS_FD OR FUSE_BUF_FD_SEEK, fb_fd = fd, fb_pos = offset, fb_mem = 0\<rparr>"

definition file_dst :: "int \<Rightarrow> 64 word \<Rightarrow> nat \<Rightarrow> nat \<Rightarrow> fuse_bufvec" where
  "file_dst fd offset N c = \<lparr>bv_idx = 0, bv_off = c, bv_buf = [file_buf fd offset N]\<rparr>"

lemma file_dst_facts [simp]:
  "fuse_bufvec_current (file_dst fd offset N c) = Some (file_buf fd offset N)" "bv_off (file_dst fd offset N c) = c"
  "buf_has (file_buf fd offset N) FUSE_BUF_IS_FD" "buf_has (file_buf fd offset N) FUSE_BUF_FD_SEEK"
  "\<not> buf_has (file_buf fd offset N) FUSE_BUF_FD_RETRY" "fb_size (file_buf fd offset N) = N"
  "fb_fd (file_buf fd offset N) = fd" "fb_pos (file_buf fd offset N) = offset"
  by (simp_all add: file_buf_def file_dst_def fuse_bufvec_current_def buf_has_def)

lemma file_dst_advance:
  "c + n < N \<Longrightarrow> fuse_bufvec_advance (file_dst fd offset N c) n = Some (True, file_dst fd offset N (c + n))"
  "c + n = N \<Longrightarrow> \<exists>v. fuse_bufvec_advance (file_dst fd offset N c) n = Some (False, v)"
  by (auto simp: fuse_bufvec_advance_def Let_def) (auto simp: file_dst_def)

text \<open>One round of the copy: a prefix of the rest of the current source buffer is written.\<close>

lemma copy_round:
  fixes srcv :: fuse_bufvec
  assumes laws: "pwrite_laws os fd content" and cur: "fuse_bufvec_current srcv = Some src" and mem: "in_memory srcv"
    and tot: "N = c + length (rest_bytes mem srcv)" and fits: "unat offset + N < 2 ^ 64"
    and len: "len = min (fb_size src - bv_off srcv) (N - c)"
    and one: "fuse_buf_copy_one os sp flags (file_buf fd offset N) c src (bv_off srcv) len mem s = (res, mem', s')"
  shows "mem' = mem" "len = fb_size src - bv_off srcv"
    "- 4096 < res \<and> res < 0 \<and> content (world s') = content (world s) \<or>
     (\<exists>n \<le> len. res = int n \<and> n \<le> length (rest_bytes mem srcv)
        \<and> content (world s') = mem_write (content (world s)) (unat offset + c) (take n (rest_bytes mem srcv)))"
proof -
  have off: "bv_off srcv \<le> fb_size src" and m: "\<not> buf_has src FUSE_BUF_IS_FD"
    using mem cur by (auto simp: in_memory_def fuse_bufvec_current_def split: if_splits)
  note rest = rest_bytes_current [OF cur off, of mem]
  show len': "len = fb_size src - bv_off srcv" unfolding len tot rest by simp
  obtain r t where w: "fuse_buf_write os (file_buf fd offset N) c src (bv_off srcv) len 0 mem s = (r, t)" by fastforce
  have eq: "res = r" "mem' = mem" "s' = t" using one w m by (auto simp: fuse_buf_copy_one_def)
  show "mem' = mem" by (rule eq(2))
  have pos: "unat (offset + of_nat c) = unat offset + c"
  proof -
    have "c < 2 ^ 64" using fits tot by simp
    then have "unat (of_nat c :: 64 word) = c" by (simp add: unat_of_nat)
    then show ?thesis using fits tot by (simp add: unat_word_ariths(1))
  qed
  have read: "take n (mem_read mem (fb_mem src + bv_off srcv) len) = take n (rest_bytes mem srcv)" if "n \<le> len" for n
    using that unfolding rest len' by simp
  have "len \<le> length (rest_bytes mem srcv)" unfolding rest len' by simp
  then show "- 4096 < res \<and> res < 0 \<and> content (world s') = content (world s) \<or>
     (\<exists>n \<le> len. res = int n \<and> n \<le> length (rest_bytes mem srcv)
        \<and> content (world s') = mem_write (content (world s)) (unat offset + c) (take n (rest_bytes mem srcv)))"
    using write_once [of os "file_buf fd offset N" content c src "bv_off srcv" len mem s r t] laws w pos read
    unfolding eq by fastforce
qed

text \<open>
  The outcome of a copy to a file, from a state with \<open>c\<close> bytes copied: \<open>k\<close> more bytes are in the file and gone from the
  source, and the result counts all of them, or is the error of a copy that wrote nothing.
\<close>

definition prefix_written ::
  "('w \<Rightarrow> memory) \<Rightarrow> nat \<Rightarrow> memory \<Rightarrow> fuse_bufvec \<Rightarrow> nat \<Rightarrow> 'w sys \<Rightarrow> 'w copy_result \<Rightarrow> bool" where
  "prefix_written content pos mem srcv c s x \<longleftrightarrow>
     (\<exists>r d v s' k. x = Some (r, d, v, mem, s') \<and> k \<le> length (rest_bytes mem srcv)
        \<and> rest_bytes mem v = drop k (rest_bytes mem srcv)
        \<and> content (world s') = mem_write (content (world s)) (pos + c) (take k (rest_bytes mem srcv))
        \<and> (r = int (c + k) \<or> c = 0 \<and> k = 0 \<and> - 4096 < r \<and> r < 0))"

lemma prefix_writtenI:
  assumes "x = Some (r, d, v, mem, s')" "k \<le> length (rest_bytes mem srcv)" "rest_bytes mem v = drop k (rest_bytes mem srcv)"
    "content (world s') = mem_write (content (world s)) (pos + c) (take k (rest_bytes mem srcv))"
    "r = int (c + k) \<or> c = 0 \<and> k = 0 \<and> - 4096 < r \<and> r < 0"
  shows "prefix_written content pos mem srcv c s x"
  unfolding prefix_written_def using assms by blast

lemma copy_loop_writes_prefix:
  assumes laws: "pwrite_laws os fd content"
    and "in_memory srcv" "N = c + length (rest_bytes mem srcv)" and fits: "unat offset + N < 2 ^ 64"
  shows "prefix_written content (unat offset) mem srcv c s (fuse_buf_copy_loop os sp flags (file_dst fd offset N c) srcv c mem s)"
  using assms(2,3)
proof (induction "buffers_left srcv" arbitrary: srcv c s rule: less_induct)
  case less
  let ?R = "rest_bytes mem srcv" and ?dst = "file_dst fd offset N c"
  show ?case
  proof (cases "fuse_bufvec_current srcv")
    case None
    then show ?thesis by (intro prefix_writtenI [where k = 0 and r = "int c" and v = srcv and s' = s and d = ?dst]) (subst fuse_buf_copy_loop.simps, simp_all)
  next
    case (Some src)
    let ?len = "min (fb_size src - bv_off srcv) (N - c)"
    obtain res mem' s1 where one: "fuse_buf_copy_one os sp flags (file_buf fd offset N) c src (bv_off srcv) ?len mem s = (res, mem', s1)"
      using prod_cases3 by blast
    note round = copy_round [OF laws Some less.prems fits refl one]
    show ?thesis
    proof (cases "res < 0")
      case True
      then show ?thesis using round(1,3) Some one
        by (intro prefix_writtenI [where k = 0 and r = "if c = 0 then res else int c" and v = srcv and s' = s1 and d = ?dst])
          (subst fuse_buf_copy_loop.simps, auto)
    next
      case False
      then obtain n where n: "n \<le> ?len" "res = int n" "n \<le> length ?R"
        "content (world s1) = mem_write (content (world s)) (unat offset + c) (take n ?R)" using round(3) by auto
      have "bv_off srcv \<le> fb_size src" using less.prems(1) Some by (simp add: in_memory_def)
      then have le: "bv_off srcv + n \<le> fb_size src" using n(1) unfolding round(2) by linarith
      obtain go srcv1 where adv: "fuse_bufvec_advance srcv n = Some (go, srcv1)"
        using advance_defined [OF Some le] by blast
      have rest: "rest_bytes mem srcv1 = drop n ?R" "in_memory srcv1" using advance_rest [OF adv Some less.prems(1)] by auto
      have step: "fuse_buf_copy_loop os sp flags ?dst srcv c mem s =
          (if \<not> go then Some (int (c + n), ?dst, srcv1, mem, s1)
           else case fuse_bufvec_advance ?dst n of None \<Rightarrow> None
             | Some (False, dstv1) \<Rightarrow> Some (int (c + n), dstv1, srcv1, mem, s1)
             | Some (True, dstv1) \<Rightarrow> if n < ?len then Some (int (c + n), dstv1, srcv1, mem, s1)
                 else fuse_buf_copy_loop os sp flags dstv1 srcv1 (c + n) mem s1)"
        using one round(1) n(2) adv Some by (subst fuse_buf_copy_loop.simps) (auto simp: Let_def split: option.splits bool.splits)
      have done_now: ?thesis if "\<exists>d. fuse_buf_copy_loop os sp flags ?dst srcv c mem s = Some (int (c + n), d, srcv1, mem, s1)"
        using that n(3,4) rest(1) by (auto intro!: prefix_writtenI [where k = n])
      show ?thesis
      proof (cases "go \<and> c + n < N \<and> \<not> n < ?len")
        case False
        then show ?thesis
          using done_now step file_dst_advance [of c n N fd offset] n(3) less.prems(2) by (cases "c + n = N"; cases go) auto
      next
        case True
        have "bv_off srcv + n = fb_size src" using True le unfolding round(2) by linarith
        then have "buffers_left srcv1 < buffers_left srcv" using advance_left(2) [OF adv Some] by simp
        from less.hyps [OF this rest(2), of "c + n" s1, unfolded prefix_written_def] rest(1) n(3) less.prems(2)
        obtain r d v t k where IH: "fuse_buf_copy_loop os sp flags (file_dst fd offset N (c + n)) srcv1 (c + n) mem s1 = Some (r, d, v, mem, t)"
          "k \<le> length ?R - n" "rest_bytes mem v = drop k (drop n ?R)"
          "content (world t) = mem_write (content (world s1)) (unat offset + (c + n)) (take k (drop n ?R))"
          "r = int (c + n + k) \<or> c + n = 0 \<and> k = 0 \<and> - 4096 < r \<and> r < 0" by auto
        have "content (world t) = mem_write (content (world s)) (unat offset + c) (take (n + k) ?R)"
          using IH(4) n(3,4) mem_write_append [of "content (world s)" "unat offset + c" "take n ?R" "take k (drop n ?R)"]
          by (simp add: take_add add.assoc)
        then show ?thesis
          using IH(1,2,3,5) step True file_dst_advance(1) [of c n N fd offset] n(3)
          by (intro prefix_writtenI [where k = "n + k" and r = r and d = d and v = v and s' = t])
            (auto simp: add.commute add.left_commute)
      qed
    qed
  qed
qed

lemma fuse_buf_size_sum:
  assumes "sum_list (map fb_size (bv_buf bufv)) < SIZE_MAX"
  shows "fuse_buf_size bufv = sum_list (map fb_size (bv_buf bufv))"
proof -
  have "foldl (\<lambda>size b. if fb_size b = SIZE_MAX then SIZE_MAX else (size + fb_size b) mod 2 ^ 64) n bs = n + sum_list (map fb_size bs)"
    if "n + sum_list (map fb_size bs) < SIZE_MAX" for n and bs :: "iobuf list"
    using that by (induction bs arbitrary: n) auto
  from this [of 0] assms show ?thesis by (simp add: fuse_buf_size_def)
qed

lemma rest_bytes_start:
  "bv_idx bufv = 0 \<Longrightarrow> bv_off bufv = 0 \<Longrightarrow> length (rest_bytes mem bufv) = sum_list (map fb_size (bv_buf bufv))"
  by (simp add: rest_bytes_def length_concat comp_def buf_bytes_def)

lemma to_int_negative: "- 4096 < r \<Longrightarrow> r < 0 \<Longrightarrow> to_int r = r"
  unfolding to_int_def int_word_sint by (simp add: mod_pos_pos_trivial)

text \<open>
  C40: a buffered write stores a prefix of the data, and says how much. For data in memory, on a kernel whose
  \<^verbatim>\<open>pwrite\<close> may stop short or fail at any call, the handler returns; the file then differs from before only in that the
  first \<open>k\<close> bytes of the data are at the offset. The result is \<open>k\<close>, or negative with \<open>k = 0\<close>, and the buffers have
  exactly the other bytes left, so that a write tried again after moving the file starts with the first byte missing.
\<close>

theorem write_buf_stores_prefix:
  assumes "pwrite_laws os fd content" "in_memory src" "bv_idx src = 0" "bv_off src = 0"
    and small: "sum_list (map fb_size (bv_buf src)) < 2 ^ 31" and fits: "unat offset < 2 ^ 63"
  shows "\<exists>rv src' s' k. l_write_buf os sp fd src offset mem s = Some (rv, src', mem, s') \<and> k \<le> length (rest_bytes mem src)
           \<and> content (world s') = mem_write (content (world s)) (unat offset) (take k (rest_bytes mem src))
           \<and> rest_bytes mem src' = drop k (rest_bytes mem src) \<and> (rv = int k \<or> k = 0 \<and> rv < 0)"
proof -
  let ?N = "sum_list (map fb_size (bv_buf src))" and ?flags = "FUSE_BUF_SPLICE_MOVE OR FUSE_BUF_SPLICE_NONBLOCK"
  have N: "?N = 0 + length (rest_bytes mem src)" using rest_bytes_start [OF assms(3,4)] by simp
  have "prefix_written content (unat offset) mem src 0 s
      (fuse_buf_copy_loop os sp ?flags (file_dst fd offset ?N 0) src 0 mem s)"
    using copy_loop_writes_prefix [OF assms(1,2) N] small fits by simp
  then obtain r d v t k where c: "fuse_buf_copy_loop os sp ?flags (file_dst fd offset ?N 0) src 0 mem s = Some (r, d, v, mem, t)"
    "k \<le> length (rest_bytes mem src)" "rest_bytes mem v = drop k (rest_bytes mem src)"
    "content (world t) = mem_write (content (world s)) (unat offset) (take k (rest_bytes mem src))"
    "r = int k \<or> k = 0 \<and> - 4096 < r \<and> r < 0" by (auto simp: prefix_written_def)
  have "to_int r = r" using c(2,5) N small to_int_small [of k] to_int_negative [of r] by auto
  moreover have "l_write_buf os sp fd src offset mem s = Some (to_int r, v, mem, t)"
    using c(1) small fuse_buf_size_sum [of src]
    by (simp add: l_write_buf_def fuse_buf_copy_def bufvec_init_def file_dst_def file_buf_def)
  ultimately show ?thesis using c by auto
qed

text \<open>A file system of one file, whose \<^verbatim>\<open>pwrite\<close> takes one byte at a time.\<close>

definition file_put :: "string \<Rightarrow> nat \<Rightarrow> string \<Rightarrow> string" where
  "file_put f pos bs =
     (let f = f @ replicate (pos + length bs - length f) NUL in take pos f @ bs @ drop (pos + length bs) f)"

definition file_os :: "(string \<times> string) os" where
  "file_os = pipe_os\<lparr>k_pwrite := (\<lambda>fd bs pos w. (Inr (length (take 1 bs)), (fst w, file_put (snd w) (unat pos) (take 1 bs))))\<rparr>"

definition file_content :: "string \<times> string \<Rightarrow> memory" where
  "file_content w a = (if a < length (snd w) then snd w ! a else NUL)"

lemma file_put_content: "file_content (x, file_put f pos bs) = mem_write (file_content (x, f)) pos bs"
  by (rule ext) (auto simp: file_content_def file_put_def mem_write_def Let_def nth_append min_def)

lemma file_os_laws: "pwrite_laws file_os fd file_content"
proof -
  have "take (min (length bs) (Suc 0)) bs = take (Suc 0) bs" for bs :: string by (cases bs) auto
  then show ?thesis unfolding pwrite_laws_def using file_put_content by (simp add: file_os_def prod.case_eq_if)
qed

definition sample_bufvec :: fuse_bufvec where
  "sample_bufvec = \<lparr>bv_idx = 0, bv_off = 0,
     bv_buf = [\<lparr>fb_size = 2, fb_flags = 0, fb_fd = 0, fb_pos = 0, fb_mem = 100\<rparr>,
               \<lparr>fb_size = 3, fb_flags = 0, fb_fd = 0, fb_pos = 0, fb_mem = 200\<rparr>]\<rparr>"

theorem write_buf_stores_prefix_witness:
  "\<forall>mem. \<exists>rv src' s' k. l_write_buf file_os None 3 sample_bufvec 10 mem (pipe_sys []) = Some (rv, src', mem, s')
     \<and> k \<le> length (rest_bytes mem sample_bufvec)
     \<and> file_content (world s') = mem_write (file_content (world (pipe_sys []))) 10 (take k (rest_bytes mem sample_bufvec))
     \<and> rest_bytes mem src' = drop k (rest_bytes mem sample_bufvec) \<and> (rv = int k \<or> k = 0 \<and> rv < 0)"
proof
  fix mem
  have "in_memory sample_bufvec" by (simp add: in_memory_def sample_bufvec_def buf_has_def fuse_bufvec_current_def)
  then show "\<exists>rv src' s' k. l_write_buf file_os None 3 sample_bufvec 10 mem (pipe_sys []) = Some (rv, src', mem, s')
     \<and> k \<le> length (rest_bytes mem sample_bufvec)
     \<and> file_content (world s') = mem_write (file_content (world (pipe_sys []))) 10 (take k (rest_bytes mem sample_bufvec))
     \<and> rest_bytes mem src' = drop k (rest_bytes mem sample_bufvec) \<and> (rv = int k \<or> k = 0 \<and> rv < 0)"
    using write_buf_stores_prefix [OF file_os_laws, of sample_bufvec 10 None 3 mem "pipe_sys []"] by (simp add: sample_bufvec_def)
qed

end
