(* ===== verification/Posix_Locks.thy ===== *)
theory Posix_Locks
  imports Prelude
begin

text \<open>
  The record locks of \<^verbatim>\<open>lib/fuse.c\<close> in the bundled libfuse: the list of locks held on a node, the test for a conflict and
  the insertion that merges, splits and removes locks of the same owner. Offsets are integers: the code computes no
  offset outside the range of \<^verbatim>\<open>off_t\<close>. Whether memory can be had is an argument.
\<close>

abbreviation ENOLCK :: int where "ENOLCK \<equiv> 37"

datatype lock_type = F_RDLCK | F_WRLCK | F_UNLCK

record lock =
  lk_type :: lock_type
  lk_start :: int
  lk_end :: int
  lk_pid :: int
  lk_owner :: u64

record flock =
  l_type :: lock_type
  l_start :: int
  l_len :: int
  l_pid :: int

definition OFFSET_MAX :: int where "OFFSET_MAX = 2 ^ 63 - 1"

fun locks_conflict :: "lock list \<Rightarrow> lock \<Rightarrow> lock option" where
  "locks_conflict [] lock = None"
| "locks_conflict (l # ls) lock =
     (if lk_owner l \<noteq> lk_owner lock \<and> lk_start lock \<le> lk_end l \<and> lk_start l \<le> lk_end lock
         \<and> (lk_type l = F_WRLCK \<or> lk_type lock = F_WRLCK)
      then Some l else locks_conflict ls lock)"

text \<open>
  The loop of the insertion walks the list from a position; \<open>newl2\<close> says whether the spare lock is still there. Writing
  through a spare lock that is not there is the result \<open>None\<close>.
\<close>

definition insert_lock :: "lock list \<Rightarrow> lock \<Rightarrow> lock list" where
  "insert_lock pos lock = lock # pos"

definition locks_finish :: "bool \<Rightarrow> lock \<Rightarrow> lock list \<Rightarrow> lock list option" where
  "locks_finish newl1 lock pos =
     (if lk_type lock \<noteq> F_UNLCK then if newl1 then Some (insert_lock pos lock) else None else Some pos)"

function locks_loop :: "bool \<Rightarrow> bool \<Rightarrow> lock \<Rightarrow> lock list \<Rightarrow> lock list option" where
  "locks_loop newl1 newl2 lock [] = locks_finish newl1 lock []"
| "locks_loop newl1 newl2 lock (l # next) =
     (if lk_owner l \<noteq> lk_owner lock then map_option (Cons l) (locks_loop newl1 newl2 lock next)
      else if lk_type lock = lk_type l
      then (if lk_end l < lk_start lock - 1 then map_option (Cons l) (locks_loop newl1 newl2 lock next)
            else if lk_end lock < lk_start l - 1 then locks_finish newl1 lock (l # next)
            else if lk_start l \<le> lk_start lock \<and> lk_end lock \<le> lk_end l then Some (l # next)
            else
              let lock = (if lk_start l < lk_start lock then lock\<lparr>lk_start := lk_start l\<rparr> else lock);
                  lock = (if lk_end lock < lk_end l then lock\<lparr>lk_end := lk_end l\<rparr> else lock)
              in locks_loop newl1 newl2 lock next)
      else
        if lk_end l < lk_start lock then map_option (Cons l) (locks_loop newl1 newl2 lock next)
        else if lk_end lock < lk_start l then locks_finish newl1 lock (l # next)
        else if lk_start lock \<le> lk_start l \<and> lk_end l \<le> lk_end lock then locks_loop newl1 newl2 lock next
        else if lk_end l \<le> lk_end lock
        then map_option (Cons (l\<lparr>lk_end := lk_start lock - 1\<rparr>)) (locks_loop newl1 newl2 lock next)
        else if lk_start lock \<le> lk_start l then locks_finish newl1 lock (l\<lparr>lk_start := lk_end lock + 1\<rparr> # next)
        else if newl2
        then map_option (Cons (l\<lparr>lk_end := lk_start lock - 1\<rparr>))
               (locks_loop newl1 False lock (insert_lock next (l\<lparr>lk_start := lk_end lock + 1\<rparr>)))
        else None)"
  by pat_completeness auto
termination
  by (relation "measure (\<lambda>(newl1, newl2, lock, ls). length ls + of_bool newl2)") (auto simp: insert_lock_def)

definition locks_insert :: "bool \<Rightarrow> lock list \<Rightarrow> lock \<Rightarrow> (int \<times> lock list) option" where
  "locks_insert memory locks lock =
     (let need = lk_type lock \<noteq> F_UNLCK \<or> lk_start lock \<noteq> 0 \<or> lk_end lock \<noteq> OFFSET_MAX in
      if need \<and> \<not> memory then Some (- ENOLCK, locks)
      else map_option (Pair 0) (locks_loop need need lock locks))"

definition flock_to_lock :: "flock \<Rightarrow> lock" where
  "flock_to_lock fl =
     \<lparr>lk_type = l_type fl, lk_start = l_start fl, lk_end = (if l_len fl \<noteq> 0 then l_start fl + l_len fl - 1 else OFFSET_MAX),
      lk_pid = l_pid fl, lk_owner = 0\<rparr>"

definition lock_to_flock :: "lock \<Rightarrow> flock" where
  "lock_to_flock lk =
     \<lparr>l_type = lk_type lk, l_start = lk_start lk,
      l_len = (if lk_end lk = OFFSET_MAX then 0 else lk_end lk - lk_start lk + 1), l_pid = lk_pid lk\<rparr>"

section \<open>The locks an owner holds\<close>

text \<open>The owner holds a lock of the type at an offset.\<close>

definition holds_lock :: "lock list \<Rightarrow> u64 \<Rightarrow> lock_type \<Rightarrow> int \<Rightarrow> bool" where
  "holds_lock ls ow ty p \<longleftrightarrow> (\<exists>l \<in> set ls. lk_owner l = ow \<and> lk_type l = ty \<and> lk_start l \<le> p \<and> p \<le> lk_end l)"

text \<open>A lock inside the range of offsets; the locks of one owner are in order and do not overlap.\<close>

definition lock_range :: "lock \<Rightarrow> bool" where
  "lock_range l \<longleftrightarrow> 0 \<le> lk_start l \<and> lk_start l \<le> lk_end l \<and> lk_end l \<le> OFFSET_MAX"

fun locks_ok :: "lock list \<Rightarrow> bool" where
  "locks_ok [] \<longleftrightarrow> True"
| "locks_ok (l # ls) \<longleftrightarrow> lock_range l \<and> lk_type l \<noteq> F_UNLCK \<and> locks_ok ls
     \<and> (\<forall>x \<in> set ls. lk_owner x = lk_owner l \<longrightarrow> lk_end l < lk_start x)"

text \<open>What inserting should do to the locks held.\<close>

definition lock_effect :: "lock \<Rightarrow> lock list \<Rightarrow> u64 \<Rightarrow> lock_type \<Rightarrow> int \<Rightarrow> bool" where
  "lock_effect lock ls ow ty p \<longleftrightarrow>
     (if ow = lk_owner lock \<and> lk_start lock \<le> p \<and> p \<le> lk_end lock then ty = lk_type lock \<and> ty \<noteq> F_UNLCK
      else holds_lock ls ow ty p)"

lemma holds_lock_Cons [simp]:
  "holds_lock (l # ls) ow ty p \<longleftrightarrow> lk_owner l = ow \<and> lk_type l = ty \<and> lk_start l \<le> p \<and> p \<le> lk_end l \<or> holds_lock ls ow ty p"
  by (auto simp: holds_lock_def)

lemma holds_lock_Nil [simp]: "\<not> holds_lock [] ow ty p"
  by (simp add: holds_lock_def)

lemma holds_lock_from:
  assumes "holds_lock ls ow ty p" "\<forall>x \<in> set ls. lk_owner x = ow \<longrightarrow> b < lk_start x"
  shows "b < p"
  using assms by (fastforce simp: holds_lock_def)

text \<open>The list from a position on after the loop ran there.\<close>

definition loop_result :: "lock \<Rightarrow> lock list \<Rightarrow> lock list \<Rightarrow> bool" where
  "loop_result lock ls r \<longleftrightarrow> locks_ok r \<and> (\<forall>ow ty p. holds_lock r ow ty p \<longleftrightarrow> lock_effect lock ls ow ty p)
     \<and> (\<forall>b. b < lk_start lock \<longrightarrow> (\<forall>l \<in> set ls. lk_owner l = lk_owner lock \<longrightarrow> b < lk_start l)
            \<longrightarrow> (\<forall>x \<in> set r. lk_owner x = lk_owner lock \<longrightarrow> b < lk_start x))
     \<and> (\<forall>x \<in> set r. lk_owner x \<noteq> lk_owner lock \<longrightarrow> x \<in> set ls)"

lemma loop_result_keep:
  assumes "locks_ok (l # ls)" "loop_result lock ls r" "lk_owner l \<noteq> lk_owner lock \<or> lk_end l < lk_start lock"
  shows "loop_result lock (l # ls) (l # r)"
proof -
  have "\<forall>x \<in> set r. lk_owner x = lk_owner l \<longrightarrow> lk_end l < lk_start x"
    using assms by (cases "lk_owner l = lk_owner lock") (auto simp: loop_result_def)
  moreover have "\<forall>ow ty p. holds_lock (l # r) ow ty p \<longleftrightarrow> lock_effect lock (l # ls) ow ty p"
    using assms by (auto simp: loop_result_def lock_effect_def)
  ultimately show ?thesis using assms by (auto simp: loop_result_def)
qed

lemma loop_resultI:
  assumes "locks_ok r" "\<And>ow ty p. holds_lock r ow ty p \<longleftrightarrow> lock_effect lock ls ow ty p"
    "\<And>b x. b < lk_start lock \<Longrightarrow> (\<And>l. l \<in> set ls \<Longrightarrow> lk_owner l = lk_owner lock \<Longrightarrow> b < lk_start l)
       \<Longrightarrow> x \<in> set r \<Longrightarrow> lk_owner x = lk_owner lock \<Longrightarrow> b < lk_start x"
    "\<And>x. x \<in> set r \<Longrightarrow> lk_owner x \<noteq> lk_owner lock \<Longrightarrow> x \<in> set ls"
  shows "loop_result lock ls r"
  using assms unfolding loop_result_def by blast

lemma loop_resultD:
  assumes "loop_result lock ls r"
  shows "locks_ok r" "holds_lock r ow ty p \<longleftrightarrow> lock_effect lock ls ow ty p"
    "b < lk_start lock \<Longrightarrow> (\<And>l. l \<in> set ls \<Longrightarrow> lk_owner l = lk_owner lock \<Longrightarrow> b < lk_start l)
       \<Longrightarrow> x \<in> set r \<Longrightarrow> lk_owner x = lk_owner lock \<Longrightarrow> b < lk_start x"
    "x \<in> set r \<Longrightarrow> lk_owner x \<noteq> lk_owner lock \<Longrightarrow> x \<in> set ls"
  using assms unfolding loop_result_def by blast+

lemma loop_result_finish:
  assumes "locks_ok pos" "lock_range lock" "newl1 \<or> lk_type lock = F_UNLCK"
    and later: "\<forall>x \<in> set pos. lk_owner x = lk_owner lock \<longrightarrow> lk_end lock < lk_start x"
  shows "\<exists>r. locks_finish newl1 lock pos = Some r \<and> loop_result lock pos r"
proof -
  have free: "\<not> holds_lock pos (lk_owner lock) ty p" if "p \<le> lk_end lock" for ty p
    using holds_lock_from [OF _ later] that by fastforce
  show ?thesis
    using assms free by (auto simp: locks_finish_def insert_lock_def loop_result_def lock_effect_def)
qed

lemma loop_result_covered:
  assumes ok: "locks_ok (l # ls)" and l: "lk_owner l = lk_owner lock" "lk_type lock = lk_type l"
    "lk_start l \<le> lk_start lock" "lk_end lock \<le> lk_end l"
  shows "loop_result lock (l # ls) (l # ls)"
proof -
  have "\<not> holds_lock ls (lk_owner lock) ty p" if "p \<le> lk_end l" for ty p
    using holds_lock_from [of ls "lk_owner lock" ty p "lk_end l"] ok l that by auto
  then show ?thesis using ok l by (auto simp: loop_result_def lock_effect_def)
qed

lemma loop_result_merge:
  assumes ok: "locks_ok (l # ls)" and l: "lk_owner l = lk_owner lock" "lk_type lock = lk_type l"
    "\<not> lk_end l < lk_start lock - 1" "\<not> lk_end lock < lk_start l - 1"
    and r: "loop_result lock' ls r" and lock': "lk_owner lock' = lk_owner lock" "lk_type lock' = lk_type lock"
    "lk_start lock' = min (lk_start l) (lk_start lock)" "lk_end lock' = max (lk_end l) (lk_end lock)"
  shows "loop_result lock (l # ls) r"
proof -
  have free: "\<not> holds_lock ls (lk_owner lock) ty p" if "p \<le> lk_end l" for ty p
    using holds_lock_from [of ls "lk_owner lock" ty p "lk_end l"] ok l that by auto
  have eff: "lock_effect lock' ls ow ty p \<longleftrightarrow> lock_effect lock (l # ls) ow ty p" for ow ty p
    using ok l lock' free [of p ty] by (auto simp: lock_effect_def min_def max_def)
  have bound: "b < lk_start lock'" if "b < lk_start lock" "\<And>x. x \<in> set (l # ls) \<Longrightarrow> lk_owner x = lk_owner lock \<Longrightarrow> b < lk_start x" for b
    using that(1) that(2) [of l] l(1) unfolding lock'(3) by simp
  show ?thesis
  proof (rule loop_resultI)
    show "b < lk_start x" if b: "b < lk_start lock" "\<And>l'. l' \<in> set (l # ls) \<Longrightarrow> lk_owner l' = lk_owner lock \<Longrightarrow> b < lk_start l'"
      and x: "x \<in> set r" "lk_owner x = lk_owner lock" for b x
      by (rule loop_resultD(3) [OF r bound [OF b] _ x(1)]) (use b(2) x(2) lock'(1) in auto)
    show "x \<in> set (l # ls)" if "x \<in> set r" "lk_owner x \<noteq> lk_owner lock" for x
      using loop_resultD(4) [OF r] that lock'(1) by simp
  qed (simp_all only: loop_resultD(1,2) [OF r] eff)
qed

lemma loop_result_drop:
  assumes r: "loop_result lock ls r" and l: "lk_owner l = lk_owner lock" "lk_start lock \<le> lk_start l" "lk_end l \<le> lk_end lock"
  shows "loop_result lock (l # ls) r"
proof (rule loop_resultI)
  show "holds_lock r ow ty p \<longleftrightarrow> lock_effect lock (l # ls) ow ty p" for ow ty p
    using l by (auto simp: loop_resultD(2) [OF r] lock_effect_def)
qed (use r in \<open>auto dest: loop_resultD\<close>)

lemma loop_result_cut_end:
  assumes ok: "locks_ok (l # ls)" and r: "loop_result lock ls r" and l: "lk_owner l = lk_owner lock" "lock_range lock"
    "lk_start l < lk_start lock" "lk_start lock \<le> lk_end l" "lk_end l \<le> lk_end lock"
  shows "loop_result lock (l # ls) (l\<lparr>lk_end := lk_start lock - 1\<rparr> # r)"
proof (rule loop_resultI)
  have "lk_start lock - 1 < lk_start x" if "x \<in> set r" "lk_owner x = lk_owner lock" for x
    by (rule loop_resultD(3) [OF r _ _ that]) (use ok l in auto)
  then show "locks_ok (l\<lparr>lk_end := lk_start lock - 1\<rparr> # r)"
    using loop_resultD(1) [OF r] ok l by (auto simp: lock_range_def)
  show "holds_lock (l\<lparr>lk_end := lk_start lock - 1\<rparr> # r) ow ty p \<longleftrightarrow> lock_effect lock (l # ls) ow ty p" for ow ty p
    using ok l by (auto simp: loop_resultD(2) [OF r] lock_effect_def)
  show "b < lk_start x" if b: "b < lk_start lock" "\<And>l'. l' \<in> set (l # ls) \<Longrightarrow> lk_owner l' = lk_owner lock \<Longrightarrow> b < lk_start l'"
    and x: "x \<in> set (l\<lparr>lk_end := lk_start lock - 1\<rparr> # r)" "lk_owner x = lk_owner lock" for b x
    using loop_resultD(3) [OF r b(1), of x] b(2) x l(1) by (cases "x \<in> set r") auto
qed (use r l in \<open>auto dest: loop_resultD\<close>)

lemma loop_result_cut_start:
  assumes r: "loop_result lock (l\<lparr>lk_start := lk_end lock + 1\<rparr> # ls) r" and l: "lk_owner l = lk_owner lock"
    "lk_start lock \<le> lk_start l" "lk_start l \<le> lk_end lock"
  shows "loop_result lock (l # ls) r"
proof (rule loop_resultI)
  show "holds_lock r ow ty p \<longleftrightarrow> lock_effect lock (l # ls) ow ty p" for ow ty p
    using l by (auto simp: loop_resultD(2) [OF r] lock_effect_def)
  show "b < lk_start x" if b: "b < lk_start lock" "\<And>l'. l' \<in> set (l # ls) \<Longrightarrow> lk_owner l' = lk_owner lock \<Longrightarrow> b < lk_start l'"
    and x: "x \<in> set r" "lk_owner x = lk_owner lock" for b x
    by (rule loop_resultD(3) [OF r b(1) _ x]) (use b l in auto)
  show "x \<in> set (l # ls)" if "x \<in> set r" "lk_owner x \<noteq> lk_owner lock" for x
    using loop_resultD(4) [OF r that] that l by auto
qed (rule loop_resultD(1) [OF r])

lemma loop_result_split:
  assumes ok: "locks_ok (l # ls)" and r: "loop_result lock (l\<lparr>lk_start := lk_end lock + 1\<rparr> # ls) r"
    and l: "lk_owner l = lk_owner lock" "lock_range lock" "lk_start l < lk_start lock" "lk_end lock < lk_end l"
  shows "loop_result lock (l # ls) (l\<lparr>lk_end := lk_start lock - 1\<rparr> # r)"
proof (rule loop_resultI)
  have "lk_start lock - 1 < lk_start x" if "x \<in> set r" "lk_owner x = lk_owner lock" for x
    by (rule loop_resultD(3) [OF r _ _ that]) (use ok l in \<open>auto simp: lock_range_def\<close>)
  then show "locks_ok (l\<lparr>lk_end := lk_start lock - 1\<rparr> # r)"
    using loop_resultD(1) [OF r] ok l by (auto simp: lock_range_def)
  show "holds_lock (l\<lparr>lk_end := lk_start lock - 1\<rparr> # r) ow ty p \<longleftrightarrow> lock_effect lock (l # ls) ow ty p" for ow ty p
    using ok l by (auto simp: loop_resultD(2) [OF r] lock_effect_def lock_range_def)
  show "b < lk_start x" if b: "b < lk_start lock" "\<And>l'. l' \<in> set (l # ls) \<Longrightarrow> lk_owner l' = lk_owner lock \<Longrightarrow> b < lk_start l'"
    and x: "x \<in> set (l\<lparr>lk_end := lk_start lock - 1\<rparr> # r)" "lk_owner x = lk_owner lock" for b x
  proof (cases "x \<in> set r")
    case True
    show ?thesis by (rule loop_resultD(3) [OF r b(1) _ True x(2)]) (use b l in \<open>auto simp: lock_range_def\<close>)
  next
    case False
    then show ?thesis using b(2) [of l] x l(1) by simp
  qed
  show "x \<in> set (l # ls)" if "x \<in> set (l\<lparr>lk_end := lk_start lock - 1\<rparr> # r)" "lk_owner x \<noteq> lk_owner lock" for x
    using loop_resultD(4) [OF r, of x] that l by auto
qed

text \<open>The loop always finds its spare lock, ends, and gives the list the insertion should give.\<close>

definition loop_pre :: "bool \<Rightarrow> bool \<Rightarrow> lock \<Rightarrow> lock list \<Rightarrow> bool" where
  "loop_pre newl1 newl2 lock ls \<longleftrightarrow> locks_ok ls \<and> lock_range lock \<and> (newl1 \<or> lk_type lock = F_UNLCK)
     \<and> (newl2 \<or> (\<forall>l \<in> set ls. lk_owner l = lk_owner lock \<longrightarrow> \<not> (lk_start l < lk_start lock \<and> lk_end lock < lk_end l)))"

definition loop_good :: "bool \<Rightarrow> bool \<Rightarrow> lock \<Rightarrow> lock list \<Rightarrow> bool" where
  "loop_good newl1 newl2 lock ls \<longleftrightarrow> (\<exists>r. locks_loop newl1 newl2 lock ls = Some r \<and> loop_result lock ls r)"

lemma loop_good_keep:
  assumes "loop_pre newl1 newl2 lock (l # ls)" "loop_good newl1 newl2 lock ls"
    and "lk_owner l \<noteq> lk_owner lock \<or> lk_end l < lk_start lock"
    and "locks_loop newl1 newl2 lock (l # ls) = map_option (Cons l) (locks_loop newl1 newl2 lock ls)"
  shows "loop_good newl1 newl2 lock (l # ls)"
  using assms loop_result_keep [of l ls lock] by (auto simp: loop_good_def loop_pre_def)

lemma loop_good_finish:
  assumes "loop_pre newl1 newl2 lock (l # ls)" "lk_owner l = lk_owner lock" "lk_end lock < lk_start l"
    and "locks_loop newl1 newl2 lock (l # ls) = locks_finish newl1 lock (l # ls)"
  shows "loop_good newl1 newl2 lock (l # ls)"
proof -
  have "lk_end lock < lk_start x" if "x \<in> set ls" "lk_owner x = lk_owner lock" for x
    using assms(1-3) that by (fastforce simp: loop_pre_def lock_range_def)
  then show ?thesis
    using assms loop_result_finish [of "l # ls" lock newl1] by (simp add: loop_good_def loop_pre_def)
qed

lemma loop_good_same_type:
  assumes pre: "loop_pre newl1 newl2 lock (l # ls)" and own: "lk_owner l = lk_owner lock" and ty: "lk_type lock = lk_type l"
    and IH: "\<And>lock. loop_pre newl1 newl2 lock ls \<Longrightarrow> loop_good newl1 newl2 lock ls"
  shows "loop_good newl1 newl2 lock (l # ls)"
proof -
  have ok: "locks_ok (l # ls)" and pls: "loop_pre newl1 newl2 lock ls" using pre by (auto simp: loop_pre_def)
  consider (skip) "lk_end l < lk_start lock - 1" | (brk) "\<not> lk_end l < lk_start lock - 1" "lk_end lock < lk_start l - 1"
    | (cov) "\<not> lk_end l < lk_start lock - 1" "\<not> lk_end lock < lk_start l - 1" "lk_start l \<le> lk_start lock \<and> lk_end lock \<le> lk_end l"
    | (merge) "\<not> lk_end l < lk_start lock - 1" "\<not> lk_end lock < lk_start l - 1" "\<not> (lk_start l \<le> lk_start lock \<and> lk_end lock \<le> lk_end l)"
    by blast
  then show ?thesis
  proof cases
    case skip
    then show ?thesis using loop_good_keep [OF pre IH [OF pls]] own ty by simp
  next
    case brk
    then show ?thesis using loop_good_finish [OF pre own] own ty by simp
  next
    case cov
    then show ?thesis using loop_result_covered [OF ok own ty] own ty by (simp add: loop_good_def)
  next
    case merge
    define lock1 where "lock1 = (if lk_start l < lk_start lock then lock\<lparr>lk_start := lk_start l\<rparr> else lock)"
    define lock2 where "lock2 = (if lk_end lock1 < lk_end l then lock1\<lparr>lk_end := lk_end l\<rparr> else lock1)"
    have l2: "lk_owner lock2 = lk_owner lock" "lk_type lock2 = lk_type lock"
      "lk_start lock2 = min (lk_start l) (lk_start lock)" "lk_end lock2 = max (lk_end l) (lk_end lock)"
      by (auto simp: lock1_def lock2_def)
    have "loop_pre newl1 newl2 lock2 ls" using pre l2 by (auto simp: loop_pre_def lock_range_def min_def max_def)
    then obtain r where r: "locks_loop newl1 newl2 lock2 ls = Some r" "loop_result lock2 ls r"
      using IH [of lock2] by (auto simp: loop_good_def)
    moreover have "locks_loop newl1 newl2 lock (l # ls) = locks_loop newl1 newl2 lock2 ls"
      using merge own ty by (auto simp: Let_def lock1_def lock2_def)
    ultimately show ?thesis using loop_result_merge [OF ok own ty merge(1,2) r(2) l2] by (simp add: loop_good_def)
  qed
qed

lemma loop_good_other_type:
  assumes pre: "loop_pre newl1 newl2 lock (l # ls)" and own: "lk_owner l = lk_owner lock" and ty: "lk_type lock \<noteq> lk_type l"
    and IH: "loop_good newl1 newl2 lock ls"
  shows "loop_good newl1 newl2 lock (l # ls)"
proof -
  have ok: "locks_ok (l # ls)" and range: "lock_range lock" using pre by (auto simp: loop_pre_def)
  obtain r where r: "locks_loop newl1 newl2 lock ls = Some r" "loop_result lock ls r"
    using IH by (auto simp: loop_good_def)
  let ?l2 = "l\<lparr>lk_start := lk_end lock + 1\<rparr>"
  have rest: "\<exists>r. locks_finish newl1 lock (?l2 # ls) = Some r \<and> loop_result lock (?l2 # ls) r"
    if "lk_end lock < lk_end l" "lk_start l \<le> lk_end lock"
    by (rule loop_result_finish) (use pre own that in \<open>auto simp: loop_pre_def lock_range_def\<close>)
  consider (skip) "lk_end l < lk_start lock" | (brk) "\<not> lk_end l < lk_start lock" "lk_end lock < lk_start l"
    | (drop) "lk_start lock \<le> lk_end l" "lk_start l \<le> lk_end lock" "lk_start lock \<le> lk_start l" "lk_end l \<le> lk_end lock"
    | (cut) "lk_start lock \<le> lk_end l" "lk_start l \<le> lk_end lock" "lk_start l < lk_start lock" "lk_end l \<le> lk_end lock"
    | (low) "lk_start lock \<le> lk_end l" "lk_start l \<le> lk_end lock" "lk_start lock \<le> lk_start l" "lk_end lock < lk_end l"
    | (mid) "lk_start lock \<le> lk_end l" "lk_start l \<le> lk_end lock" "lk_start l < lk_start lock" "lk_end lock < lk_end l"
    by linarith
  then show ?thesis
  proof cases
    case skip
    then show ?thesis using loop_good_keep [OF pre IH] own ty by simp
  next
    case brk
    then show ?thesis using loop_good_finish [OF pre own] own ty by simp
  next
    case drop
    then show ?thesis using loop_result_drop [OF r(2) own] own ty r(1) by (simp add: loop_good_def)
  next
    case cut
    then show ?thesis using loop_result_cut_end [OF ok r(2) own range] own ty r(1) by (simp add: loop_good_def)
  next
    case low
    then show ?thesis using loop_result_cut_start [OF _ own] rest own ty by (auto simp: loop_good_def)
  next
    case mid
    have "newl2" using pre own mid by (auto simp: loop_pre_def)
    then show ?thesis
      using mid own ty rest loop_result_split [OF ok _ own range] by (auto simp: loop_good_def insert_lock_def)
  qed
qed

lemma locks_loop_good:
  assumes "loop_pre newl1 newl2 lock ls"
  shows "loop_good newl1 newl2 lock ls"
  using assms
proof (induction ls arbitrary: lock)
  case Nil
  then show ?case using loop_result_finish [of "[]" lock newl1] by (simp add: loop_good_def loop_pre_def)
next
  case (Cons l ls)
  have "loop_pre newl1 newl2 lock ls" using Cons.prems by (auto simp: loop_pre_def)
  note good = Cons.IH [OF this]
  show ?case
  proof (cases "lk_owner l = lk_owner lock")
    case True
    then show ?thesis
      using loop_good_same_type [OF Cons.prems] loop_good_other_type [OF Cons.prems] good Cons.IH by blast
  next
    case False
    then show ?thesis using loop_good_keep [OF Cons.prems good] by simp
  qed
qed

section \<open>The lock requests\<close>

text \<open>
  The requests that set, query and drop locks on a node. \<open>lock_common\<close> is the lock operation of the file system on the
  node's path: its answer to a command and a lock description. \<open>fs_flush\<close> is its flush operation's answer.
\<close>

datatype lock_cmd = F_GETLK | F_SETLK | F_SETLKW

definition fuse_lib_getlk ::
    "(lock_cmd \<Rightarrow> flock \<Rightarrow> int \<times> flock) \<Rightarrow> lock list \<Rightarrow> u64 \<Rightarrow> flock \<Rightarrow> int \<times> flock" where
  "fuse_lib_getlk lock_common locks lock_owner fl =
     (let l = (flock_to_lock fl)\<lparr>lk_owner := lock_owner\<rparr> in
      case locks_conflict locks l of
        Some conflict \<Rightarrow> (0, lock_to_flock conflict)
      | None \<Rightarrow> lock_common F_GETLK fl)"

definition fuse_lib_setlk ::
    "(lock_cmd \<Rightarrow> flock \<Rightarrow> int \<times> flock) \<Rightarrow> bool \<Rightarrow> lock list \<Rightarrow> u64 \<Rightarrow> flock \<Rightarrow> bool \<Rightarrow> (int \<times> lock list) option" where
  "fuse_lib_setlk lock_common memory locks lock_owner fl sleep =
     (let (err, fl) = lock_common (if sleep then F_SETLKW else F_SETLK) fl in
      if err = 0
      then map_option (\<lambda>(_, locks). (err, locks)) (locks_insert memory locks ((flock_to_lock fl)\<lparr>lk_owner := lock_owner\<rparr>))
      else Some (err, locks))"

definition fuse_flush_common ::
    "(lock_cmd \<Rightarrow> flock \<Rightarrow> int \<times> flock) \<Rightarrow> int \<Rightarrow> bool \<Rightarrow> lock list \<Rightarrow> u64 \<Rightarrow> (int \<times> lock list) option" where
  "fuse_flush_common lock_common fs_flush memory locks lock_owner =
     (let lock = \<lparr>l_type = F_UNLCK, l_start = 0, l_len = 0, l_pid = 0\<rparr>;
          err = fs_flush;
          (errlock, lock) = lock_common F_SETLK lock in
      if errlock \<noteq> - ENOSYS
      then map_option (\<lambda>(_, locks). (if err = - ENOSYS then 0 else err, locks))
             (locks_insert memory locks ((flock_to_lock lock)\<lparr>lk_owner := lock_owner\<rparr>))
      else Some (err, locks))"

lemma locks_insert_good:
  assumes "locks_ok locks" "lock_range lock"
  shows "\<exists>r. locks_insert True locks lock = Some (0, r) \<and> locks_ok r
    \<and> (\<forall>ow ty p. holds_lock r ow ty p \<longleftrightarrow> lock_effect lock locks ow ty p)"
proof -
  let ?need = "lk_type lock \<noteq> F_UNLCK \<or> lk_start lock \<noteq> 0 \<or> lk_end lock \<noteq> OFFSET_MAX"
  have "lock_range l" if "l \<in> set locks" for l using assms(1) that by (induction locks) auto
  then have "loop_pre ?need ?need lock locks" using assms by (fastforce simp: loop_pre_def lock_range_def)
  then show ?thesis
    using locks_loop_good [of ?need ?need lock locks]
    by (auto simp: locks_insert_def loop_good_def loop_result_def Let_def)
qed

text \<open>Dropping an owner's locks needs no memory.\<close>

lemma locks_insert_unlock_all:
  assumes "locks_ok locks" "lk_type lock = F_UNLCK" "lk_start lock = 0" "lk_end lock = OFFSET_MAX"
  shows "locks_insert memory locks lock = locks_insert True locks lock"
  using assms by (simp add: locks_insert_def Let_def)

lemma locks_conflict_None:
  "locks_conflict ls lock = None \<longleftrightarrow>
     (\<forall>l \<in> set ls. \<not> (lk_owner l \<noteq> lk_owner lock \<and> lk_start lock \<le> lk_end l \<and> lk_start l \<le> lk_end lock
        \<and> (lk_type l = F_WRLCK \<or> lk_type lock = F_WRLCK)))"
  by (induction ls) auto

lemma locks_conflict_Some:
  "locks_conflict ls lock = Some l \<Longrightarrow> l \<in> set ls \<and> lk_owner l \<noteq> lk_owner lock \<and> lk_start lock \<le> lk_end l
     \<and> lk_start l \<le> lk_end lock \<and> (lk_type l = F_WRLCK \<or> lk_type lock = F_WRLCK)"
  by (induction ls) (auto split: if_splits)

lemma locks_ok_range: "locks_ok ls \<Longrightarrow> l \<in> set ls \<Longrightarrow> lock_range l"
  by (induction ls) auto

lemma locks_conflict_iff:
  assumes "locks_ok ls" "lock_range lock"
  shows "locks_conflict ls lock \<noteq> None \<longleftrightarrow>
    (\<exists>ow ty p. ow \<noteq> lk_owner lock \<and> holds_lock ls ow ty p \<and> lk_start lock \<le> p \<and> p \<le> lk_end lock
       \<and> (ty = F_WRLCK \<or> lk_type lock = F_WRLCK))" (is "_ \<longleftrightarrow> ?R")
proof
  assume "locks_conflict ls lock \<noteq> None"
  then obtain l where "locks_conflict ls lock = Some l" by auto
  note l = locks_conflict_Some [OF this]
  have "holds_lock ls (lk_owner l) (lk_type l) (max (lk_start l) (lk_start lock))"
    using l assms locks_ok_range [of ls l] by (auto simp: holds_lock_def lock_range_def intro!: bexI [of _ l])
  then show ?R using l assms(2) by (intro exI [of _ "lk_owner l"] exI [of _ "lk_type l"] exI) (auto simp: lock_range_def)
next
  assume ?R
  then show "locks_conflict ls lock \<noteq> None" unfolding locks_conflict_None by (force simp: holds_lock_def)
qed

lemma lock_flock_round_trip:
  assumes "lock_range lk"
  shows "(flock_to_lock (lock_to_flock lk))\<lparr>lk_owner := lk_owner lk\<rparr> = lk"
  using assms by (auto simp: flock_to_lock_def lock_to_flock_def lock_range_def)

section \<open>The locks after a request\<close>

definition sample_locks :: "lock list" where
  "sample_locks = [\<lparr>lk_type = F_RDLCK, lk_start = 0, lk_end = 99, lk_pid = 7, lk_owner = 1\<rparr>,
     \<lparr>lk_type = F_RDLCK, lk_start = 40, lk_end = 59, lk_pid = 8, lk_owner = 2\<rparr>]"

definition granted :: "lock_cmd \<Rightarrow> flock \<Rightarrow> int \<times> flock" where
  "granted cmd fl = (0, fl)"

text \<open>
  C38: When the file system grants a lock, the list of the node's locks is updated to exactly what was granted. At every
  offset of the range the requester holds a lock of the new type, or none when it was an unlock, and no other; outside
  the range, and for every other owner, nothing changes. The update never runs out of spare locks, always ends, and leaves
  the locks of each owner ordered and disjoint. When the file system refuses, its error is returned and no lock changes.
\<close>
theorem setlk_updates_locks:
  assumes "locks_ok locks" "lock_common (if sleep then F_SETLKW else F_SETLK) fl = (err, fl')" "lock_range (flock_to_lock fl')"
  shows "\<exists>locks'. fuse_lib_setlk lock_common True locks lock_owner fl sleep = Some (err, locks') \<and> locks_ok locks'
    \<and> (\<forall>ow ty p. holds_lock locks' ow ty p \<longleftrightarrow>
         (if err = 0 \<and> ow = lock_owner \<and> lk_start (flock_to_lock fl') \<le> p \<and> p \<le> lk_end (flock_to_lock fl')
          then ty = l_type fl' \<and> ty \<noteq> F_UNLCK else holds_lock locks ow ty p))"
proof (cases "err = 0")
  case True
  have "lock_range ((flock_to_lock fl')\<lparr>lk_owner := lock_owner\<rparr>)" using assms(3) by (simp add: lock_range_def)
  from locks_insert_good [OF assms(1) this] show ?thesis
    using True assms(2) by (auto simp: fuse_lib_setlk_def lock_effect_def flock_to_lock_def)
next
  case False
  then show ?thesis using assms(1,2) by (simp add: fuse_lib_setlk_def)
qed

theorem setlk_updates_locks_witness:
  "\<exists>locks'. fuse_lib_setlk granted True sample_locks 1 \<lparr>l_type = F_WRLCK, l_start = 10, l_len = 20, l_pid = 7\<rparr> False
      = Some (0, locks') \<and> locks_ok locks' \<and> holds_lock locks' 1 F_RDLCK 9 \<and> holds_lock locks' 1 F_WRLCK 10
      \<and> holds_lock locks' 1 F_WRLCK 29 \<and> \<not> holds_lock locks' 1 F_RDLCK 29 \<and> holds_lock locks' 1 F_RDLCK 30
      \<and> holds_lock locks' 2 F_RDLCK 50"
proof -
  let ?fl = "\<lparr>l_type = F_WRLCK, l_start = 10, l_len = 20, l_pid = 7\<rparr>"
  have "locks_ok sample_locks" "lock_range (flock_to_lock ?fl)"
    by (simp_all add: sample_locks_def lock_range_def flock_to_lock_def OFFSET_MAX_def)
  from setlk_updates_locks [of sample_locks granted False ?fl 0 ?fl 1, OF this(1) _ this(2)]
  obtain locks' where "fuse_lib_setlk granted True sample_locks 1 ?fl False = Some (0, locks')" "locks_ok locks'"
    "\<forall>ow ty p. holds_lock locks' ow ty p \<longleftrightarrow>
       (if ow = 1 \<and> 10 \<le> p \<and> p \<le> 29 then ty = F_WRLCK \<and> ty \<noteq> F_UNLCK else holds_lock sample_locks ow ty p)"
    by (auto simp: granted_def flock_to_lock_def)
  then show ?thesis by (simp add: sample_locks_def)
qed

text \<open>
  C39: A query for a lock is answered from the list exactly when another owner holds, at some offset of the range, a lock
  that conflicts (one of the two is a write lock). The answer then describes such a lock, exactly as it is held.
  Otherwise the file system is asked.
\<close>
theorem getlk_reports_conflict:
  assumes "locks_ok locks" "lock_range (flock_to_lock fl)"
  shows "if \<exists>ow ty p. ow \<noteq> lock_owner \<and> holds_lock locks ow ty p \<and> lk_start (flock_to_lock fl) \<le> p
              \<and> p \<le> lk_end (flock_to_lock fl) \<and> (ty = F_WRLCK \<or> l_type fl = F_WRLCK)
         then \<exists>l \<in> set locks. fuse_lib_getlk lock_common locks lock_owner fl = (0, lock_to_flock l)
                \<and> lk_owner l \<noteq> lock_owner \<and> (lk_type l = F_WRLCK \<or> l_type fl = F_WRLCK)
                \<and> lk_start l \<le> lk_end (flock_to_lock fl) \<and> lk_start (flock_to_lock fl) \<le> lk_end l
                \<and> (flock_to_lock (lock_to_flock l))\<lparr>lk_owner := lk_owner l\<rparr> = l
         else fuse_lib_getlk lock_common locks lock_owner fl = lock_common F_GETLK fl"
proof -
  let ?l = "(flock_to_lock fl)\<lparr>lk_owner := lock_owner\<rparr>"
  have ty: "lk_type (flock_to_lock fl) = l_type fl" by (simp add: flock_to_lock_def)
  have range: "lock_range ?l" using assms(2) by (simp add: lock_range_def)
  note iff = locks_conflict_iff [OF assms(1) range]
  show ?thesis
  proof (cases "locks_conflict locks ?l")
    case None
    then have "fuse_lib_getlk lock_common locks lock_owner fl = lock_common F_GETLK fl" by (simp add: fuse_lib_getlk_def)
    then show ?thesis using iff None ty by auto
  next
    case (Some l)
    note l = locks_conflict_Some [OF Some]
    have "fuse_lib_getlk lock_common locks lock_owner fl = (0, lock_to_flock l)" using Some by (simp add: fuse_lib_getlk_def)
    moreover have "(flock_to_lock (lock_to_flock l))\<lparr>lk_owner := lk_owner l\<rparr> = l"
      using lock_flock_round_trip locks_ok_range assms(1) l by blast
    ultimately show ?thesis using iff Some l ty by auto
  qed
qed

theorem getlk_reports_conflict_witness:
  "\<exists>l \<in> set sample_locks. fuse_lib_getlk granted sample_locks 3 \<lparr>l_type = F_WRLCK, l_start = 50, l_len = 0, l_pid = 9\<rparr>
     = (0, lock_to_flock l)"
proof -
  let ?fl = "\<lparr>l_type = F_WRLCK, l_start = 50, l_len = 0, l_pid = 9\<rparr>"
  have "locks_ok sample_locks" "lock_range (flock_to_lock ?fl)"
    by (simp_all add: sample_locks_def lock_range_def flock_to_lock_def OFFSET_MAX_def)
  note answer = getlk_reports_conflict [OF this, of 3 granted]
  have "(1 :: u64) \<noteq> 3 \<and> holds_lock sample_locks 1 F_RDLCK 50 \<and> lk_start (flock_to_lock ?fl) \<le> 50
      \<and> 50 \<le> lk_end (flock_to_lock ?fl) \<and> (F_RDLCK = F_WRLCK \<or> l_type ?fl = F_WRLCK)"
    by (simp add: holds_lock_def sample_locks_def flock_to_lock_def OFFSET_MAX_def)
  then show ?thesis using answer by (metis (no_types, lifting))
qed

end
