(* ===== verification/Node_Table.thy ===== *)
theory Node_Table
  imports Prelude "HOL-Library.Multiset"
begin

text \<open>
  The hash tables of nodes in \<^verbatim>\<open>lib/fuse.c\<close> of the bundled libfuse. They grow and shrink one bucket at a time: the buckets
  below \<open>nt_split\<close> have been divided between themselves and their partner in the upper half of the array, the others not
  yet. A bucket is the list of the nodes chained in it. The two tables of the code, by number and by name, differ in the
  value that is hashed; it is the argument \<open>h\<close> here. Whether memory for a larger array can be had is an argument.
\<close>

record 'a node_table =
  nt_array :: "'a list list"
  nt_use :: nat
  nt_size :: nat
  nt_split :: nat

definition NODE_TABLE_MIN_SIZE :: nat where "NODE_TABLE_MIN_SIZE = 8192"

definition node_table_init :: "'a node_table" where
  "node_table_init =
     \<lparr>nt_array = replicate NODE_TABLE_MIN_SIZE [], nt_use = 0, nt_size = NODE_TABLE_MIN_SIZE, nt_split = 0\<rparr>"

definition table_hash :: "'a node_table \<Rightarrow> nat \<Rightarrow> nat" where
  "table_hash t hv =
     (let hash = hv mod nt_size t;
          oldhash = hash mod (nt_size t div 2)
      in if oldhash \<ge> nt_split t then oldhash else hash)"

definition node_table_reduce :: "'a node_table \<Rightarrow> 'a node_table" where
  "node_table_reduce t =
     (let newsize = nt_size t div 2
      in if newsize < NODE_TABLE_MIN_SIZE then t
         else t\<lparr>nt_array := take newsize (nt_array t), nt_size := newsize, nt_split := newsize div 2\<rparr>)"

definition node_table_resize :: "bool \<Rightarrow> 'a node_table \<Rightarrow> 'a node_table" where
  "node_table_resize memory t =
     (if \<not> memory then t
      else t\<lparr>nt_array := nt_array t @ replicate (nt_size t) [], nt_size := nt_size t * 2, nt_split := 0\<rparr>)"

fun remerge_loop :: "nat \<Rightarrow> 'a node_table \<Rightarrow> 'a node_table" where
  "remerge_loop 0 t = t"
| "remerge_loop (Suc iter) t =
     (if nt_split t > 0
      then let t = t\<lparr>nt_split := nt_split t - 1\<rparr>;
               upper = nt_split t + nt_size t div 2
           in if nt_array t ! upper \<noteq> []
              then t\<lparr>nt_array := (nt_array t)[nt_split t := nt_array t ! nt_split t @ nt_array t ! upper, upper := []]\<rparr>
              else remerge_loop iter t
      else t)"

definition table_remerge :: "'a node_table \<Rightarrow> 'a node_table" where
  "table_remerge t = remerge_loop 8 (if nt_split t = 0 then node_table_reduce t else t)"

definition table_unlink :: "('a \<Rightarrow> nat) \<Rightarrow> 'a \<Rightarrow> 'a node_table \<Rightarrow> 'a node_table" where
  "table_unlink h x t =
     (let hash = table_hash t (h x) in t\<lparr>nt_array := (nt_array t)[hash := remove1 x (nt_array t ! hash)]\<rparr>)"

definition table_unuse :: "'a node_table \<Rightarrow> 'a node_table" where
  "table_unuse t =
     (let t = t\<lparr>nt_use := nt_use t - 1\<rparr> in if nt_use t < nt_size t div 4 then table_remerge t else t)"

fun rehash_loop :: "('a \<Rightarrow> nat) \<Rightarrow> nat \<Rightarrow> 'a list \<Rightarrow> 'a list \<Rightarrow> 'a node_table \<Rightarrow> 'a node_table" where
  "rehash_loop h hash kept [] t = t\<lparr>nt_array := (nt_array t)[hash := kept]\<rparr>"
| "rehash_loop h hash kept (node # rest) t =
     (let newhash = table_hash t (h node)
      in if newhash \<noteq> hash
         then rehash_loop h hash kept rest (t\<lparr>nt_array := (nt_array t)[newhash := node # nt_array t ! newhash]\<rparr>)
         else rehash_loop h hash (kept @ [node]) rest t)"

definition table_rehash :: "bool \<Rightarrow> ('a \<Rightarrow> nat) \<Rightarrow> 'a node_table \<Rightarrow> 'a node_table" where
  "table_rehash memory h t =
     (if nt_split t = nt_size t div 2 then t
      else
        let hash = nt_split t;
            t = t\<lparr>nt_split := nt_split t + 1\<rparr>;
            t = rehash_loop h hash [] (nt_array t ! hash) t
        in if nt_split t = nt_size t div 2 then node_table_resize memory t else t)"

definition table_hash_in :: "bool \<Rightarrow> ('a \<Rightarrow> nat) \<Rightarrow> 'a \<Rightarrow> 'a node_table \<Rightarrow> 'a node_table" where
  "table_hash_in memory h x t =
     (let hash = table_hash t (h x);
          t = t\<lparr>nt_array := (nt_array t)[hash := x # nt_array t ! hash], nt_use := nt_use t + 1\<rparr>
      in if nt_use t \<ge> nt_size t div 2 then table_rehash memory h t else t)"

definition table_find :: "nat \<Rightarrow> ('a \<Rightarrow> bool) \<Rightarrow> 'a node_table \<Rightarrow> 'a option" where
  "table_find hv P t = find P (nt_array t ! table_hash t hv)"

section \<open>The nodes of a table\<close>

definition table_nodes :: "'a node_table \<Rightarrow> 'a multiset" where
  "table_nodes t = mset (concat (nt_array t))"

text \<open>The array has a size that can be halved down to the smallest, and every node is where its hash says.\<close>

definition table_ok :: "('a \<Rightarrow> nat) \<Rightarrow> 'a node_table \<Rightarrow> bool" where
  "table_ok h t \<longleftrightarrow> (\<exists>k. nt_size t = NODE_TABLE_MIN_SIZE * 2 ^ k) \<and> length (nt_array t) = nt_size t
     \<and> nt_split t \<le> nt_size t div 2 \<and> (\<forall>i < nt_size t. \<forall>x \<in> set (nt_array t ! i). table_hash t (h x) = i)"

lemma table_size:
  assumes "table_ok h t"
  shows "0 < nt_size t" "even (nt_size t)" "0 < nt_size t div 2" "nt_size t div 2 < nt_size t"
    "nt_size t = 2 * (nt_size t div 2)"
  using assms by (auto simp: table_ok_def NODE_TABLE_MIN_SIZE_def)

lemma mod_half: "even (n :: nat) \<Longrightarrow> a mod n mod (n div 2) = a mod (n div 2)"
  by (rule mod_mod_cancel) (auto elim: evenE)

text \<open>A bucket is either the one of the lower half or its partner in the upper half.\<close>

lemma table_hash_cases:
  assumes "table_ok h t"
  shows "table_hash t hv < nt_size t"
    and "table_hash t hv = hv mod (nt_size t div 2) \<or> table_hash t hv = hv mod (nt_size t div 2) + nt_size t div 2"
    and "nt_size t div 2 \<le> table_hash t hv \<Longrightarrow> table_hash t hv - nt_size t div 2 < nt_split t"
proof -
  note size = table_size [OF assms]
  let ?m = "nt_size t div 2"
  have half: "hv mod nt_size t mod ?m = hv mod ?m" by (rule mod_half [OF size(2)])
  have big: "hv mod nt_size t < nt_size t" using size(1) by simp
  have "hv mod nt_size t = hv mod ?m \<or> hv mod nt_size t = hv mod ?m + ?m"
  proof (cases "hv mod nt_size t < ?m")
    case True
    then show ?thesis using half by simp
  next
    case False
    then have "hv mod nt_size t mod ?m = (hv mod nt_size t - ?m) mod ?m" using le_mod_geq by simp
    then show ?thesis using half False big size(5) by auto
  qed
  moreover have "hv mod ?m < ?m" using size(3) by simp
  ultimately show "table_hash t hv < nt_size t"
    "table_hash t hv = hv mod ?m \<or> table_hash t hv = hv mod ?m + ?m"
    "?m \<le> table_hash t hv \<Longrightarrow> table_hash t hv - ?m < nt_split t"
    using half big size(4) by (auto simp: table_hash_def Let_def)
qed

lemma table_hash_cong [simp]:
  "table_hash (t\<lparr>nt_array := a\<rparr>) = table_hash t" "table_hash (t\<lparr>nt_use := u\<rparr>) = table_hash t"
  by (simp_all add: table_hash_def fun_eq_iff)

lemma mset_concat_update:
  "i < length xss \<Longrightarrow> mset (concat (xss[i := b])) + mset (xss ! i) = mset (concat xss) + mset b"
  by (induction xss arbitrary: i) (auto split: nat.splits simp: ac_simps)

lemma table_nodes_update:
  assumes "i < length (nt_array t)"
  shows "table_nodes (t\<lparr>nt_array := (nt_array t)[i := b]\<rparr>) + mset (nt_array t ! i) = table_nodes t + mset b"
  using mset_concat_update [OF assms] by (simp add: table_nodes_def)

lemma table_nodes_iff:
  assumes "table_ok h t"
  shows "x \<in># table_nodes t \<longleftrightarrow> x \<in> set (nt_array t ! table_hash t (h x))"
proof
  assume "x \<in># table_nodes t"
  then obtain b where "b \<in> set (nt_array t)" "x \<in> set b" by (auto simp: table_nodes_def)
  then obtain i where "i < length (nt_array t)" "x \<in> set (nt_array t ! i)" by (auto simp: in_set_conv_nth [of b])
  then show "x \<in> set (nt_array t ! table_hash t (h x))" using assms by (auto simp: table_ok_def)
next
  assume "x \<in> set (nt_array t ! table_hash t (h x))"
  moreover have "table_hash t (h x) < length (nt_array t)"
    using table_hash_cases(1) [OF assms] assms by (simp add: table_ok_def)
  ultimately show "x \<in># table_nodes t" by (auto simp: table_nodes_def intro!: nth_mem)
qed

lemma table_ok_update:
  assumes "table_ok h t" "\<And>x. x \<in> set b \<Longrightarrow> table_hash t (h x) = i"
  shows "table_ok h (t\<lparr>nt_array := (nt_array t)[i := b]\<rparr>)"
proof -
  have "table_hash t (h x) = j" if "j < nt_size t" "x \<in> set ((nt_array t)[i := b] ! j)" for j x
    using assms that by (cases "j = i") (auto simp: table_ok_def)
  then show ?thesis using assms(1) by (simp add: table_ok_def)
qed

lemma table_ok_use [simp]: "table_ok h (t\<lparr>nt_use := u\<rparr>) \<longleftrightarrow> table_ok h t"
  by (simp add: table_ok_def)

lemma table_nodes_use [simp]: "table_nodes (t\<lparr>nt_use := u\<rparr>) = table_nodes t"
  by (simp add: table_nodes_def)

text \<open>Finding a node in its bucket finds it in the table.\<close>

lemma table_find_Some:
  assumes "table_ok h t" "table_find hv P t = Some x"
  shows "x \<in># table_nodes t" "P x"
proof -
  have "x \<in> set (nt_array t ! table_hash t hv)" "P x" using assms(2) by (auto simp: table_find_def find_Some_iff)
  moreover have "table_hash t hv < length (nt_array t)"
    using table_hash_cases(1) [OF assms(1)] assms(1) by (simp add: table_ok_def)
  ultimately show "x \<in># table_nodes t" "P x" by (auto simp: table_nodes_def intro!: nth_mem)
qed

lemma table_find_None:
  assumes "table_ok h t" "\<And>x. x \<in># table_nodes t \<Longrightarrow> P x \<Longrightarrow> h x = hv"
  shows "table_find hv P t = None \<longleftrightarrow> (\<forall>x. x \<in># table_nodes t \<longrightarrow> \<not> P x)"
proof
  assume none: "table_find hv P t = None"
  show "\<forall>x. x \<in># table_nodes t \<longrightarrow> \<not> P x"
  proof (intro allI impI notI)
    fix x
    assume x: "x \<in># table_nodes t" "P x"
    then show False
      using none assms(2) [OF x] table_nodes_iff [OF assms(1), of x] by (auto simp: table_find_def find_None_iff)
  qed
next
  assume "\<forall>x. x \<in># table_nodes t \<longrightarrow> \<not> P x"
  then show "table_find hv P t = None" using table_find_Some [OF assms(1), of hv P] by (cases "table_find hv P t") auto
qed

lemma table_unlink_ok:
  assumes "table_ok h t"
  shows "table_ok h (table_unlink h x t)" "table_nodes (table_unlink h x t) = table_nodes t - {#x#}"
proof -
  let ?i = "table_hash t (h x)"
  have i: "?i < length (nt_array t)" using table_hash_cases(1) [OF assms] assms by (simp add: table_ok_def)
  have "table_hash t (h y) = ?i" if "y \<in> set (remove1 x (nt_array t ! ?i))" for y
    using assms i notin_set_remove1 that by (fastforce simp: table_ok_def)
  then show "table_ok h (table_unlink h x t)"
    unfolding table_unlink_def Let_def by (rule table_ok_update [OF assms])
  have "table_nodes (table_unlink h x t) + mset (nt_array t ! ?i) = table_nodes t + (mset (nt_array t ! ?i) - {#x#})"
    using table_nodes_update [OF i] by (simp add: table_unlink_def Let_def)
  moreover have "table_nodes t - {#x#} + mset (nt_array t ! ?i) = table_nodes t + (mset (nt_array t ! ?i) - {#x#})"
    using table_nodes_iff [OF assms, of x]
    by (cases "x \<in> set (nt_array t ! ?i)") (auto simp: diff_single_trivial dest!: multi_member_split)
  ultimately show "table_nodes (table_unlink h x t) = table_nodes t - {#x#}" by (metis add_right_imp_eq)
qed

lemma table_hash_half:
  assumes "table_ok h t"
  shows "table_hash t hv = (if hv mod (nt_size t div 2) \<ge> nt_split t then hv mod (nt_size t div 2) else hv mod nt_size t)"
  by (simp add: table_hash_def Let_def mod_half [OF table_size(2) [OF assms]])

lemma upper_empty:
  assumes "table_ok h t" "nt_split t + nt_size t div 2 \<le> i" "i < nt_size t"
  shows "nt_array t ! i = []"
proof (rule ccontr)
  assume "nt_array t ! i \<noteq> []"
  then obtain x where "x \<in> set (nt_array t ! i)" by (cases "nt_array t ! i") auto
  then have "table_hash t (h x) = i" using assms by (auto simp: table_ok_def)
  then show False using table_hash_cases(3) [OF assms(1), of "h x"] assms(2) by simp
qed

lemma node_table_reduce_ok:
  assumes ok: "table_ok h t" and split: "nt_split t = 0"
  shows "table_ok h (node_table_reduce t)" "table_nodes (node_table_reduce t) = table_nodes t"
proof -
  let ?m = "nt_size t div 2" and ?t = "node_table_reduce t"
  note size = table_size [OF ok]
  have len: "length (nt_array t) = nt_size t" using ok by (simp add: table_ok_def)
  have all: "concat (drop ?m (nt_array t)) = []"
    using upper_empty [OF ok] split len by (auto simp: in_set_conv_nth)
  have "table_nodes ?t = table_nodes t \<and> table_ok h ?t"
  proof (cases "?m < NODE_TABLE_MIN_SIZE")
    case True
    then show ?thesis using ok by (simp add: node_table_reduce_def Let_def)
  next
    case False
    obtain k where k: "nt_size t = NODE_TABLE_MIN_SIZE * 2 ^ k" using ok by (auto simp: table_ok_def)
    obtain j where j: "k = Suc j" using k False by (cases k) (auto simp: NODE_TABLE_MIN_SIZE_def)
    have m: "?m = NODE_TABLE_MIN_SIZE * 2 ^ j" using k j by simp
    have t: "?t = t\<lparr>nt_array := take ?m (nt_array t), nt_size := ?m, nt_split := ?m div 2\<rparr>"
      using False by (simp add: node_table_reduce_def Let_def)
    have hash: "table_hash ?t hv = table_hash t hv" for hv
      using table_hash_half [OF ok, of hv] split m
      by (auto simp: t table_hash_def Let_def NODE_TABLE_MIN_SIZE_def not_less [symmetric])
    have "concat (nt_array t) = concat (take ?m (nt_array t)) @ concat (drop ?m (nt_array t))"
      by (simp flip: concat_append)
    then have "table_nodes t = table_nodes ?t" using all by (simp add: t table_nodes_def)
    moreover have "table_ok h ?t"
      using ok m len size(4) by (auto simp: table_ok_def hash) (auto simp: t)
    ultimately show ?thesis by simp
  qed
  then show "table_ok h ?t" "table_nodes ?t = table_nodes t" by auto
qed

lemma node_table_resize_ok:
  assumes ok: "table_ok h t" and split: "nt_split t = nt_size t div 2"
  shows "table_ok h (node_table_resize memory t)" "table_nodes (node_table_resize memory t) = table_nodes t"
proof -
  let ?t = "t\<lparr>nt_array := nt_array t @ replicate (nt_size t) [], nt_size := nt_size t * 2, nt_split := 0\<rparr>"
  have hash: "table_hash ?t hv = table_hash t hv" for hv
    using mod_less_divisor [OF table_size(3) [OF ok], of "hv mod nt_size t"] split
    by (simp add: table_hash_def Let_def mod_mod_cancel not_le)
  have nodes: "table_nodes ?t = table_nodes t" by (simp add: table_nodes_def)
  obtain k where "nt_size t = NODE_TABLE_MIN_SIZE * 2 ^ k" using ok by (auto simp: table_ok_def)
  then have "nt_size t * 2 = NODE_TABLE_MIN_SIZE * 2 ^ Suc k" by simp
  then have "\<exists>k. nt_size t * 2 = NODE_TABLE_MIN_SIZE * 2 ^ k" by blast
  then have "table_ok h ?t" using ok by (auto simp: table_ok_def hash nth_append)
  then show "table_ok h (node_table_resize memory t)" "table_nodes (node_table_resize memory t) = table_nodes t"
    using ok nodes by (auto simp: node_table_resize_def)
qed

text \<open>Lowering the split by one joins the two buckets of a pair.\<close>

lemma remerge_step_ok:
  assumes ok: "table_ok h t" and s: "nt_split t = Suc s"
    and t': "t' = t\<lparr>nt_split := s, nt_array := (nt_array t)[s := nt_array t ! s @ nt_array t ! (s + nt_size t div 2), s + nt_size t div 2 := []]\<rparr>"
  shows "table_ok h t' \<and> table_nodes t' = table_nodes t"
proof -
  let ?m = "nt_size t div 2" and ?a = "nt_array t"
  note size = table_size [OF ok]
  have bounds: "s < ?m" "s + ?m < nt_size t" "length ?a = nt_size t" using ok s size by (auto simp: table_ok_def)
  have split: "nt_split t \<le> ?m" using ok by (simp add: table_ok_def)
  have hash: "table_hash t' (h x) = (if i = s + ?m then s else i)" if "i < nt_size t" "x \<in> set (?a ! i)" for i x
  proof -
    have i: "table_hash t (h x) = i" using ok that by (auto simp: table_ok_def)
    have "table_hash t' (h x) = (if h x mod ?m \<ge> s then h x mod ?m else h x mod nt_size t)"
      by (simp add: t' table_hash_def Let_def mod_half [OF size(2)])
    then show ?thesis
      using i table_hash_half [OF ok, of "h x"] table_hash_cases(2) [OF ok, of "h x"] s mod_less_divisor [OF size(3), of "h x"]
      by (auto split: if_splits)
  qed
  have len: "length (nt_array t') = nt_size t" "nt_size t' = nt_size t" "nt_split t' = s" using bounds by (auto simp: t')
  have "table_hash t' (h x) = i" if "i < nt_size t" "x \<in> set (nt_array t' ! i)" for i x
    using hash [of i x] hash [of "s + ?m" x] that bounds by (auto simp: t' nth_list_update split: if_splits)
  then have "table_ok h t'" using ok len split s by (auto simp: table_ok_def)
  moreover have "table_nodes t' = table_nodes t"
  proof -
    let ?b = "?a ! s @ ?a ! (s + ?m)"
    have keep: "?a[s := ?b] ! (s + ?m) = ?a ! (s + ?m)" by (rule nth_list_update_neq) (use size(3) in linarith)
    have lower: "mset (concat (?a[s := ?b])) = mset (concat ?a) + mset (?a ! (s + ?m))"
      using mset_concat_update [of s ?a ?b] bounds by simp
    have "mset (concat (?a[s := ?b, s + ?m := []])) + mset (?a[s := ?b] ! (s + ?m)) = mset (concat (?a[s := ?b])) + mset []"
      by (rule mset_concat_update) (use bounds in simp)
    then have "mset (concat (?a[s := ?b, s + ?m := []])) + mset (?a ! (s + ?m)) = mset (concat ?a) + mset (?a ! (s + ?m))"
      unfolding keep lower by simp
    then show ?thesis by (simp add: t' table_nodes_def)
  qed
  ultimately show ?thesis by simp
qed

lemma remerge_loop_ok:
  assumes "table_ok h t"
  shows "table_ok h (remerge_loop iter t) \<and> table_nodes (remerge_loop iter t) = table_nodes t"
  using assms
proof (induction iter arbitrary: t)
  case (Suc iter)
  show ?case
  proof (cases "nt_split t")
    case split: (Suc s)
    note step = remerge_step_ok [OF Suc.prems split refl]
    have "t\<lparr>nt_split := s\<rparr> = t\<lparr>nt_split := s, nt_array := (nt_array t)[s := nt_array t ! s @ nt_array t ! (s + nt_size t div 2), s + nt_size t div 2 := []]\<rparr>"
      if "nt_array t ! (s + nt_size t div 2) = []" using that list_update_id [of "nt_array t" "s + nt_size t div 2"] by (cases t) simp
    then show ?thesis using Suc.IH step split by (auto simp: Let_def)
  qed (use Suc.prems in simp)
qed simp

lemma table_remerge_ok:
  assumes "table_ok h t"
  shows "table_ok h (table_remerge t)" "table_nodes (table_remerge t) = table_nodes t"
  using remerge_loop_ok [of h] node_table_reduce_ok [of h] assms by (auto simp: table_remerge_def)

lemma table_unuse_ok:
  assumes "table_ok h t"
  shows "table_ok h (table_unuse t)" "table_nodes (table_unuse t) = table_nodes t"
  using table_remerge_ok [of h "t\<lparr>nt_use := nt_use t - 1\<rparr>"] assms by (auto simp: table_unuse_def Let_def)

text \<open>Raising the split by one divides a bucket between itself and its partner.\<close>

lemma rehash_loop_nodes:
  assumes "hash < length (nt_array t)" "\<And>x. x \<in> set rest \<Longrightarrow> table_hash t (h x) < length (nt_array t)"
  shows "table_nodes (rehash_loop h hash kept rest t) + mset (nt_array t ! hash) = table_nodes t + mset kept + mset rest"
  using assms
proof (induction h hash kept rest t rule: rehash_loop.induct)
  case (1 h hash kept t)
  then show ?case using table_nodes_update [of hash t kept] by simp
next
  case (2 h hash kept node rest t)
  let ?n = "table_hash t (h node)"
  have n: "?n < length (nt_array t)" using 2(4) by simp
  show ?case
  proof (cases "?n = hash")
    case True
    then show ?thesis using 2(2) [OF refl] 2(3,4) by simp
  next
    case False
    have "table_nodes (t\<lparr>nt_array := (nt_array t)[?n := node # nt_array t ! ?n]\<rparr>) = add_mset node (table_nodes t)"
      using table_nodes_update [OF n, of "node # nt_array t ! ?n"] by simp
    then show ?thesis using 2(1) [OF refl False] 2(3,4) False by (simp add: Let_def)
  qed
qed

lemma rehash_loop_fields [simp]:
  "nt_size (rehash_loop h hash kept rest t) = nt_size t" "nt_split (rehash_loop h hash kept rest t) = nt_split t"
  "nt_use (rehash_loop h hash kept rest t) = nt_use t"
  "length (nt_array (rehash_loop h hash kept rest t)) = length (nt_array t)"
  "table_hash (rehash_loop h hash kept rest t) = table_hash t"
  by (induction h hash kept rest t rule: rehash_loop.induct) (auto simp: Let_def)

definition placed_but :: "('a \<Rightarrow> nat) \<Rightarrow> nat set \<Rightarrow> 'a node_table \<Rightarrow> bool" where
  "placed_but h S t \<longleftrightarrow> (\<forall>i < length (nt_array t). i \<notin> S \<longrightarrow> (\<forall>x \<in> set (nt_array t ! i). table_hash t (h x) = i))"

lemma placed_but_update:
  assumes "placed_but h S t" "\<forall>x \<in> set b. table_hash t (h x) = i"
  shows "placed_but h (S - {i}) (t\<lparr>nt_array := (nt_array t)[i := b]\<rparr>)"
proof -
  have "table_hash t (h x) = j" if "j < length (nt_array t)" "j \<notin> S - {i}" "x \<in> set ((nt_array t)[i := b] ! j)" for j x
    using assms that by (cases "j = i") (auto simp: placed_but_def)
  then show ?thesis by (simp add: placed_but_def)
qed

lemma rehash_loop_places:
  assumes "placed_but h {hash} t" "\<forall>x \<in> set kept. table_hash t (h x) = hash"
    and "\<forall>x \<in> set rest. table_hash t (h x) < length (nt_array t)"
  shows "placed_but h {} (rehash_loop h hash kept rest t)"
  using assms
proof (induction h hash kept rest t rule: rehash_loop.induct)
  case (1 h hash kept t)
  then show ?case using placed_but_update [of h "{hash}" t kept hash] by simp
next
  case (2 h hash kept node rest t)
  let ?n = "table_hash t (h node)"
  show ?case
  proof (cases "?n = hash")
    case True
    then show ?thesis using 2(2) [OF refl _ 2(3)] 2(4,5) by simp
  next
    case False
    let ?t = "t\<lparr>nt_array := (nt_array t)[?n := node # nt_array t ! ?n]\<rparr>"
    have "\<forall>x \<in> set (node # nt_array t ! ?n). table_hash t (h x) = ?n"
      using 2(3,5) False by (simp add: placed_but_def)
    from placed_but_update [OF 2(3) this] False have "placed_but h {hash} ?t" by simp
    from 2(1) [OF refl False this] 2(4,5) False show ?thesis by (simp add: Let_def)
  qed
qed

lemma table_ok_placed:
  "table_ok h t \<longleftrightarrow> (\<exists>k. nt_size t = NODE_TABLE_MIN_SIZE * 2 ^ k) \<and> length (nt_array t) = nt_size t
     \<and> nt_split t \<le> nt_size t div 2 \<and> placed_but h {} t"
  by (auto simp: table_ok_def placed_but_def)

lemma table_rehash_ok:
  assumes ok: "table_ok h t"
  shows "table_ok h (table_rehash memory h t) \<and> table_nodes (table_rehash memory h t) = table_nodes t"
proof (cases "nt_split t = nt_size t div 2")
  case True
  then show ?thesis using ok by (simp add: table_rehash_def)
next
  case False
  let ?m = "nt_size t div 2" and ?s = "nt_split t"
  let ?t = "t\<lparr>nt_split := ?s + 1\<rparr>"
  let ?r = "rehash_loop h ?s [] (nt_array t ! ?s) ?t"
  note size = table_size [OF ok]
  have s: "?s < ?m" "?s < nt_size t" "length (nt_array t) = nt_size t" using ok False size by (auto simp: table_ok_def)
  have hash: "table_hash ?t hv = (if hv mod ?m \<ge> ?s + 1 then hv mod ?m else hv mod nt_size t)" for hv
    by (simp add: table_hash_def Let_def mod_half [OF size(2)])
  have "table_hash ?t (h x) = i" if "i < nt_size t" "i \<noteq> ?s" "x \<in> set (nt_array t ! i)" for i x
  proof -
    have "table_hash t (h x) = i" using ok that by (simp add: table_ok_def)
    then show ?thesis using hash [of "h x"] table_hash_half [OF ok, of "h x"] that(2) by (auto split: if_splits)
  qed
  then have "placed_but h {?s} ?t" using s by (simp add: placed_but_def)
  moreover have small: "table_hash ?t hv < nt_size t" for hv
    using hash [of hv] mod_less_divisor [OF size(1), of hv] mod_less_divisor [OF size(3), of hv] size(4) by auto
  ultimately have "placed_but h {} ?r" using rehash_loop_places [of h ?s ?t "[]" "nt_array t ! ?s"] s by simp
  moreover have "nt_split t + 1 \<le> ?m" using s by simp
  ultimately have r: "table_ok h ?r" using ok unfolding table_ok_placed by simp
  have nodes: "table_nodes ?r = table_nodes t"
    using rehash_loop_nodes [of ?s ?t "nt_array t ! ?s" h "[]"] s small by (simp add: table_nodes_def)
  show ?thesis
    using False r nodes node_table_resize_ok [OF r] by (auto simp: table_rehash_def Let_def)
qed

lemma table_hash_in_ok:
  assumes ok: "table_ok h t"
  shows "table_ok h (table_hash_in memory h x t)" "table_nodes (table_hash_in memory h x t) = add_mset x (table_nodes t)"
proof -
  let ?i = "table_hash t (h x)"
  let ?t = "t\<lparr>nt_array := (nt_array t)[?i := x # nt_array t ! ?i], nt_use := nt_use t + 1\<rparr>"
  have i: "?i < length (nt_array t)" "?i < nt_size t" using table_hash_cases(1) [OF ok] ok by (auto simp: table_ok_def)
  have "table_ok h (t\<lparr>nt_array := (nt_array t)[?i := x # nt_array t ! ?i]\<rparr>)"
    by (rule table_ok_update [OF ok]) (use ok i in \<open>auto simp: table_ok_def\<close>)
  then have "table_ok h ?t" using table_ok_use by fastforce
  moreover have "table_nodes ?t = add_mset x (table_nodes t)"
    using table_nodes_update [OF i(1), of "x # nt_array t ! ?i"] by (simp add: table_nodes_def)
  ultimately show "table_ok h (table_hash_in memory h x t)"
    "table_nodes (table_hash_in memory h x t) = add_mset x (table_nodes t)"
    using table_rehash_ok [of h ?t memory] by (auto simp: table_hash_in_def Let_def)
qed

lemma node_table_init_ok: "table_ok h node_table_init" "table_nodes node_table_init = {#}"
  by (auto simp: table_ok_def node_table_init_def NODE_TABLE_MIN_SIZE_def table_nodes_def intro: exI [of _ 0])

lemma table_ok_cong:
  assumes "table_ok h t" "\<And>x. x \<in># table_nodes t \<Longrightarrow> h' x = h x"
  shows "table_ok h' t"
proof -
  have "h' x = h x" if "i < nt_size t" "x \<in> set (nt_array t ! i)" for i x
    using assms that by (intro assms(2)) (auto simp: table_ok_def table_nodes_def intro!: nth_mem)
  then show ?thesis using assms(1) by (auto simp: table_ok_def)
qed

end
