(* ===== verification/Nodes.thy ===== *)
theory Nodes
  imports Node_Table Machine "HOL-Library.Monad_Syntax"
begin

text \<open>
  The nodes of \<^verbatim>\<open>lib/fuse.c\<close> in the bundled libfuse: the objects the kernel refers to by number, each a name in a parent.
  They live in a heap of pointers and are found through two hash tables, by number and by parent and name. A node stays
  as long as its reference counter is positive; it counts one for the kernel, when the kernel has looked it up, and one
  for each child. The result \<open>None\<close> is a failed assertion, an internal error that aborts, or the use of a
  pointer to no node. What the allocator returns is an argument: the pointer of a new node, and whether other memory can
  be had. Counters are unbounded. The fields of a node for attribute caching and open files are left out.
\<close>

unbundle bit_operations_syntax

abbreviation EBUSY :: int where "EBUSY \<equiv> 16"

type_synonym ptr = nat

record node =
  nd_nodeid :: u64
  nd_generation :: u32
  nd_refctr :: int
  nd_parent :: "ptr option"
  nd_name :: "string option"
  nd_nlookup :: nat
  nd_is_hidden :: bool
  nd_treelock :: int
  nd_forget_time :: timespec

record fuse =
  fu_heap :: "ptr \<Rightarrow> node option"
  name_table :: "ptr node_table"
  id_table :: "ptr node_table"
  lru_table :: "ptr list"
  fu_ctr :: u64
  fu_generation :: u32
  conf_remember :: int

definition FUSE_ROOT_ID :: u64 where "FUSE_ROOT_ID = 1"

definition FUSE_UNKNOWN_INO :: u64 where "FUSE_UNKNOWN_INO = 0xffffffff"

definition lru_enabled :: "fuse \<Rightarrow> bool" where
  "lru_enabled f \<longleftrightarrow> conf_remember f > 0"

text \<open>Writing through a pointer.\<close>

definition put_node :: "ptr \<Rightarrow> node \<Rightarrow> fuse \<Rightarrow> fuse" where
  "put_node p n f = f\<lparr>fu_heap := (fu_heap f)(p := Some n)\<rparr>"

section \<open>Hashing\<close>

definition id_key :: "u64 \<Rightarrow> nat" where
  "id_key ino = unat ((ucast ino :: u32) * 2654435761)"

definition name_key :: "u64 \<Rightarrow> string \<Rightarrow> nat" where
  "name_key parent name = unat (foldl (\<lambda>hash c. hash * 31 + of_nat (of_char c)) parent name)"

definition id_hash :: "fuse \<Rightarrow> u64 \<Rightarrow> nat" where
  "id_hash f ino = table_hash (id_table f) (id_key ino)"

definition name_hash :: "fuse \<Rightarrow> u64 \<Rightarrow> string \<Rightarrow> nat" where
  "name_hash f parent name = table_hash (name_table f) (name_key parent name)"

text \<open>The values the nodes in the tables are hashed by.\<close>

definition id_hv :: "fuse \<Rightarrow> ptr \<Rightarrow> nat" where
  "id_hv f p = (case fu_heap f p of None \<Rightarrow> 0 | Some n \<Rightarrow> id_key (nd_nodeid n))"

definition name_hv :: "fuse \<Rightarrow> ptr \<Rightarrow> nat" where
  "name_hv f p =
     (case fu_heap f p of
        None \<Rightarrow> 0
      | Some n \<Rightarrow>
          (case (nd_parent n, nd_name n) of
             (Some q, Some name) \<Rightarrow> (case fu_heap f q of None \<Rightarrow> 0 | Some m \<Rightarrow> name_key (nd_nodeid m) name)
           | _ \<Rightarrow> 0))"

definition has_id :: "fuse \<Rightarrow> u64 \<Rightarrow> ptr \<Rightarrow> bool" where
  "has_id f ino p \<longleftrightarrow> (case fu_heap f p of None \<Rightarrow> False | Some n \<Rightarrow> nd_nodeid n = ino)"

definition is_entry :: "fuse \<Rightarrow> u64 \<Rightarrow> string \<Rightarrow> ptr \<Rightarrow> bool" where
  "is_entry f parent name p \<longleftrightarrow>
     (case fu_heap f p of
        None \<Rightarrow> False
      | Some n \<Rightarrow> (case nd_parent n of None \<Rightarrow> False | Some q \<Rightarrow> has_id f parent q) \<and> nd_name n = Some name)"

definition get_node_nocheck :: "fuse \<Rightarrow> u64 \<Rightarrow> ptr option" where
  "get_node_nocheck f nodeid = find (has_id f nodeid) (nt_array (id_table f) ! id_hash f nodeid)"

definition get_node :: "fuse \<Rightarrow> u64 \<Rightarrow> ptr option" where
  "get_node f nodeid = (case get_node_nocheck f nodeid of None \<Rightarrow> None | Some node \<Rightarrow> Some node)"

definition lookup_node :: "fuse \<Rightarrow> u64 \<Rightarrow> string \<Rightarrow> ptr option" where
  "lookup_node f parent name = find (is_entry f parent name) (nt_array (name_table f) ! name_hash f parent name)"

definition unhash_id :: "fuse \<Rightarrow> ptr \<Rightarrow> fuse option" where
  "unhash_id f p =
     do {
       node \<leftarrow> fu_heap f p;
       Some (if p \<in> set (nt_array (id_table f) ! id_hash f (nd_nodeid node))
             then f\<lparr>id_table := table_unuse (table_unlink (id_hv f) p (id_table f))\<rparr> else f)
     }"

definition hash_id :: "bool \<Rightarrow> fuse \<Rightarrow> ptr \<Rightarrow> fuse" where
  "hash_id memory f p = f\<lparr>id_table := table_hash_in memory (id_hv f) p (id_table f)\<rparr>"

text \<open>\<open>unref\<close> is \<^verbatim>\<open>unref_node\<close>, which is defined after the two functions that call it.\<close>

definition unhash_name :: "(fuse \<times> ptr \<Rightarrow> fuse option) \<Rightarrow> fuse \<Rightarrow> ptr \<Rightarrow> fuse option" where
  "unhash_name unref f p =
     do {
       node \<leftarrow> fu_heap f p;
       case nd_name node of
         None \<Rightarrow> Some f
       | Some name \<Rightarrow>
           do {
             q \<leftarrow> nd_parent node;
             parent \<leftarrow> fu_heap f q;
             if p \<in> set (nt_array (name_table f) ! name_hash f (nd_nodeid parent) name)
             then do {
               f \<leftarrow> unref (f\<lparr>name_table := table_unlink (name_hv f) p (name_table f)\<rparr>, q);
               node \<leftarrow> fu_heap f p;
               let f = put_node p (node\<lparr>nd_name := None, nd_parent := None\<rparr>) f;
               Some (f\<lparr>name_table := table_unuse (name_table f)\<rparr>)
             }
             else None
           }
     }"

definition remove_node_lru :: "fuse \<Rightarrow> ptr \<Rightarrow> fuse" where
  "remove_node_lru f p = f\<lparr>lru_table := remove1 p (lru_table f)\<rparr>"

definition free_node :: "fuse \<Rightarrow> ptr \<Rightarrow> fuse" where
  "free_node f p = f\<lparr>fu_heap := (fu_heap f)(p := None)\<rparr>"

definition delete_node :: "(fuse \<times> ptr \<Rightarrow> fuse option) \<Rightarrow> fuse \<Rightarrow> ptr \<Rightarrow> fuse option" where
  "delete_node unref f p =
     do {
       node \<leftarrow> fu_heap f p;
       if nd_treelock node \<noteq> 0 then None
       else do {
         f \<leftarrow> unhash_name unref f p;
         let f = (if lru_enabled f then remove_node_lru f p else f);
         f \<leftarrow> unhash_id f p;
         Some (free_node f p)
       }
     }"

lemma unhash_name_mono [partial_function_mono]: "mono_option (\<lambda>unref. unhash_name unref f p)"
  unfolding unhash_name_def
proof (intro bind_mono, goal_cases)
  case (2 node)
  show ?case by (cases "nd_name node") (auto intro!: partial_function_mono simp: Let_def)
qed (rule option.const_mono)

lemma delete_node_mono [partial_function_mono]: "mono_option (\<lambda>unref. delete_node unref f p)"
  unfolding delete_node_def Let_def by (intro partial_function_mono bind_mono)

partial_function (option) unref_node :: "fuse \<times> ptr \<Rightarrow> fuse option" where
  "unref_node x =
     (case x of (f, p) \<Rightarrow>
        do {
          node \<leftarrow> fu_heap f p;
          if nd_refctr node > 0
          then let f = put_node p (node\<lparr>nd_refctr := nd_refctr node - 1\<rparr>) f
               in if nd_refctr node - 1 = 0 then delete_node unref_node f p else Some f
          else None
        })"

definition hash_name :: "bool \<Rightarrow> fuse \<Rightarrow> ptr \<Rightarrow> u64 \<Rightarrow> string \<Rightarrow> (int \<times> fuse) option" where
  "hash_name memory f p parentid name =
     do {
       q \<leftarrow> get_node f parentid;
       if 32 \<le> length name \<and> \<not> memory
       then do {
         node \<leftarrow> fu_heap f p;
         Some (- 1, put_node p (node\<lparr>nd_name := None\<rparr>) f)
       }
       else do {
         node \<leftarrow> fu_heap f p;
         let f = put_node p (node\<lparr>nd_name := Some name\<rparr>) f;
         parent \<leftarrow> fu_heap f q;
         let f = put_node q (parent\<lparr>nd_refctr := nd_refctr parent + 1\<rparr>) f;
         node \<leftarrow> fu_heap f p;
         let f = put_node p (node\<lparr>nd_parent := Some q\<rparr>) f;
         Some (0, f\<lparr>name_table := table_hash_in memory (name_hv f) p (name_table f)\<rparr>)
       }
     }"

partial_function (option) next_id :: "fuse \<Rightarrow> (u64 \<times> fuse) option" where
  "next_id f =
     (let f = f\<lparr>fu_ctr := (fu_ctr f + 1) AND 0xffffffff\<rparr>;
          f = (if fu_ctr f = 0 then f\<lparr>fu_generation := fu_generation f + 1\<rparr> else f)
      in if fu_ctr f = 0 \<or> fu_ctr f = FUSE_UNKNOWN_INO \<or> get_node_nocheck f (fu_ctr f) \<noteq> None then next_id f
         else Some (fu_ctr f, f))"

definition inc_nlookup :: "node \<Rightarrow> node" where
  "inc_nlookup node =
     (let node = (if nd_nlookup node = 0 then node\<lparr>nd_refctr := nd_refctr node + 1\<rparr> else node)
      in node\<lparr>nd_nlookup := nd_nlookup node + 1\<rparr>)"

definition zero_node :: node where
  "zero_node =
     \<lparr>nd_nodeid = 0, nd_generation = 0, nd_refctr = 0, nd_parent = None, nd_name = None, nd_nlookup = 0,
      nd_is_hidden = False, nd_treelock = 0, nd_forget_time = \<lparr>tv_sec = 0, tv_nsec = 0\<rparr>\<rparr>"

text \<open>
  \<open>alloc\<close> is the pointer \<^verbatim>\<open>alloc_node\<close> returns, to a node filled with zeroes. The pointer the caller gets is the first part
  of the result, \<open>None\<close> when memory has run out.
\<close>

definition find_node ::
    "ptr option \<Rightarrow> bool \<Rightarrow> fuse \<Rightarrow> u64 \<Rightarrow> string option \<Rightarrow> (ptr option \<times> fuse) option" where
  "find_node alloc memory f parent name =
     do {
       found \<leftarrow> (case name of None \<Rightarrow> map_option Some (get_node f parent) | Some name \<Rightarrow> Some (lookup_node f parent name));
       case found of
         Some p \<Rightarrow>
           do {
             node \<leftarrow> fu_heap f p;
             let f = (if lru_enabled f \<and> nd_nlookup node = 1 then remove_node_lru f p else f);
             Some (Some p, put_node p (inc_nlookup node) f)
           }
       | None \<Rightarrow>
           (case alloc of
              None \<Rightarrow> Some (None, f)
            | Some p \<Rightarrow>
                do {
                  (ino, f) \<leftarrow> next_id f;
                  let node = zero_node\<lparr>nd_nodeid := ino, nd_generation := fu_generation f\<rparr>;
                  let node = (if conf_remember f \<noteq> 0 then inc_nlookup node else node);
                  (err, f) \<leftarrow> hash_name memory (put_node p node f) p parent (the name);
                  if err = - 1 then Some (None, free_node f p)
                  else do {
                    let f = hash_id memory f p;
                    node \<leftarrow> fu_heap f p;
                    Some (Some p, put_node p (inc_nlookup node) f)
                  }
                })
     }"

definition set_forget_time :: "timespec \<Rightarrow> fuse \<Rightarrow> ptr \<Rightarrow> fuse option" where
  "set_forget_time now f p =
     do {
       node \<leftarrow> fu_heap f p;
       Some (put_node p (node\<lparr>nd_forget_time := now\<rparr>) (f\<lparr>lru_table := remove1 p (lru_table f) @ [p]\<rparr>))
     }"

text \<open>The first part of the result is \<open>False\<close> when the caller has to wait until the node is unlocked and try again.\<close>

definition forget_node :: "timespec \<Rightarrow> fuse \<Rightarrow> u64 \<Rightarrow> nat \<Rightarrow> (bool \<times> fuse) option" where
  "forget_node now f nodeid nlookup =
     (if nodeid = FUSE_ROOT_ID then Some (True, f)
      else do {
        p \<leftarrow> get_node f nodeid;
        node \<leftarrow> fu_heap f p;
        if nd_nlookup node = nlookup \<and> nd_treelock node \<noteq> 0 then Some (False, f)
        else if nd_nlookup node \<ge> nlookup
        then do {
          let node = node\<lparr>nd_nlookup := nd_nlookup node - nlookup\<rparr>;
          let f = put_node p node f;
          f \<leftarrow> (if nd_nlookup node = 0 then unref_node (f, p)
               else if lru_enabled f \<and> nd_nlookup node = 1 then set_forget_time now f p
               else Some f);
          Some (True, f)
        }
        else None
      })"

definition unlink_node :: "fuse \<Rightarrow> ptr \<Rightarrow> fuse option" where
  "unlink_node f p =
     do {
       node \<leftarrow> fu_heap f p;
       if conf_remember f \<noteq> 0
       then if nd_nlookup node > 1
            then unhash_name unref_node (put_node p (node\<lparr>nd_nlookup := nd_nlookup node - 1\<rparr>) f) p
            else None
       else unhash_name unref_node f p
     }"

definition remove_node :: "fuse \<Rightarrow> u64 \<Rightarrow> string \<Rightarrow> fuse option" where
  "remove_node f dir name = (case lookup_node f dir name of None \<Rightarrow> Some f | Some p \<Rightarrow> unlink_node f p)"

definition rename_node :: "bool \<Rightarrow> fuse \<Rightarrow> u64 \<Rightarrow> string \<Rightarrow> u64 \<Rightarrow> string \<Rightarrow> bool \<Rightarrow> (int \<times> fuse) option" where
  "rename_node memory f olddir oldname newdir newname hide =
     (case (lookup_node f olddir oldname, lookup_node f newdir newname) of
        (None, _) \<Rightarrow> Some (0, f)
      | (Some p, new) \<Rightarrow>
          if new \<noteq> None \<and> hide then Some (- EBUSY, f)
          else do {
            f \<leftarrow> (case new of None \<Rightarrow> Some f | Some newp \<Rightarrow> unlink_node f newp);
            f \<leftarrow> unhash_name unref_node f p;
            (err, f) \<leftarrow> hash_name memory f p newdir newname;
            if err = - 1 then Some (- ENOMEM, f)
            else do {
              node \<leftarrow> fu_heap f p;
              Some (0, if hide then put_node p (node\<lparr>nd_is_hidden := True\<rparr>) f else f)
            }
          })"

text \<open>The table of nodes a session starts with: the root, known to the kernel.\<close>

definition root_node :: node where
  "root_node = inc_nlookup (zero_node\<lparr>nd_name := Some ''/'', nd_nodeid := FUSE_ROOT_ID\<rparr>)"

definition fuse_new_nodes :: "ptr \<Rightarrow> int \<Rightarrow> bool \<Rightarrow> fuse" where
  "fuse_new_nodes p rem memory =
     hash_id memory
       \<lparr>fu_heap = (\<lambda>_. None)(p := Some root_node), name_table = node_table_init, id_table = node_table_init,
        lru_table = [], fu_ctr = 0, fu_generation = 0, conf_remember = rem\<rparr> p"

end
