(* ===== verification/Node_Counts.thy ===== *)
theory Node_Counts
  imports Nodes
begin

text \<open>
  The invariant of the node tables and counters, and that the operations on nodes preserve it. While a node is being
  taken out, its parent and name fields are no longer meant: \<open>D\<close> is the set of the nodes in this state. \<open>Z\<close> is the set
  of the nodes whose counter has reached zero and that are about to be freed. \<open>e\<close> is the number of references of a
  node that are still counted and about to be dropped. \<open>d\<close> is the depth of a node, or any other number that is smaller
  for its parent: there are no cycles.
\<close>

definition entries :: "ptr set \<Rightarrow> fuse \<Rightarrow> ptr set" where
  "entries D f = {p. p \<notin> D \<and> (\<exists>n. fu_heap f p = Some n \<and> nd_parent n \<noteq> None)}"

definition kids :: "ptr set \<Rightarrow> fuse \<Rightarrow> ptr \<Rightarrow> ptr set" where
  "kids D f q = {p. p \<notin> D \<and> (\<exists>n. fu_heap f p = Some n \<and> nd_parent n = Some q)}"

text \<open>Each node is in the table by number, each node with a parent in the table by name.\<close>

definition tables_ok :: "ptr set \<Rightarrow> fuse \<Rightarrow> bool" where
  "tables_ok D f \<longleftrightarrow> table_ok (id_hv f) (id_table f) \<and> table_nodes (id_table f) = mset_set (dom (fu_heap f))
     \<and> table_ok (name_hv f) (name_table f) \<and> table_nodes (name_table f) = mset_set (entries D f)"

text \<open>A parent exists. Only the root has a name and no parent.\<close>

definition node_ok :: "fuse \<Rightarrow> node \<Rightarrow> bool" where
  "node_ok f n \<longleftrightarrow>
     (case nd_parent n of
        None \<Rightarrow> nd_name n = None \<or> nd_nodeid n = FUSE_ROOT_ID
      | Some q \<Rightarrow> q \<in> dom (fu_heap f) \<and> nd_name n \<noteq> None \<and> nd_nodeid n \<noteq> FUSE_ROOT_ID)"

definition tree_ok :: "ptr set \<Rightarrow> fuse \<Rightarrow> bool" where
  "tree_ok D f \<longleftrightarrow> finite (dom (fu_heap f)) \<and> (\<forall>p n. fu_heap f p = Some n \<longrightarrow> p \<notin> D \<longrightarrow> node_ok f n)
     \<and> (\<forall>p q n m. fu_heap f p = Some n \<longrightarrow> fu_heap f q = Some m \<longrightarrow> nd_nodeid n = nd_nodeid m \<longrightarrow> p = q)
     \<and> (\<forall>p q n m. fu_heap f p = Some n \<longrightarrow> fu_heap f q = Some m \<longrightarrow> p \<notin> D \<longrightarrow> q \<notin> D \<longrightarrow> nd_parent n \<noteq> None
          \<longrightarrow> nd_parent n = nd_parent m \<longrightarrow> nd_name n = nd_name m \<longrightarrow> p = q)"

definition root_ok :: "fuse \<Rightarrow> bool" where
  "root_ok f \<longleftrightarrow> (\<exists>p n. fu_heap f p = Some n \<and> nd_nodeid n = FUSE_ROOT_ID \<and> nd_nlookup n > 0)"

text \<open>The counter of a node is one for the kernel, one for each child, and what is about to be dropped.\<close>

definition count_ok :: "ptr set \<Rightarrow> ptr set \<Rightarrow> (ptr \<Rightarrow> nat) \<Rightarrow> fuse \<Rightarrow> ptr \<Rightarrow> node \<Rightarrow> bool" where
  "count_ok D Z e f p n \<longleftrightarrow> nd_refctr n = of_bool (nd_nlookup n > 0) + int (card (kids D f p)) + int (e p)
     \<and> (p \<in> Z \<longleftrightarrow> nd_refctr n = 0)"

definition counts_ok :: "ptr set \<Rightarrow> ptr set \<Rightarrow> (ptr \<Rightarrow> nat) \<Rightarrow> fuse \<Rightarrow> bool" where
  "counts_ok D Z e f \<longleftrightarrow> (\<forall>p n. fu_heap f p = Some n \<longrightarrow> count_ok D Z e f p n)"

definition ranked :: "(ptr \<Rightarrow> nat) \<Rightarrow> ptr set \<Rightarrow> fuse \<Rightarrow> bool" where
  "ranked d D f \<longleftrightarrow> (\<forall>p n q. fu_heap f p = Some n \<longrightarrow> p \<notin> D \<longrightarrow> nd_parent n = Some q \<longrightarrow> d q < d p)"

definition nodes_inv :: "(ptr \<Rightarrow> nat) \<Rightarrow> ptr set \<Rightarrow> ptr set \<Rightarrow> (ptr \<Rightarrow> nat) \<Rightarrow> fuse \<Rightarrow> bool" where
  "nodes_inv d D Z e f \<longleftrightarrow> tables_ok D f \<and> tree_ok D f \<and> root_ok f \<and> counts_ok D Z e f \<and> ranked d D f"

text \<open>Nodes the kernel does not refer to are not locked.\<close>

definition idle :: "fuse \<Rightarrow> bool" where
  "idle f \<longleftrightarrow> (\<forall>p n. fu_heap f p = Some n \<longrightarrow> nd_nlookup n = 0 \<longrightarrow> nd_treelock n = 0)"

section \<open>Looking up\<close>

lemma id_hv_has_id: "has_id f ino p \<Longrightarrow> id_hv f p = id_key ino"
  by (auto simp: has_id_def id_hv_def split: option.splits)

lemma name_hv_is_entry: "is_entry f parent name p \<Longrightarrow> name_hv f p = name_key parent name"
  by (auto simp: has_id_def is_entry_def name_hv_def split: option.splits)

lemma get_node_find: "get_node f ino = table_find (id_key ino) (has_id f ino) (id_table f)"
  by (simp add: get_node_def get_node_nocheck_def id_hash_def table_find_def split: option.splits)

lemma lookup_node_find: "lookup_node f parent name = table_find (name_key parent name) (is_entry f parent name) (name_table f)"
  by (simp add: lookup_node_def name_hash_def table_find_def)

lemma nodes_inv_finite:
  assumes "nodes_inv d D Z e f"
  shows "finite (dom (fu_heap f))" "finite (entries D f)" "finite (kids D f q)"
proof -
  show fin: "finite (dom (fu_heap f))" using assms by (simp add: nodes_inv_def tree_ok_def)
  show "finite (entries D f)" "finite (kids D f q)"
    by (auto intro: finite_subset [OF _ fin] simp: entries_def kids_def dom_def)
qed

text \<open>The node of a number, and the node of a name in a parent, are found exactly when they exist.\<close>

lemma get_node_iff:
  assumes inv: "nodes_inv d D Z e f"
  shows "get_node f ino = Some p \<longleftrightarrow> has_id f ino p"
proof -
  have ok: "table_ok (id_hv f) (id_table f)" and nodes: "\<And>x. x \<in># table_nodes (id_table f) \<longleftrightarrow> x \<in> dom (fu_heap f)"
    using inv nodes_inv_finite(1) [OF inv] by (auto simp: nodes_inv_def tables_ok_def)
  have uniq: "x = y" if "has_id f ino x" "has_id f ino y" for x y
    using inv that by (auto simp: nodes_inv_def tree_ok_def has_id_def split: option.splits)
  have dom: "x \<in># table_nodes (id_table f)" if "has_id f ino x" for x
    using that nodes by (auto simp: has_id_def split: option.splits)
  have none: "get_node f ino = None \<longleftrightarrow> (\<forall>x. x \<in># table_nodes (id_table f) \<longrightarrow> \<not> has_id f ino x)"
    unfolding get_node_find by (rule table_find_None [OF ok id_hv_has_id])
  show ?thesis
  proof
    assume "get_node f ino = Some p"
    then show "has_id f ino p" using table_find_Some(2) [OF ok] by (simp add: get_node_find)
  next
    assume p: "has_id f ino p"
    then have "get_node f ino \<noteq> None" using none dom by blast
    then obtain q where "get_node f ino = Some q" by blast
    moreover from this have "has_id f ino q" using table_find_Some(2) [OF ok] by (simp add: get_node_find)
    ultimately show "get_node f ino = Some p" using uniq p by blast
  qed
qed

lemma lookup_node_iff:
  assumes inv: "nodes_inv d D Z e f"
  shows "lookup_node f parent name = Some p \<longleftrightarrow> p \<notin> D \<and> is_entry f parent name p"
proof -
  have ok: "table_ok (name_hv f) (name_table f)" and nodes: "\<And>x. x \<in># table_nodes (name_table f) \<longleftrightarrow> x \<in> entries D f"
    using inv nodes_inv_finite(2) [OF inv] by (auto simp: nodes_inv_def tables_ok_def)
  have uniq: "x = y" if "x \<notin> D" "y \<notin> D" "is_entry f parent name x" "is_entry f parent name y" for x y
    using inv that by (auto simp: nodes_inv_def tree_ok_def is_entry_def has_id_def split: option.splits)
  have entry: "x \<in># table_nodes (name_table f)" if "x \<notin> D" "is_entry f parent name x" for x
    using that nodes by (auto simp: is_entry_def entries_def split: option.splits)
  have none: "lookup_node f parent name = None \<longleftrightarrow> (\<forall>x. x \<in># table_nodes (name_table f) \<longrightarrow> \<not> is_entry f parent name x)"
    unfolding lookup_node_find by (rule table_find_None [OF ok name_hv_is_entry])
  have found: "q \<notin> D \<and> is_entry f parent name q" if "lookup_node f parent name = Some q" for q
    using table_find_Some [OF ok, of "name_key parent name"] that nodes by (auto simp: lookup_node_find entries_def)
  show ?thesis
  proof
    assume p: "p \<notin> D \<and> is_entry f parent name p"
    then obtain q where "lookup_node f parent name = Some q" using none entry by blast
    then show "lookup_node f parent name = Some p" using uniq found p by blast
  qed (rule found)
qed

section \<open>Changing a node\<close>

lemma put_node_simps [simp]:
  "fu_heap (put_node p n f) = (fu_heap f)(p := Some n)" "name_table (put_node p n f) = name_table f"
  "id_table (put_node p n f) = id_table f" "conf_remember (put_node p n f) = conf_remember f"
  "lru_table (put_node p n f) = lru_table f" "fu_ctr (put_node p n f) = fu_ctr f"
  "fu_generation (put_node p n f) = fu_generation f"
  by (simp_all add: put_node_def)

definition same_links :: "node \<Rightarrow> node \<Rightarrow> bool" where
  "same_links n n' \<longleftrightarrow> nd_nodeid n' = nd_nodeid n \<and> nd_parent n' = nd_parent n \<and> nd_name n' = nd_name n"

lemma hv_cong:
  assumes "fu_heap f' = fu_heap f"
  shows "id_hv f' = id_hv f" "name_hv f' = name_hv f" "entries D f' = entries D f" "kids D f' = kids D f"
    "node_ok f' = node_ok f" "has_id f' = has_id f" "is_entry f' = is_entry f"
  by (auto simp: assms id_hv_def name_hv_def entries_def kids_def node_ok_def has_id_def is_entry_def fun_eq_iff
        split: option.splits)

lemma same_links_put:
  assumes "fu_heap f p = Some n" "same_links n n'"
  shows "id_hv (put_node p n' f) = id_hv f" "name_hv (put_node p n' f) = name_hv f"
    "entries D (put_node p n' f) = entries D f" "kids D (put_node p n' f) = kids D f"
    "node_ok (put_node p n' f) = node_ok f" "dom (fu_heap (put_node p n' f)) = dom (fu_heap f)"
  using assms
  by (auto simp: same_links_def id_hv_def name_hv_def entries_def kids_def node_ok_def fun_eq_iff split: option.splits)

lemma node_ok_links: "same_links n n' \<Longrightarrow> node_ok f n' = node_ok f n"
  by (auto simp: same_links_def node_ok_def split: option.splits)

lemma tree_ok_put:
  assumes "tree_ok D f" "fu_heap f p = Some n" "same_links n n'"
  shows "tree_ok D (put_node p n' f)"
proof -
  have links: "\<exists>m. fu_heap f x = Some m \<and> same_links m m'" if "fu_heap (put_node p n' f) x = Some m'" for x m'
    using that assms(2,3) by (cases "x = p") (auto simp: same_links_def)
  have "finite (dom (fu_heap (put_node p n' f)))" using assms by (simp add: tree_ok_def)
  moreover have "node_ok (put_node p n' f) m'" if "fu_heap (put_node p n' f) x = Some m'" "x \<notin> D" for x m'
    using links [OF that(1)] that(2) assms(1) node_ok_links same_links_put(5) [OF assms(2,3)] unfolding tree_ok_def by metis
  moreover have "x = y" if "fu_heap (put_node p n' f) x = Some m" "fu_heap (put_node p n' f) y = Some m'"
    "nd_nodeid m = nd_nodeid m'" for x y m m'
    using links [OF that(1)] links [OF that(2)] that(3) assms(1) unfolding tree_ok_def same_links_def by metis
  moreover have "x = y" if "fu_heap (put_node p n' f) x = Some m" "fu_heap (put_node p n' f) y = Some m'"
    "x \<notin> D" "y \<notin> D" "nd_parent m \<noteq> None" "nd_parent m = nd_parent m'" "nd_name m = nd_name m'" for x y m m'
    using links [OF that(1)] links [OF that(2)] that(3-7) assms(1) unfolding tree_ok_def same_links_def by metis
  ultimately show ?thesis unfolding tree_ok_def by blast
qed

text \<open>A change of the counters and flags of one node.\<close>

lemma nodes_inv_put:
  assumes inv: "nodes_inv d D Z e f" and n: "fu_heap f p = Some n" and links: "same_links n n'"
    and root: "nd_nodeid n = FUSE_ROOT_ID \<Longrightarrow> nd_nlookup n' > 0"
    and cnt: "count_ok D Z' e' f p n'" and other: "\<And>x. x \<noteq> p \<Longrightarrow> (x \<in> Z' \<longleftrightarrow> x \<in> Z) \<and> e' x = e x"
  shows "nodes_inv d D Z' e' (put_node p n' f)"
proof -
  note same = same_links_put [OF n links]
  have "tables_ok D (put_node p n' f)" using inv by (simp add: nodes_inv_def tables_ok_def same del: put_node_simps(1))
  moreover have "tree_ok D (put_node p n' f)" using inv tree_ok_put [OF _ n links] by (simp add: nodes_inv_def)
  moreover have "root_ok (put_node p n' f)"
  proof -
    obtain x m where "fu_heap f x = Some m" "nd_nodeid m = FUSE_ROOT_ID" "nd_nlookup m > 0"
      using inv by (auto simp: nodes_inv_def root_ok_def)
    then show ?thesis using root links n
      by (cases "x = p") (auto simp: root_ok_def same_links_def intro: exI [of _ x])
  qed
  moreover have "counts_ok D Z' e' (put_node p n' f)"
    using inv cnt other by (auto simp: nodes_inv_def counts_ok_def count_ok_def same)
  moreover have "ranked d D (put_node p n' f)"
    using inv n links by (auto simp: nodes_inv_def ranked_def same_links_def)
  ultimately show ?thesis by (simp add: nodes_inv_def)
qed

section \<open>Taking a node out\<close>

lemma table_cong_in:
  assumes "table_ok h t" "table_nodes t = mset_set S" "finite S" "\<And>x. x \<in> S \<Longrightarrow> h' x = h x"
  shows "table_ok h' t"
  by (rule table_ok_cong [OF assms(1)]) (use assms in auto)

lemma root_ok_mono:
  assumes "root_ok f" "\<And>x n. fu_heap f x = Some n \<Longrightarrow> nd_nodeid n = FUSE_ROOT_ID \<Longrightarrow> nd_nlookup n > 0
      \<Longrightarrow> \<exists>n'. fu_heap f' x = Some n' \<and> nd_nodeid n' = FUSE_ROOT_ID \<and> nd_nlookup n' > 0"
  shows "root_ok f'"
  using assms unfolding root_ok_def by metis

text \<open>The name is taken out of the table: the parent now has one reference too many.\<close>

lemma unlink_step:
  assumes inv: "nodes_inv d D Z e f" and p: "p \<notin> D" "fu_heap f p = Some n" "nd_parent n = Some q"
  shows "nodes_inv d (insert p D) Z (e(q := Suc (e q))) (f\<lparr>name_table := table_unlink (name_hv f) p (name_table f)\<rparr>)"
proof -
  let ?f = "f\<lparr>name_table := table_unlink (name_hv f) p (name_table f)\<rparr>"
  have heap: "fu_heap ?f = fu_heap f" by simp
  note cong = hv_cong [OF heap]
  have fin: "finite (entries D f)" "\<And>q. finite (kids D f q)" using nodes_inv_finite(2,3) [OF inv] by auto
  have tok: "table_ok (name_hv f) (name_table f)" "table_nodes (name_table f) = mset_set (entries D f)"
    using inv by (auto simp: nodes_inv_def tables_ok_def)
  have "entries (insert p D) f = entries D f - {p}" "p \<in> entries D f" using p by (auto simp: entries_def)
  then have "tables_ok (insert p D) ?f"
    using inv table_unlink_ok [OF tok(1), of p] tok(2) fin(1)
    by (simp add: nodes_inv_def tables_ok_def cong mset_set_Diff)
  moreover have "tree_ok (insert p D) ?f"
    using inv unfolding nodes_inv_def tree_ok_def cong(5) heap by blast
  moreover have "root_ok ?f" using inv by (simp add: nodes_inv_def root_ok_def)
  moreover have "counts_ok (insert p D) Z (e(q := Suc (e q))) ?f"
  proof -
    have "kids (insert p D) f x = (if x = q then kids D f x - {p} else kids D f x)" "p \<in> kids D f q" for x
      using p by (auto simp: kids_def)
    then have "int (card (kids (insert p D) f x)) + int ((e(q := Suc (e q))) x) = int (card (kids D f x)) + int (e x)" for x
      using fin(2) [of q] card_Suc_Diff1 [OF fin(2) [of q], of p] by auto
    then show ?thesis using inv by (auto simp: nodes_inv_def counts_ok_def count_ok_def cong)
  qed
  moreover have "ranked d (insert p D) ?f" using inv by (auto simp: nodes_inv_def ranked_def)
  ultimately show ?thesis by (simp add: nodes_inv_def)
qed

text \<open>The fields of the node that was taken out are cleared.\<close>

lemma clear_step:
  assumes inv: "nodes_inv d (insert p D) Z e f" and p: "p \<notin> D" "fu_heap f p = Some n"
  shows "nodes_inv d D Z e (put_node p (n\<lparr>nd_name := None, nd_parent := None\<rparr>) f)"
proof -
  let ?n = "n\<lparr>nd_name := None, nd_parent := None\<rparr>" and ?f = "put_node p (n\<lparr>nd_name := None, nd_parent := None\<rparr>) f"
  have ids: "id_hv ?f = id_hv f" using p(2) by (auto simp: id_hv_def fun_eq_iff)
  have names: "name_hv ?f x = name_hv f x" if "x \<noteq> p" for x
    using p(2) that by (auto simp: name_hv_def split: option.splits)
  have sets: "entries D ?f = entries (insert p D) f" "kids D ?f = kids (insert p D) f"
    using p by (auto simp: entries_def kids_def fun_eq_iff)
  have dom: "dom (fu_heap ?f) = dom (fu_heap f)" using p by auto
  have nok: "node_ok ?f m" if "node_ok f m" for m using that p(2) by (auto simp: node_ok_def split: option.splits)
  have "table_ok (name_hv ?f) (name_table f)"
    by (rule table_cong_in [of "name_hv f" _ "entries (insert p D) f"])
      (use inv nodes_inv_finite(2) [OF inv] names in \<open>auto simp: nodes_inv_def tables_ok_def entries_def\<close>)
  then have "tables_ok D ?f" using inv by (simp add: nodes_inv_def tables_ok_def ids sets dom del: put_node_simps(1))
  moreover have "tree_ok D ?f"
  proof -
    have "node_ok ?f m" if "fu_heap ?f x = Some m" "x \<notin> D" for x m
      using that inv nok by (cases "x = p") (auto simp: nodes_inv_def tree_ok_def node_ok_def)
    moreover have "x = y" if "fu_heap ?f x = Some m" "fu_heap ?f y = Some m'" "nd_nodeid m = nd_nodeid m'" for x y m m'
    proof -
      have "\<exists>k. fu_heap f z = Some k \<and> nd_nodeid k = nd_nodeid l" if "fu_heap ?f z = Some l" for z l
        using that p(2) by (cases "z = p") auto
      then show ?thesis using that inv unfolding nodes_inv_def tree_ok_def by metis
    qed
    moreover have "x = y" if "fu_heap ?f x = Some m" "fu_heap ?f y = Some m'" "x \<notin> D" "y \<notin> D"
      "nd_parent m \<noteq> None" "nd_parent m = nd_parent m'" "nd_name m = nd_name m'" for x y m m'
    proof -
      have "x \<noteq> p" "y \<noteq> p" using that by (auto split: if_splits)
      then show ?thesis using that inv unfolding nodes_inv_def tree_ok_def by auto
    qed
    moreover have "finite (dom (fu_heap ?f))" unfolding dom by (rule nodes_inv_finite(1) [OF inv])
    ultimately show ?thesis unfolding tree_ok_def by blast
  qed
  moreover have "root_ok ?f"
    by (rule root_ok_mono [of f]) (use inv p(2) in \<open>auto simp: nodes_inv_def\<close>)
  moreover have "counts_ok D Z e ?f" using inv p(2) by (auto simp: nodes_inv_def counts_ok_def count_ok_def sets)
  moreover have "ranked d D ?f" using inv by (auto simp: nodes_inv_def ranked_def)
  ultimately show ?thesis by (simp add: nodes_inv_def)
qed

text \<open>Operations on the tables that keep their nodes.\<close>

lemma nodes_inv_tables:
  assumes inv: "nodes_inv d D Z e f" and same: "fu_heap f' = fu_heap f"
    and tabs: "table_ok (id_hv f) (id_table f')" "table_nodes (id_table f') = table_nodes (id_table f)"
    "table_ok (name_hv f) (name_table f')" "table_nodes (name_table f') = table_nodes (name_table f)"
  shows "nodes_inv d D Z e f'"
proof -
  note cong = same hv_cong [OF same]
  have "tree_ok D f' = tree_ok D f" "root_ok f' = root_ok f" "counts_ok D Z e f' = counts_ok D Z e f" "ranked d D f' = ranked d D f"
    by (simp_all only: tree_ok_def root_ok_def counts_ok_def count_ok_def ranked_def cong)
  then show ?thesis using inv tabs by (simp add: nodes_inv_def tables_ok_def cong)
qed

lemma unuse_step:
  assumes inv: "nodes_inv d D Z e f"
  shows "nodes_inv d D Z e (f\<lparr>name_table := table_unuse (name_table f)\<rparr>)"
proof -
  have "table_ok (name_hv f) (name_table f)" using inv by (simp add: nodes_inv_def tables_ok_def)
  from table_unuse_ok [OF this] show ?thesis
    by (intro nodes_inv_tables [OF inv]) (use inv in \<open>auto simp: nodes_inv_def tables_ok_def\<close>)
qed

lemma no_kids:
  assumes inv: "nodes_inv d D Z e f" and p: "fu_heap f p = Some n" "p \<in> Z"
  shows "kids D f p = {}" "nd_nlookup n = 0" "e p = 0" "nd_refctr n = 0"
proof -
  have "count_ok D Z e f p n" using inv p by (simp add: nodes_inv_def counts_ok_def)
  then have "of_bool (nd_nlookup n > 0) + int (card (kids D f p)) + int (e p) = 0" "nd_refctr n = 0"
    using p(2) by (auto simp: count_ok_def)
  moreover from this have "nd_nlookup n = 0 \<and> card (kids D f p) = 0 \<and> e p = 0"
    by (cases "nd_nlookup n > 0") auto
  ultimately show "kids D f p = {}" "nd_nlookup n = 0" "e p = 0" "nd_refctr n = 0"
    using nodes_inv_finite(3) [OF inv, of p] by auto
qed

text \<open>A node without references is taken out of the table by number and freed.\<close>

lemma free_step:
  assumes inv: "nodes_inv d D Z e f" and p: "fu_heap f p = Some n" "p \<in> Z" "p \<notin> D" "nd_parent n = None"
  shows "\<exists>f'. unhash_id f p = Some f' \<and> nodes_inv d D (Z - {p}) e (free_node f' p)
    \<and> fu_heap (free_node f' p) = (fu_heap f)(p := None) \<and> conf_remember (free_node f' p) = conf_remember f"
proof -
  note zero = no_kids [OF inv p(1,2)] and fin = nodes_inv_finite [OF inv]
  let ?t = "table_unuse (table_unlink (id_hv f) p (id_table f))"
  let ?f = "free_node (f\<lparr>id_table := ?t\<rparr>) p"
  have tok: "table_ok (id_hv f) (id_table f)" "table_nodes (id_table f) = mset_set (dom (fu_heap f))"
    "table_ok (name_hv f) (name_table f)" "table_nodes (name_table f) = mset_set (entries D f)"
    using inv by (auto simp: nodes_inv_def tables_ok_def)
  have "p \<in># table_nodes (id_table f)" using p(1) fin(1) tok(2) by auto
  then have "p \<in> set (nt_array (id_table f) ! id_hash f (nd_nodeid n))"
    using table_nodes_iff [OF tok(1)] p(1) by (simp add: id_hv_def id_hash_def)
  then have eq: "unhash_id f p = Some (f\<lparr>id_table := ?t\<rparr>)" using p(1) by (simp add: unhash_id_def)
  have heap: "fu_heap ?f = (fu_heap f)(p := None)" by (simp add: free_node_def)
  have tabs: "id_table ?f = ?t" "name_table ?f = name_table f" by (simp_all add: free_node_def)
  have dom: "dom (fu_heap ?f) = dom (fu_heap f) - {p}" by (auto simp: heap)
  have noparent: "nd_parent m \<noteq> Some p" if "fu_heap f x = Some m" "x \<notin> D" for x m
    using zero(1) that by (auto simp: kids_def)
  have sets: "entries D ?f = entries D f" "\<And>x. x \<noteq> p \<Longrightarrow> kids D ?f x = kids D f x"
    using p by (auto simp: entries_def kids_def heap)
  have nok: "node_ok ?f m" if "fu_heap f x = Some m" "x \<notin> D" "node_ok f m" for x m
    using that noparent [OF that(1,2)] by (auto simp: node_ok_def heap split: option.splits)
  have names: "name_hv ?f x = name_hv f x" if "x \<in> entries D f" for x
    using that noparent [of x] p(4) by (auto simp: entries_def name_hv_def heap p(1) split: option.splits)
  have ids: "id_hv ?f x = id_hv f x" if "x \<noteq> p" for x using that by (simp add: id_hv_def heap)
  have less: "mset_set (dom (fu_heap f) - {p}) = mset_set (dom (fu_heap f)) - {#p#}"
    using mset_set_Diff [OF fin(1), of "{p}"] p(1) by auto
  have t: "table_ok (id_hv f) ?t" "table_nodes ?t = mset_set (dom (fu_heap f) - {p})"
    using table_unlink_ok [OF tok(1), of p] table_unuse_ok [of "id_hv f"] tok(2)
    by (auto simp: less)
  have "table_ok (id_hv ?f) ?t" by (rule table_cong_in [OF t]) (use fin(1) ids in auto)
  moreover have "table_ok (name_hv ?f) (name_table f)" by (rule table_cong_in [OF tok(3,4) fin(2) names])
  ultimately have "tables_ok D ?f" unfolding tables_ok_def tabs dom sets(1) using t(2) tok(4) by simp
  moreover have "tree_ok D ?f"
  proof -
    have sub: "fu_heap f x = Some m" if "fu_heap ?f x = Some m" for x m using that by (auto simp: heap split: if_splits)
    have "finite (dom (fu_heap ?f))" unfolding dom using fin(1) by simp
    moreover have "node_ok ?f m" if "fu_heap ?f x = Some m" "x \<notin> D" for x m
      using sub [OF that(1)] that(2) inv nok unfolding nodes_inv_def tree_ok_def by blast
    moreover have "x = y" if "fu_heap ?f x = Some m" "fu_heap ?f y = Some m'" "nd_nodeid m = nd_nodeid m'" for x y m m'
      using sub [OF that(1)] sub [OF that(2)] that(3) inv unfolding nodes_inv_def tree_ok_def by metis
    moreover have "x = y" if "fu_heap ?f x = Some m" "fu_heap ?f y = Some m'" "x \<notin> D" "y \<notin> D"
      "nd_parent m \<noteq> None" "nd_parent m = nd_parent m'" "nd_name m = nd_name m'" for x y m m'
      using sub [OF that(1)] sub [OF that(2)] that(3-) inv unfolding nodes_inv_def tree_ok_def by metis
    ultimately show ?thesis unfolding tree_ok_def by blast
  qed
  moreover have "root_ok ?f"
    by (rule root_ok_mono [of f]) (use inv p(1) zero(2) in \<open>auto simp: nodes_inv_def heap\<close>)
  moreover have "counts_ok D (Z - {p}) e ?f"
    using inv sets(2) by (auto simp: nodes_inv_def counts_ok_def count_ok_def heap)
  moreover have "ranked d D ?f" using inv by (auto simp: nodes_inv_def ranked_def heap)
  ultimately have "nodes_inv d D (Z - {p}) e ?f" by (simp add: nodes_inv_def)
  then show ?thesis using eq heap by (simp add: free_node_def)
qed

text \<open>
  What dropping references changes besides: nodes above a depth stay, a node that stays keeps all but its counter, and
  a node the kernel refers to stays.
\<close>

definition cascade :: "(ptr \<Rightarrow> nat) \<Rightarrow> nat \<Rightarrow> fuse \<Rightarrow> fuse \<Rightarrow> bool" where
  "cascade d k f f' \<longleftrightarrow> (\<forall>x. k < d x \<longrightarrow> fu_heap f' x = fu_heap f x)
     \<and> (\<forall>x n'. fu_heap f' x = Some n' \<longrightarrow> (\<exists>n. fu_heap f x = Some n \<and> n' = n\<lparr>nd_refctr := nd_refctr n'\<rparr>))
     \<and> (\<forall>x n. fu_heap f x = Some n \<longrightarrow> nd_nlookup n > 0 \<longrightarrow> fu_heap f' x \<noteq> None)
     \<and> conf_remember f' = conf_remember f"

lemma cascade_idle: "cascade d k f f' \<Longrightarrow> idle f \<Longrightarrow> idle f'"
  unfolding cascade_def idle_def by (metis node.select_convs(6,8) node.surjective node.update_convs(3))

lemma id_unique:
  assumes "nodes_inv d D Z e f" "fu_heap f x = Some n" "fu_heap f y = Some m" "nd_nodeid n = nd_nodeid m"
  shows "x = y"
  using assms unfolding nodes_inv_def tree_ok_def by blast

lemma root_known:
  assumes inv: "nodes_inv d D Z e f" and p: "fu_heap f p = Some n" "nd_nodeid n = FUSE_ROOT_ID"
  shows "nd_nlookup n > 0"
proof -
  obtain x m where "fu_heap f x = Some m" "nd_nodeid m = FUSE_ROOT_ID" "nd_nlookup m > 0"
    using inv by (auto simp: nodes_inv_def root_ok_def)
  then show ?thesis using id_unique [OF inv p(1), of x m] p by auto
qed

lemma cascadeD:
  assumes "cascade d k f f'"
  shows "k < d x \<Longrightarrow> fu_heap f' x = fu_heap f x"
    "fu_heap f' x = Some n' \<Longrightarrow> \<exists>n. fu_heap f x = Some n \<and> n' = n\<lparr>nd_refctr := nd_refctr n'\<rparr>"
    "fu_heap f x = Some n \<Longrightarrow> nd_nlookup n > 0 \<Longrightarrow> \<exists>n'. fu_heap f' x = Some n'"
    "conf_remember f' = conf_remember f"
  using assms unfolding cascade_def by blast+

lemma cascade_trans:
  assumes "cascade d k f g" "cascade d k' g f'" "k' \<le> k"
  shows "cascade d k f f'"
proof -
  have "\<exists>n. fu_heap f x = Some n \<and> n' = n\<lparr>nd_refctr := nd_refctr n'\<rparr>" if n': "fu_heap f' x = Some n'" for x n'
  proof -
    obtain m where m: "fu_heap g x = Some m" "n' = m\<lparr>nd_refctr := nd_refctr n'\<rparr>"
      using cascadeD(2) [OF assms(2) n'] by blast
    obtain n where "fu_heap f x = Some n" "m = n\<lparr>nd_refctr := nd_refctr m\<rparr>" using cascadeD(2) [OF assms(1) m(1)] by blast
    then show ?thesis using m(2) by (metis node.surjective node.update_convs(3))
  qed
  moreover have "fu_heap f' x \<noteq> None" if n: "fu_heap f x = Some n" "nd_nlookup n > 0" for x n
  proof -
    obtain m where m: "fu_heap g x = Some m" using cascadeD(3) [OF assms(1) n] by blast
    then obtain n0 where "fu_heap f x = Some n0" "m = n0\<lparr>nd_refctr := nd_refctr m\<rparr>"
      using assms(1) unfolding cascade_def by blast
    then have "nd_nlookup m > 0" using n by (cases m, cases n) auto
    then show ?thesis using assms(2) m unfolding cascade_def by blast
  qed
  ultimately show ?thesis using assms unfolding cascade_def by auto
qed

lemma cascade_refctr:
  "fu_heap f p = Some n \<Longrightarrow> cascade d (d p) f (put_node p (n\<lparr>nd_refctr := r\<rparr>) f)"
  by (auto simp: cascade_def)

lemma cascade_free:
  assumes c: "cascade d k f h" and k: "k \<le> d p" and p: "fu_heap f p = Some n" "nd_nlookup n = 0"
    and g: "fu_heap g = (fu_heap h)(p := None)" "conf_remember g = conf_remember f"
  shows "cascade d (d p) f g"
proof -
  have "fu_heap g x = fu_heap f x" if "d p < d x" for x
    using that cascadeD(1) [OF c, of x] k g(1) by auto
  moreover have "\<exists>n. fu_heap f x = Some n \<and> n' = n\<lparr>nd_refctr := nd_refctr n'\<rparr>" if "fu_heap g x = Some n'" for x n'
    by (rule cascadeD(2) [OF c]) (use that g(1) in \<open>auto split: if_splits\<close>)
  moreover have "fu_heap g x \<noteq> None" if "fu_heap f x = Some m" "nd_nlookup m > 0" for x m
    using cascadeD(3) [OF c that] that p g(1) by auto
  ultimately show ?thesis using g(2) by (simp add: cascade_def)
qed

lemma in_name_bucket:
  assumes inv: "nodes_inv d D Z e f" and p: "p \<notin> D" "fu_heap f p = Some n" "nd_parent n = Some q" "nd_name n = Some name"
    "fu_heap f q = Some m"
  shows "p \<in> set (nt_array (name_table f) ! Nodes.name_hash f (nd_nodeid m) name)"
proof -
  have tok: "table_ok (name_hv f) (name_table f)" "table_nodes (name_table f) = mset_set (entries D f)"
    using inv by (auto simp: nodes_inv_def tables_ok_def)
  have "p \<in># table_nodes (name_table f)" using p nodes_inv_finite(2) [OF inv] tok(2) by (auto simp: entries_def)
  then show ?thesis using table_nodes_iff [OF tok(1)] p by (simp add: name_hv_def Nodes.name_hash_def)
qed

lemma parent_exists:
  assumes "nodes_inv d D Z e f" "p \<notin> D" "fu_heap f p = Some n" "nd_parent n = Some q"
  shows "\<exists>m name. fu_heap f q = Some m \<and> nd_name n = Some name \<and> d q < d p \<and> q \<noteq> p"
proof -
  have "node_ok f n" "d q < d p" using assms by (auto simp: nodes_inv_def tree_ok_def ranked_def)
  then show ?thesis using assms(4) by (auto simp: node_ok_def)
qed

text \<open>
  Taking the name of a node away: when dropping the reference to the parent works, the invariant holds again, and the
  node has neither parent nor name.
\<close>

lemma unhash_name_ok:
  assumes inv: "nodes_inv d D Z e f" and p: "p \<notin> D" "fu_heap f p = Some n" "nd_parent n = Some q"
    and unref: "\<And>f. nodes_inv d (insert p D) Z (e(q := Suc (e q))) f \<Longrightarrow> q \<in> dom (fu_heap f) \<Longrightarrow> q \<notin> insert p D \<Longrightarrow> idle f
      \<Longrightarrow> \<exists>f'. unref (f, q) = Some f' \<and> nodes_inv d (insert p D) Z e f' \<and> cascade d (d q) f f'"
    and D: "q \<notin> D" and idle: "idle f"
  shows "\<exists>g f'. unhash_name unref f p = Some f' \<and> nodes_inv d D Z e f' \<and> cascade d (d q) f g
    \<and> fu_heap f' = (fu_heap g)(p := Some (n\<lparr>nd_name := None, nd_parent := None\<rparr>)) \<and> conf_remember f' = conf_remember f"
proof -
  obtain m name where q: "fu_heap f q = Some m" "nd_name n = Some name" "d q < d p" "q \<noteq> p"
    using parent_exists [OF inv p] by blast
  let ?f = "f\<lparr>name_table := table_unlink (name_hv f) p (name_table f)\<rparr>"
  have "idle ?f" using idle by (simp add: idle_def)
  then obtain g where g: "unref (?f, q) = Some g" "nodes_inv d (insert p D) Z e g" "cascade d (d q) ?f g"
    using unref [OF unlink_step [OF inv p]] q D by auto
  have gp: "fu_heap g p = Some n" using g(3) q(3) p(2) by (auto simp: cascade_def)
  let ?g = "put_node p (n\<lparr>nd_name := None, nd_parent := None\<rparr>) g"
  have "unhash_name unref f p = Some (?g\<lparr>name_table := table_unuse (name_table ?g)\<rparr>)"
    using p q gp g(1) in_name_bucket [OF inv p q(2,1)] by (simp add: unhash_name_def Let_def)
  moreover have "nodes_inv d D Z e (?g\<lparr>name_table := table_unuse (name_table ?g)\<rparr>)"
    by (rule unuse_step [OF clear_step [OF g(2) p(1) gp]])
  moreover have "cascade d (d q) f g" using g(3) by (simp add: cascade_def)
  ultimately show ?thesis using g(3) by (auto simp: cascade_def)
qed

section \<open>Dropping a reference\<close>

text \<open>
  Dropping a reference always ends: it frees the node when it was the last one, and with it the ancestors that are not
  referred to otherwise. The invariant holds afterwards.
\<close>

lemma unref_node_ok:
  assumes "nodes_inv d D Z (e(p := Suc (e p))) f" "p \<in> dom (fu_heap f)" "p \<notin> D" "idle f" "\<forall>x \<in> D. d p < d x"
  shows "\<exists>f'. unref_node (f, p) = Some f' \<and> nodes_inv d D Z e f' \<and> cascade d (d p) f f'"
  using assms
proof (induction "d p" arbitrary: p D Z e f rule: less_induct)
  case less
  note inv = less.prems(1)
  obtain n where n: "fu_heap f p = Some n" using less.prems(2) by auto
  have cnt: "count_ok D Z (e(p := Suc (e p))) f p n" using inv n by (simp add: nodes_inv_def counts_ok_def)
  have pos: "nd_refctr n > 0" using cnt by (auto simp: count_ok_def)
  have pZ: "p \<notin> Z" using cnt pos by (simp add: count_ok_def)
  have root: "nd_nlookup n > 0" if "nd_nodeid n = FUSE_ROOT_ID"
    using root_known [OF inv n that] .
  let ?n = "n\<lparr>nd_refctr := nd_refctr n - 1\<rparr>"
  let ?f = "put_node p ?n f"
  have links: "same_links n ?n" by (simp add: same_links_def)
  note casc = cascade_refctr [OF n, of d "nd_refctr n - 1"]
  show ?case
  proof (cases "nd_refctr n - 1 = 0")
    case False
    have "nodes_inv d D Z e ?f"
      by (rule nodes_inv_put [OF inv n links]) (use root cnt pZ False in \<open>auto simp: count_ok_def\<close>)
    then show ?thesis using n pos False casc by (subst unref_node.simps) (simp add: Let_def)
  next
    case True
    have inv1: "nodes_inv d D (insert p Z) e ?f"
      by (rule nodes_inv_put [OF inv n links]) (use root cnt pZ True in \<open>auto simp: count_ok_def\<close>)
    have heap1: "fu_heap ?f p = Some ?n" by simp
    note zero = no_kids [OF inv1 heap1]
    have unlocked: "nd_treelock n = 0" "nd_nlookup n = 0" using less.prems(4) n zero(2) by (auto simp: idle_def)
    have idle1: "idle ?f" using cascade_idle [OF casc less.prems(4)] .
    have "\<exists>g n'. unhash_name unref_node ?f p = Some g \<and> nodes_inv d D (insert p Z) e g \<and> fu_heap g p = Some n'
        \<and> nd_parent n' = None \<and> cascade d (d p) ?f (free_node g p)"
    proof (cases "nd_parent n")
      case None
      have "node_ok f n" using inv n less.prems(3) by (auto simp: nodes_inv_def tree_ok_def)
      then have "nd_name n = None" using None root unlocked(2) by (auto simp: node_ok_def)
      then show ?thesis using inv1 None unlocked(2)
        by (auto simp: unhash_name_def cascade_def free_node_def)
    next
      case (Some q)
      then have q1: "nd_parent ?n = Some q" by simp
      have dq: "d q < d p" using inv n less.prems(3) Some by (auto simp: nodes_inv_def ranked_def)
      have D1: "\<forall>x \<in> insert p D. d q < d x" using less.prems(5) dq by auto
      obtain h g where g: "unhash_name unref_node ?f p = Some g" "nodes_inv d D (insert p Z) e g" "cascade d (d q) ?f h"
        "fu_heap g = (fu_heap h)(p := Some (?n\<lparr>nd_name := None, nd_parent := None\<rparr>))" "conf_remember g = conf_remember ?f"
        using unhash_name_ok [OF inv1 less.prems(3) heap1 q1 less.hyps [OF dq _ _ _ _ D1] _ idle1] D1 by blast
      have "cascade d (d p) ?f (free_node g p)"
        by (rule cascade_free [OF g(3) _ heap1]) (use g(4,5) dq unlocked(2) in \<open>auto simp: free_node_def\<close>)
      then show ?thesis using g by auto
    qed
    then obtain g n' where g: "unhash_name unref_node ?f p = Some g" "nodes_inv d D (insert p Z) e g"
      "fu_heap g p = Some n'" "nd_parent n' = None" "cascade d (d p) ?f (free_node g p)" by blast
    let ?g = "if lru_enabled g then remove_node_lru g p else g"
    have same: "fu_heap ?g = fu_heap g" "id_table ?g = id_table g" "name_table ?g = name_table g" "conf_remember ?g = conf_remember g"
      by (simp_all add: remove_node_lru_def)
    have inv2: "nodes_inv d D (insert p Z) e ?g"
      by (rule nodes_inv_tables [OF g(2)]) (use g(2) same in \<open>auto simp: nodes_inv_def tables_ok_def\<close>)
    obtain f' where f': "unhash_id ?g p = Some f'" "nodes_inv d D (insert p Z - {p}) e (free_node f' p)"
      "fu_heap (free_node f' p) = (fu_heap ?g)(p := None)" "conf_remember (free_node f' p) = conf_remember ?g"
      using free_step [OF inv2 _ _ less.prems(3) g(4)] g(3) same(1) by auto
    have "unref_node (f, p) = Some (free_node f' p)"
      using n pos True g(1) f'(1) unlocked(1) by (subst unref_node.simps) (simp add: Let_def delete_node_def)
    moreover have "insert p Z - {p} = Z" using pZ by auto
    moreover have "cascade d (d p) ?f (free_node f' p)" using g(5) f'(3,4) same by (simp add: cascade_def free_node_def)
    ultimately show ?thesis using f'(2) cascade_trans [OF casc] by fastforce
  qed
qed

end
