(* ===== verification/Node_Ops.thy ===== *)
theory Node_Ops
  imports Node_Counts
begin

text \<open>
  Each operation on nodes of \<open>Nodes\<close> preserves the invariant of \<open>Node_Counts\<close> and returns, as long as the kernel keeps its
  side of the protocol.
\<close>

abbreviation none_due :: "ptr \<Rightarrow> nat" where "none_due \<equiv> \<lambda>_. 0"

lemma nodes_inv_flags:
  assumes inv: "nodes_inv d D Z e f" and p: "fu_heap f p = Some n" and links: "same_links n n'"
    and same: "nd_refctr n' = nd_refctr n" "nd_nlookup n' > 0 \<longleftrightarrow> nd_nlookup n > 0"
  shows "nodes_inv d D Z e (put_node p n' f)"
proof -
  have "count_ok D Z e f p n" using inv p by (simp add: nodes_inv_def counts_ok_def)
  then have "count_ok D Z e f p n'" using same by (simp add: count_ok_def)
  then show ?thesis using nodes_inv_put [OF inv p links] root_known [OF inv p] same(2) by blast
qed

lemma lru_put_node [simp]: "lru_enabled (put_node p n f) = lru_enabled f"
  by (simp add: lru_enabled_def)

lemma idle_put: "idle f \<Longrightarrow> (nd_nlookup n = 0 \<Longrightarrow> nd_treelock n = 0) \<Longrightarrow> idle (put_node p n f)"
  by (auto simp: idle_def)

lemma idle_heap: "idle f \<Longrightarrow> fu_heap f' = fu_heap f \<Longrightarrow> idle f'"
  by (simp add: idle_def)

section \<open>Forgetting\<close>

lemma forget_node_step:
  assumes "get_node f (nd_nodeid n) = Some p" "fu_heap f p = Some n" "nd_nodeid n \<noteq> FUSE_ROOT_ID" "k \<le> nd_nlookup n"
    "k = nd_nlookup n \<longrightarrow> nd_treelock n = 0"
  shows "forget_node now f (nd_nodeid n) k =
    map_option (Pair True)
      (if nd_nlookup n - k = 0 then unref_node (put_node p (n\<lparr>nd_nlookup := nd_nlookup n - k\<rparr>) f, p)
       else if lru_enabled f \<and> nd_nlookup n - k = 1 then set_forget_time now (put_node p (n\<lparr>nd_nlookup := nd_nlookup n - k\<rparr>) f) p
       else Some (put_node p (n\<lparr>nd_nlookup := nd_nlookup n - k\<rparr>) f))"
  using assms by (auto simp: forget_node_def Let_def map_conv_bind_option comp_def)

lemma unref_node_done:
  assumes "nodes_inv d {} {} (none_due(p := Suc 0)) f" "p \<in> dom (fu_heap f)" "idle f"
  shows "\<exists>f'. unref_node (f, p) = Some f' \<and> nodes_inv d {} {} none_due f' \<and> cascade d (d p) f f'"
  using unref_node_ok [of d "{}" "{}" none_due p f] assms by simp

lemma forget_node_ok:
  assumes inv: "nodes_inv d {} {} none_due f" and idle: "idle f" and p: "fu_heap f p = Some n" "nd_nodeid n \<noteq> FUSE_ROOT_ID"
    and k: "0 < k" "k \<le> nd_nlookup n" "k = nd_nlookup n \<longrightarrow> nd_treelock n = 0"
  shows "\<exists>f'. forget_node now f (nd_nodeid n) k = Some (True, f') \<and> nodes_inv d {} {} none_due f' \<and> idle f'"
proof -
  have get: "get_node f (nd_nodeid n) = Some p" using get_node_iff [OF inv] p(1) by (simp add: has_id_def)
  have cnt: "count_ok {} {} none_due f p n" using inv p by (simp add: nodes_inv_def counts_ok_def)
  let ?n = "n\<lparr>nd_nlookup := nd_nlookup n - k\<rparr>"
  let ?f = "put_node p ?n f"
  have links: "same_links n ?n" by (simp add: same_links_def)
  have idle1: "idle ?f" by (rule idle_put [OF idle]) (use k in simp)
  show ?thesis
  proof (cases "nd_nlookup n - k = 0")
    case True
    have "nodes_inv d {} {} (none_due(p := Suc 0)) ?f"
      by (rule nodes_inv_put [OF inv p(1) links]) (use p(2) cnt k True in \<open>auto simp: count_ok_def\<close>)
    then obtain f' where f': "unref_node (?f, p) = Some f'" "nodes_inv d {} {} none_due f'" "cascade d (d p) ?f f'"
      using unref_node_done [OF _ _ idle1] by auto
    then show ?thesis unfolding forget_node_step [OF get p k(2,3)] using True cascade_idle [OF f'(3) idle1] by auto
  next
    case False
    have inv1: "nodes_inv d {} {} none_due ?f"
      by (rule nodes_inv_put [OF inv p(1) links]) (use p(2) cnt k False in \<open>auto simp: count_ok_def\<close>)
    show ?thesis
    proof (cases "lru_enabled f \<and> nd_nlookup n - k = 1")
      case True
      let ?f' = "put_node p (?n\<lparr>nd_forget_time := now\<rparr>) (?f\<lparr>lru_table := remove1 p (lru_table ?f) @ [p]\<rparr>)"
      have "nodes_inv d {} {} none_due (?f\<lparr>lru_table := remove1 p (lru_table ?f) @ [p]\<rparr>)" (is "nodes_inv _ _ _ _ ?g")
        by (rule nodes_inv_tables [OF inv1]) (use inv1 in \<open>auto simp: nodes_inv_def tables_ok_def\<close>)
      then have "nodes_inv d {} {} none_due ?f'"
        by (rule nodes_inv_flags [where n = ?n]) (simp_all add: same_links_def)
      moreover have "set_forget_time now ?f p = Some ?f'" by (simp add: set_forget_time_def)
      then have "forget_node now f (nd_nodeid n) k = Some (True, ?f')"
        unfolding forget_node_step [OF get p k(2,3)] using False True by (simp only: if_True if_False option.map simp_thms)
      moreover have "idle ?f'" by (rule idle_put [OF idle_heap [OF idle1]]) (use False in simp_all)
      ultimately show ?thesis by blast
    next
      case False': False
      have "forget_node now f (nd_nodeid n) k = Some (True, ?f)"
        unfolding forget_node_step [OF get p k(2,3)] using False False' by (simp only: if_False option.map)
      then show ?thesis using inv1 idle1 by blast
    qed
  qed
qed

section \<open>Removing a name\<close>

lemma unhash_name_done:
  assumes inv: "nodes_inv d {} {} none_due f" and p: "fu_heap f p = Some n" "nd_parent n = Some q" and idle: "idle f"
  shows "\<exists>g f'. unhash_name unref_node f p = Some f' \<and> nodes_inv d {} {} none_due f' \<and> cascade d (d q) f g
    \<and> fu_heap f' = (fu_heap g)(p := Some (n\<lparr>nd_name := None, nd_parent := None\<rparr>)) \<and> conf_remember f' = conf_remember f"
proof -
  have dq: "d q < d p" using inv p by (auto simp: nodes_inv_def ranked_def)
  show ?thesis
    by (rule unhash_name_ok [OF inv _ p _ _ idle]) (use unref_node_ok [of d "{p}" "{}" none_due q] dq in auto)
qed

text \<open>What taking a name away leaves of the other nodes.\<close>

definition detached :: "fuse \<Rightarrow> ptr \<Rightarrow> fuse \<Rightarrow> bool" where
  "detached f p f' \<longleftrightarrow> (\<forall>x n'. fu_heap f' x = Some n' \<longrightarrow> (\<exists>n. fu_heap f x = Some n \<and> nd_nodeid n' = nd_nodeid n
        \<and> nd_treelock n' = nd_treelock n
        \<and> (if x = p then nd_parent n' = None \<and> nd_name n' = None
           else nd_parent n' = nd_parent n \<and> nd_name n' = nd_name n \<and> nd_nlookup n' = nd_nlookup n)))
     \<and> (\<forall>x n. fu_heap f x = Some n \<longrightarrow> (nd_nlookup n > 0 \<or> x = p) \<longrightarrow> fu_heap f' x \<noteq> None)
     \<and> conf_remember f' = conf_remember f"

lemma detachedI:
  assumes c: "cascade d k (put_node p n1 f) g" and p: "fu_heap f p = Some n0" "fu_heap f' = (fu_heap g)(p := Some n')"
    and n': "nd_nodeid n' = nd_nodeid n0" "nd_treelock n' = nd_treelock n0" "nd_parent n' = None" "nd_name n' = None"
    and conf: "conf_remember f' = conf_remember f"
  shows "detached f p f'"
proof -
  have "\<exists>n. fu_heap f x = Some n \<and> nd_nodeid m = nd_nodeid n \<and> nd_treelock m = nd_treelock n
        \<and> (if x = p then nd_parent m = None \<and> nd_name m = None
           else nd_parent m = nd_parent n \<and> nd_name m = nd_name n \<and> nd_nlookup m = nd_nlookup n)"
    if m: "fu_heap f' x = Some m" for x m
  proof (cases "x = p")
    case False
    then obtain n where "fu_heap f x = Some n" "m = n\<lparr>nd_refctr := nd_refctr m\<rparr>"
      using cascadeD(2) [OF c, of x m] m p(2) by auto
    then show ?thesis using False by (cases m, cases n) auto
  qed (use m p n' in auto)
  moreover have "fu_heap f' x \<noteq> None" if "fu_heap f x = Some n" "nd_nlookup n > 0 \<or> x = p" for x n
    using that cascadeD(3) [OF c, of x n] p(2) by (cases "x = p") auto
  ultimately show ?thesis using conf unfolding detached_def by blast
qed

lemma unlink_node_ok:
  assumes inv: "nodes_inv d {} {} none_due f" and idle: "idle f" and p: "fu_heap f p = Some n" "nd_parent n \<noteq> None"
    and remember: "conf_remember f \<noteq> 0 \<Longrightarrow> nd_nlookup n > 1" and known: "nd_nlookup n > 0"
  shows "\<exists>f'. unlink_node f p = Some f' \<and> nodes_inv d {} {} none_due f' \<and> idle f' \<and> detached f p f'"
proof -
  obtain q where q: "nd_parent n = Some q" using p(2) by auto
  let ?n = "if conf_remember f \<noteq> 0 then n\<lparr>nd_nlookup := nd_nlookup n - 1\<rparr> else n"
  let ?f = "put_node p ?n f"
  have cnt: "count_ok {} {} none_due f p n" using inv p by (simp add: nodes_inv_def counts_ok_def)
  have inv1: "nodes_inv d {} {} none_due ?f"
    by (rule nodes_inv_put [OF inv p(1)]) (use remember known cnt in \<open>auto simp: count_ok_def same_links_def\<close>)
  have idle1: "idle ?f" by (rule idle_put [OF idle]) (use remember known in \<open>auto split: if_splits\<close>)
  have p1: "fu_heap ?f p = Some ?n" "nd_parent ?n = Some q" using q by simp_all
  obtain g f' where f': "unhash_name unref_node ?f p = Some f'" "nodes_inv d {} {} none_due f'" "cascade d (d q) ?f g"
    "fu_heap f' = (fu_heap g)(p := Some (?n\<lparr>nd_name := None, nd_parent := None\<rparr>))" "conf_remember f' = conf_remember ?f"
    using unhash_name_done [OF inv1 p1 idle1] by blast
  have "?f = f" if "conf_remember f = 0" using that p(1) by (cases f) (auto simp: put_node_def fun_upd_idem)
  then have "unlink_node f p = Some f'" using p(1) f'(1) remember by (auto simp: unlink_node_def)
  moreover have "detached f p f'"
    by (rule detachedI [OF f'(3) p(1) f'(4)]) (use f'(5) in auto)
  moreover have "idle f'"
  proof -
    have "idle g" by (rule cascade_idle [OF f'(3) idle1])
    then show ?thesis using remember known by (auto simp: idle_def f'(4))
  qed
  ultimately show ?thesis using f'(2) by blast
qed

section \<open>A new number\<close>

definition free_id :: "fuse \<Rightarrow> u64 \<Rightarrow> bool" where
  "free_id f v \<longleftrightarrow> v \<noteq> 0 \<and> v \<noteq> FUSE_UNKNOWN_INO \<and> (\<forall>x. \<not> has_id f v x)"

lemma unat_mask: "unat (x AND (0xffffffff :: u64)) = unat x mod 2 ^ 32"
proof -
  have m: "0xffffffff = (mask 32 :: u64)" by (simp add: mask_eq_exp_minus_1)
  show ?thesis unfolding m take_bit_eq_mask [symmetric] by (simp only: unsigned_take_bit_eq take_bit_nat_def)
qed

lemma mask_add: "((c AND 0xffffffff) + k) AND 0xffffffff = (c + k) AND (0xffffffff :: u64)"
proof (rule word_unat_eq_iff [THEN iffD2])
  have "(2 :: nat) ^ 32 dvd 2 ^ LENGTH(64)" by (rule le_imp_power_dvd) simp
  then show "unat (((c AND 0xffffffff) + k) AND 0xffffffff) = unat ((c + k) AND (0xffffffff :: u64))"
    by (simp only: unat_mask unat_word_ariths(1) mod_mod_cancel mod_add_left_eq)
qed

lemma get_node_nocheck_none:
  assumes "nodes_inv d D Z e f"
  shows "get_node_nocheck f v = None \<longleftrightarrow> (\<forall>x. \<not> has_id f v x)"
proof -
  have "get_node f v = get_node_nocheck f v" by (simp add: get_node_def split: option.splits)
  then show ?thesis using get_node_iff [OF assms, of v] by (metis not_Some_eq)
qed

lemma get_nocheck_cong:
  assumes "fu_heap f' = fu_heap f" "id_table f' = id_table f"
  shows "get_node_nocheck f' = get_node_nocheck f"
  by (rule ext) (simp add: get_node_nocheck_def id_hash_def hv_cong(6) [OF assms(1)] assms(2))

text \<open>One turn of the loop.\<close>

definition bump_ctr :: "fuse \<Rightarrow> fuse" where
  "bump_ctr f =
     (let f = f\<lparr>fu_ctr := (fu_ctr f + 1) AND 0xffffffff\<rparr>
      in if fu_ctr f = 0 then f\<lparr>fu_generation := fu_generation f + 1\<rparr> else f)"

definition same_nodes :: "fuse \<Rightarrow> fuse \<Rightarrow> bool" where
  "same_nodes f f' \<longleftrightarrow> fu_heap f' = fu_heap f \<and> id_table f' = id_table f \<and> name_table f' = name_table f
     \<and> lru_table f' = lru_table f \<and> conf_remember f' = conf_remember f"

lemma bump_ctr_simps [simp]:
  "fu_ctr (bump_ctr f) = (fu_ctr f + 1) AND 0xffffffff" "same_nodes f0 (bump_ctr f) \<longleftrightarrow> same_nodes f0 f"
  by (simp_all add: bump_ctr_def Let_def same_nodes_def)

lemma next_id_step:
  "next_id f = (if fu_ctr (bump_ctr f) = 0 \<or> fu_ctr (bump_ctr f) = FUSE_UNKNOWN_INO
      \<or> get_node_nocheck (bump_ctr f) (fu_ctr (bump_ctr f)) \<noteq> None then next_id (bump_ctr f)
    else Some (fu_ctr (bump_ctr f), bump_ctr f))"
  by (subst next_id.simps) (simp only: Let_def bump_ctr_def)

lemma next_id_finds:
  assumes inv: "nodes_inv d D Z e f0" and "same_nodes f0 f" "free_id f0 ((fu_ctr f + of_nat (Suc i)) AND 0xffffffff)"
  shows "\<exists>ino f'. next_id f = Some (ino, f') \<and> free_id f0 ino \<and> same_nodes f0 f'"
  using assms(2-)
proof (induction i arbitrary: f)
  case (0 f)
  have "get_node_nocheck (bump_ctr f) = get_node_nocheck f0"
    by (rule get_nocheck_cong) (use 0 bump_ctr_simps(2) [of f0 f] in \<open>auto simp: same_nodes_def\<close>)
  then show ?case using 0 get_node_nocheck_none [OF inv]
    by (subst next_id_step) (auto simp: free_id_def)
next
  case (Suc i f)
  have same: "same_nodes f0 (bump_ctr f)" using Suc.prems by simp
  have get: "get_node_nocheck (bump_ctr f) = get_node_nocheck f0"
    by (rule get_nocheck_cong) (use same in \<open>auto simp: same_nodes_def\<close>)
  have "free_id f0 ((fu_ctr (bump_ctr f) + of_nat (Suc i)) AND 0xffffffff)"
    using Suc.prems(2) unfolding bump_ctr_simps(1) mask_add by (simp add: algebra_simps)
  from Suc.IH [OF same this] show ?case
    using get_node_nocheck_none [OF inv] same get by (subst next_id_step) (auto simp: free_id_def)
qed

lemma next_id_ok:
  assumes inv: "nodes_inv d D Z e f" and room: "card (dom (fu_heap f)) < 2 ^ 32 - 2"
  shows "\<exists>ino f'. next_id f = Some (ino, f') \<and> free_id f ino \<and> same_nodes f f'"
proof -
  let ?S = "of_nat ` {1 ..< 2 ^ 32 - 1} :: u64 set" and ?U = "(\<lambda>x. nd_nodeid (the (fu_heap f x))) ` dom (fu_heap f)"
  have "inj_on (of_nat :: nat \<Rightarrow> u64) {1 ..< 2 ^ 32 - 1}"
    by (rule inj_onI) (simp add: word_of_nat_eq_iff take_bit_nat_eq_self)
  then have "card ?S = 2 ^ 32 - 2" by (simp add: card_image)
  moreover have "card ?U \<le> card (dom (fu_heap f))" by (rule card_image_le [OF nodes_inv_finite(1) [OF inv]])
  ultimately have "\<not> ?S \<subseteq> ?U" using room card_mono [of ?U ?S] nodes_inv_finite(1) [OF inv] by auto
  then obtain w where w: "w \<in> ?S" "w \<notin> ?U" by blast
  from w(1) obtain k where k': "w = of_nat k" "k \<in> {1 ..< 2 ^ 32 - 1}" by (rule imageE)
  then have k: "1 \<le> k" "k < 2 ^ 32 - 1" "(of_nat k :: u64) \<notin> ?U" using w(2) by auto
  let ?v = "of_nat k :: u64"
  have v: "unat ?v = k" using k(2) by (simp add: unat_of_nat take_bit_nat_eq_self)
  have "free_id f ?v"
    using k v by (auto simp: free_id_def has_id_def FUSE_UNKNOWN_INO_def split: option.splits) (force)+
  moreover have "?v AND 0xffffffff = ?v"
  proof -
    show ?thesis using k(2) v by (simp add: word_unat_eq_iff unat_mask)
  qed
  moreover have "fu_ctr f + of_nat (Suc (unat (?v - fu_ctr f - 1))) = ?v" by simp
  ultimately show ?thesis using next_id_finds [OF inv, of f "unat (?v - fu_ctr f - 1)"] by (simp add: same_nodes_def)
qed

section \<open>Adding a node and giving it a name\<close>

definition added :: "bool \<Rightarrow> ptr \<Rightarrow> node \<Rightarrow> fuse \<Rightarrow> fuse" where
  "added memory p n f = (let f = put_node p n f in f\<lparr>id_table := table_hash_in memory (id_hv f) p (id_table f)\<rparr>)"

lemma no_parent_outside:
  assumes "nodes_inv d {} Z e f" "p \<notin> dom (fu_heap f)" "fu_heap f x = Some m"
  shows "nd_parent m \<noteq> Some p"
proof -
  have "node_ok f m" using assms by (auto simp: nodes_inv_def tree_ok_def)
  then show ?thesis using assms(2) by (auto simp: node_ok_def)
qed

lemma added_ok:
  assumes inv: "nodes_inv d {} {} none_due f" and p: "p \<notin> dom (fu_heap f)"
    and n: "nd_parent n = None" "nd_name n = None" "nd_refctr n = of_bool (nd_nlookup n > 0)" "\<forall>x. \<not> has_id f (nd_nodeid n) x"
  shows "nodes_inv (d(p := k)) {} (if nd_nlookup n = 0 then {p} else {}) none_due (added memory p n f)"
proof -
  let ?g = "put_node p n f" and ?f = "added memory p n f"
  have heap: "fu_heap ?f = (fu_heap f)(p := Some n)" by (simp add: added_def Let_def)
  have tabs: "id_table ?f = table_hash_in memory (id_hv ?g) p (id_table f)" "name_table ?f = name_table f"
    by (simp_all add: added_def Let_def)
  note fin = nodes_inv_finite [OF inv]
  note outside = no_parent_outside [OF inv p]
  have sets: "entries {} ?f = entries {} f" "kids {} ?f = kids {} f" "kids {} f p = {}"
    using p n(1) outside by (auto simp: entries_def kids_def heap fun_eq_iff)
  have dom: "dom (fu_heap ?f) = insert p (dom (fu_heap f))" by (simp add: heap)
  have hv: "id_hv ?f = id_hv ?g" "name_hv ?f = name_hv ?g"
    using hv_cong(1,2) [of ?f ?g] heap by auto
  have tok: "table_ok (id_hv f) (id_table f)" "table_nodes (id_table f) = mset_set (dom (fu_heap f))"
    "table_ok (name_hv f) (name_table f)" "table_nodes (name_table f) = mset_set (entries {} f)"
    using inv by (auto simp: nodes_inv_def tables_ok_def)
  have "table_ok (id_hv ?g) (id_table f)"
    by (rule table_cong_in [OF tok(1,2) fin(1)]) (use p in \<open>auto simp: id_hv_def\<close>)
  note ids = table_hash_in_ok [OF this, of memory p]
  have "table_ok (name_hv ?g) (name_table f)"
    by (rule table_cong_in [OF tok(3,4) fin(2)])
      (use p outside in \<open>auto simp: name_hv_def entries_def split: option.splits\<close>)
  then have "tables_ok {} ?f"
    unfolding tables_ok_def tabs hv dom sets(1) using ids tok(2,4) p fin(1) by simp
  moreover have "tree_ok {} ?f"
  proof -
    have "node_ok ?f m" if "fu_heap ?f x = Some m" for x m
    proof (cases "x = p")
      case True
      then show ?thesis using that heap n(1,2) by (simp add: node_ok_def)
    next
      case False
      then have "node_ok f m" using that heap inv by (auto simp: nodes_inv_def tree_ok_def)
      then show ?thesis by (auto simp: node_ok_def heap split: option.splits)
    qed
    moreover have "x = y" if xy: "fu_heap ?f x = Some m" "fu_heap ?f y = Some m'" "nd_nodeid m = nd_nodeid m'" for x y m m'
    proof -
      have "\<not> (\<exists>l. fu_heap f z = Some l \<and> nd_nodeid l = nd_nodeid n)" for z
        using n(4) by (auto simp: has_id_def split: option.splits)
      then show ?thesis using xy id_unique [OF inv, of x m y m'] heap by (cases "x = p"; cases "y = p") force+
    qed
    moreover have "x = y" if "fu_heap ?f x = Some m" "fu_heap ?f y = Some m'"
      "nd_parent m \<noteq> None" "nd_parent m = nd_parent m'" "nd_name m = nd_name m'" for x y m m'
    proof -
      have "x \<noteq> p" "y \<noteq> p" using that n(1) heap by (auto split: if_splits)
      then show ?thesis using that inv heap unfolding nodes_inv_def tree_ok_def by auto
    qed
    moreover have "finite (dom (fu_heap ?f))" unfolding dom using fin(1) by simp
    ultimately show ?thesis unfolding tree_ok_def by blast
  qed
  moreover have "root_ok ?f"
    by (rule root_ok_mono [of f]) (use inv p heap in \<open>auto simp: nodes_inv_def\<close>)
  moreover have "counts_ok {} (if nd_nlookup n = 0 then {p} else {}) none_due ?f"
  proof -
    let ?Z = "if nd_nlookup n = 0 then {p} else {}"
    have "count_ok {} ?Z none_due ?f x m" if "fu_heap f x = Some m" "x \<noteq> p" for x m
    proof -
      have "count_ok {} {} none_due f x m" using inv that by (simp add: nodes_inv_def counts_ok_def)
      then show ?thesis using that(2) unfolding count_ok_def sets(2) by auto
    qed
    moreover have "count_ok {} ?Z none_due ?f p n" using n(3) sets(3) by (auto simp: count_ok_def sets(2))
    ultimately show ?thesis by (auto simp: counts_ok_def heap)
  qed
  moreover have "ranked (d(p := k)) {} ?f"
    using inv outside n(1) heap by (auto simp: nodes_inv_def ranked_def)
  ultimately show ?thesis by (simp add: nodes_inv_def)
qed

definition attached :: "bool \<Rightarrow> ptr \<Rightarrow> node \<Rightarrow> ptr \<Rightarrow> node \<Rightarrow> string \<Rightarrow> fuse \<Rightarrow> fuse" where
  "attached memory p n q m name f =
     (let f = put_node p (n\<lparr>nd_name := Some name, nd_parent := Some q\<rparr>) (put_node q (m\<lparr>nd_refctr := nd_refctr m + 1\<rparr>) f)
      in f\<lparr>name_table := table_hash_in memory (name_hv f) p (name_table f)\<rparr>)"

lemma attached_ok:
  assumes inv: "nodes_inv d {} Z none_due f" and p: "fu_heap f p = Some n" "nd_parent n = None" "nd_nodeid n \<noteq> FUSE_ROOT_ID"
    and q: "fu_heap f q = Some m" "q \<noteq> p" "q \<notin> Z" "d q < d p"
    and new: "\<And>x k. fu_heap f x = Some k \<Longrightarrow> nd_parent k = Some q \<Longrightarrow> nd_name k \<noteq> Some name"
  shows "nodes_inv d {} Z none_due (attached memory p n q m name f)"
proof -
  let ?n = "n\<lparr>nd_name := Some name, nd_parent := Some q\<rparr>" and ?m = "m\<lparr>nd_refctr := nd_refctr m + 1\<rparr>"
  let ?g = "put_node p ?n (put_node q ?m f)" and ?f = "attached memory p n q m name f"
  note fin = nodes_inv_finite [OF inv]
  have heap: "fu_heap ?f = (fu_heap f)(q := Some ?m, p := Some ?n)" by (simp add: attached_def Let_def)
  have tabs: "id_table ?f = id_table f" "name_table ?f = table_hash_in memory (name_hv ?g) p (name_table f)"
    by (simp_all add: attached_def Let_def)
  have hv: "name_hv ?f = name_hv ?g" using hv_cong(2) [of ?f ?g] heap by auto
  have ids: "id_hv ?f = id_hv f" using p q by (auto simp: id_hv_def heap)
  have dom: "dom (fu_heap ?f) = dom (fu_heap f)" using p q by (auto simp: heap)
  have names: "name_hv ?g x = name_hv f x" if "x \<noteq> p" for x
    using that p q by (auto simp: name_hv_def split: option.splits)
  have pe: "p \<notin> entries {} f" using p by (auto simp: entries_def)
  have ent: "entries {} ?f = insert p (entries {} f)" using p q by (auto simp: entries_def heap)
  have kid: "kids {} ?f x = (if x = q then insert p (kids {} f x) else kids {} f x)" "p \<notin> kids {} f x" for x
    using p q by (auto simp: kids_def heap)
  have tok: "table_ok (name_hv f) (name_table f)" "table_nodes (name_table f) = mset_set (entries {} f)"
    using inv by (auto simp: nodes_inv_def tables_ok_def)
  have "table_ok (name_hv ?g) (name_table f)"
    by (rule table_cong_in [OF tok fin(2)]) (rule names, use pe in blast)
  note nt = table_hash_in_ok [OF this, of memory p]
  have "tables_ok {} ?f"
    using inv nt tok(2) pe fin(2) unfolding nodes_inv_def tables_ok_def tabs hv ids dom ent by simp
  moreover have "tree_ok {} ?f"
  proof -
    have old: "\<exists>l. fu_heap f x = Some l \<and> nd_nodeid k = nd_nodeid l \<and> (x \<noteq> p \<longrightarrow> nd_parent k = nd_parent l \<and> nd_name k = nd_name l)"
      if "fu_heap ?f x = Some k" for x k
      using that p(1) q(1) unfolding heap by (auto split: if_splits)
    have "node_ok ?f k" if k: "fu_heap ?f x = Some k" for x k
    proof (cases "x = p")
      case True
      then have "k = ?n" using that heap by simp
      then show ?thesis using p(3) q(1) unfolding node_ok_def dom by auto
    next
      case False
      obtain l where l: "fu_heap f x = Some l" "same_links l k" using old [OF k] False by (auto simp: same_links_def)
      have "node_ok f l" using inv l(1) by (auto simp: nodes_inv_def tree_ok_def)
      then have "node_ok f k" using node_ok_links [OF l(2)] by simp
      then show ?thesis unfolding node_ok_def dom .
    qed
    moreover have "x = y" if "fu_heap ?f x = Some k" "fu_heap ?f y = Some k'" "nd_nodeid k = nd_nodeid k'" for x y k k'
      using old [OF that(1)] old [OF that(2)] that(3) id_unique [OF inv] by metis
    moreover have "x = y" if xy: "fu_heap ?f x = Some k" "fu_heap ?f y = Some k'"
      "nd_parent k \<noteq> None" "nd_parent k = nd_parent k'" "nd_name k = nd_name k'" for x y k k'
    proof -
      have pn: "nd_parent k = Some q \<and> nd_name k = Some name" if "fu_heap ?f p = Some k" for k
        using that unfolding heap by auto
      have no: "\<not> (nd_parent k = Some q \<and> nd_name k = Some name)" if "fu_heap ?f z = Some k" "z \<noteq> p" for z k
        using old [OF that(1)] that(2) new [of z] by auto
      consider "x = p" "y = p" | "x = p" "y \<noteq> p" | "x \<noteq> p" "y = p" | "x \<noteq> p" "y \<noteq> p" by blast
      then show ?thesis
      proof cases
        case 4
        obtain l l' where "fu_heap f x = Some l" "fu_heap f y = Some l'" "same_links l k" "same_links l' k'"
          using old [OF xy(1)] old [OF xy(2)] 4 by (auto simp: same_links_def)
        then show ?thesis using xy(3-5) inv unfolding nodes_inv_def tree_ok_def same_links_def by auto
      qed (use xy pn no in auto)
    qed
    moreover have "finite (dom (fu_heap ?f))" unfolding dom by (rule fin(1))
    ultimately show ?thesis unfolding tree_ok_def by blast
  qed
  moreover have "root_ok ?f"
    by (rule root_ok_mono [of f]) (use inv p q heap in \<open>auto simp: nodes_inv_def\<close>)
  moreover have "counts_ok {} Z none_due ?f"
  proof -
    have old: "count_ok {} Z none_due f x k" if "fu_heap f x = Some k" for x k
      using inv that by (simp add: nodes_inv_def counts_ok_def)
    have "count_ok {} Z none_due ?f q ?m" using old [OF q(1)] q(3) kid fin(3) [of q] by (auto simp: count_ok_def)
    moreover have "count_ok {} Z none_due ?f p ?n" using old [OF p(1)] q(2) kid(1) [of p] by (auto simp: count_ok_def)
    moreover have "count_ok {} Z none_due ?f x k" if "fu_heap f x = Some k" "x \<noteq> p" "x \<noteq> q" for x k
      using old [OF that(1)] that kid(1) [of x] by (auto simp: count_ok_def)
    ultimately show ?thesis using q(2) by (auto simp: counts_ok_def heap)
  qed
  moreover have "ranked d {} ?f"
    using inv p q by (auto simp: nodes_inv_def ranked_def heap)
  ultimately show ?thesis by (simp add: nodes_inv_def)
qed

section \<open>Looking up\<close>

lemma nodes_inv_same: "nodes_inv d D Z e f \<Longrightarrow> same_nodes f f' \<Longrightarrow> nodes_inv d D Z e f'"
  by (rule nodes_inv_tables) (auto simp: same_nodes_def nodes_inv_def tables_ok_def)

lemma inc_nlookup_simps [simp]:
  "nd_nodeid (inc_nlookup n) = nd_nodeid n" "nd_parent (inc_nlookup n) = nd_parent n" "nd_name (inc_nlookup n) = nd_name n"
  "nd_treelock (inc_nlookup n) = nd_treelock n" "nd_nlookup (inc_nlookup n) = Suc (nd_nlookup n)"
  "nd_refctr (inc_nlookup n) = nd_refctr n + of_bool (nd_nlookup n = 0)"
  by (simp_all add: inc_nlookup_def Let_def)

lemma inc_nlookup_ok:
  assumes inv: "nodes_inv d {} Z none_due f" and p: "fu_heap f p = Some n" and Z: "Z \<subseteq> {p}"
  shows "nodes_inv d {} {} none_due (put_node p (inc_nlookup n) f)"
proof (rule nodes_inv_put [OF inv p])
  have "count_ok {} Z none_due f p n" using inv p by (simp add: nodes_inv_def counts_ok_def)
  then show "count_ok {} {} none_due f p (inc_nlookup n)" by (auto simp: count_ok_def)
qed (use Z in \<open>auto simp: same_links_def\<close>)

lemma hash_name_eq:
  assumes "get_node f parentid = Some q" "fu_heap f p = Some n" "fu_heap f q = Some m" "p \<noteq> q"
  shows "hash_name memory f p parentid name =
    Some (if 32 \<le> length name \<and> \<not> memory then (- 1, put_node p (n\<lparr>nd_name := None\<rparr>) f)
          else (0, attached memory p n q m name f))"
proof -
  have twist: "put_node p (n\<lparr>nd_name := Some name, nd_parent := Some q\<rparr>)
      (put_node q m' (put_node p (n\<lparr>nd_name := Some name\<rparr>) f)) =
    put_node p (n\<lparr>nd_name := Some name, nd_parent := Some q\<rparr>) (put_node q m' f)" for m'
    using assms(4) by (simp add: put_node_def fun_upd_twist)
  show ?thesis using assms by (simp add: hash_name_def attached_def Let_def twist)
qed

lemma get_node_put_new:
  assumes inv: "nodes_inv d D Z e f" and p: "p \<notin> dom (fu_heap f)"
  shows "get_node (put_node p n f) ino = get_node f ino"
proof -
  have ok: "table_ok (id_hv f) (id_table f)" "\<And>x. x \<in># table_nodes (id_table f) \<longleftrightarrow> x \<in> dom (fu_heap f)"
    using inv nodes_inv_finite(1) [OF inv] by (auto simp: nodes_inv_def tables_ok_def)
  let ?b = "nt_array (id_table f) ! table_hash (id_table f) (id_key ino)"
  have "table_hash (id_table f) (id_key ino) < length (nt_array (id_table f))"
    using table_hash_cases(1) [OF ok(1)] ok(1) by (simp add: table_ok_def)
  then have "x \<noteq> p" if "x \<in> set ?b" for x
    using that ok(2) [of x] p by (auto simp: table_nodes_def intro!: nth_mem)
  then have "find (has_id (put_node p n f) ino) ?b = find (has_id f ino) ?b"
    by (intro find_cong refl) (auto simp: has_id_def)
  then show ?thesis by (simp add: get_node_find table_find_def)
qed

lemma attached_added:
  assumes "fu_heap f q = Some m" "p \<noteq> q"
  shows "hash_id memory (attached memory p n q m name (put_node p n f)) p = attached memory p n q m name (added memory p n f)"
proof -
  let ?a = "attached memory p n q m name (put_node p n f)"
  have ids: "id_hv ?a = id_hv (put_node p n f)"
    using assms by (auto simp: id_hv_def attached_def Let_def fun_eq_iff)
  have "name_hv (put_node p k (put_node q l (added memory p n f))) = name_hv (put_node p k (put_node q l (put_node p n f)))" for k l
    by (rule hv_cong(2)) (simp add: added_def Let_def)
  then show ?thesis unfolding hash_id_def ids
    by (simp add: attached_def added_def Let_def put_node_def)
qed

text \<open>What a successful lookup returns: the node of the name, referred to by the kernel.\<close>

definition looked_up :: "fuse \<Rightarrow> u64 \<Rightarrow> string \<Rightarrow> ptr \<Rightarrow> bool" where
  "looked_up f parent name p \<longleftrightarrow> lookup_node f parent name = Some p \<and> (\<exists>n. fu_heap f p = Some n \<and> nd_nlookup n > 0)"

lemma find_node_old:
  assumes inv: "nodes_inv d {} {} none_due f" and idle: "idle f" and p: "lookup_node f parent name = Some p"
  shows "\<exists>f'. find_node alloc memory f parent (Some name) = Some (Some p, f') \<and> nodes_inv d {} {} none_due f' \<and> idle f'
    \<and> looked_up f' parent name p"
proof -
  have entry: "is_entry f parent name p" using p lookup_node_iff [OF inv] by simp
  then obtain n q where n: "fu_heap f p = Some n" "nd_parent n = Some q" "has_id f parent q" "nd_name n = Some name"
    by (auto simp: is_entry_def split: option.splits)
  let ?f = "if lru_enabled f \<and> nd_nlookup n = 1 then remove_node_lru f p else f"
  have heap: "fu_heap ?f = fu_heap f" by (simp add: remove_node_lru_def)
  have "nodes_inv d {} {} none_due ?f"
    by (rule nodes_inv_tables [OF inv heap]) (use inv in \<open>auto simp: nodes_inv_def tables_ok_def remove_node_lru_def\<close>)
  then have inv': "nodes_inv d {} {} none_due (put_node p (inc_nlookup n) ?f)"
    by (rule inc_nlookup_ok) (simp_all add: remove_node_lru_def n(1))
  moreover have "idle (put_node p (inc_nlookup n) ?f)" by (rule idle_put [OF idle_heap [OF idle heap]]) simp
  moreover have "is_entry (put_node p (inc_nlookup n) ?f) parent name p"
    using n by (auto simp: is_entry_def has_id_def remove_node_lru_def split: option.splits)
  ultimately show ?thesis
    using n(1) p lookup_node_iff [OF inv'] by (simp add: find_node_def Let_def looked_up_def)
qed

lemma find_node_new:
  assumes inv: "nodes_inv d {} {} none_due f" and idle: "idle f" and none: "lookup_node f parent name = None"
    and q: "fu_heap f q = Some m" "nd_nodeid m = parent" and p: "p \<notin> dom (fu_heap f)"
    and room: "card (dom (fu_heap f)) < 2 ^ 32 - 2"
  shows "\<exists>r f' d'. find_node (Some p) memory f parent (Some name) = Some (r, f') \<and> nodes_inv d' {} {} none_due f' \<and> idle f'
    \<and> conf_remember f' = conf_remember f \<and> (if 32 \<le> length name \<and> \<not> memory then r = None \<and> fu_heap f' = fu_heap f else r = Some p \<and> looked_up f' parent name p)"
proof -
  obtain ino f1 where f1: "next_id f = Some (ino, f1)" "free_id f ino" "same_nodes f f1" using next_id_ok [OF inv room] by blast
  have heap1: "fu_heap f1 = fu_heap f" using f1(3) by (simp add: same_nodes_def)
  note inv1 = nodes_inv_same [OF inv f1(3)]
  define node where "node = (let n = zero_node\<lparr>nd_nodeid := ino, nd_generation := fu_generation f1\<rparr>
    in if conf_remember f1 \<noteq> 0 then inc_nlookup n else n)"
  have node: "nd_parent node = None" "nd_name node = None" "nd_refctr node = of_bool (nd_nlookup node > 0)"
    "nd_nodeid node = ino" "nd_treelock node = 0"
    by (simp_all add: node_def zero_node_def Let_def)
  have pq: "p \<noteq> q" using p q by auto
  have p1: "p \<notin> dom (fu_heap f1)" and q1: "fu_heap f1 q = Some m" using p q heap1 by auto
  have get: "get_node (put_node p node f1) parent = Some q"
    using get_node_put_new [OF inv1 p1] get_node_iff [OF inv1, of parent q] q heap1 by (simp add: has_id_def)
  have run: "find_node (Some p) memory f parent (Some name) =
      (case hash_name memory (put_node p node f1) p parent name of None \<Rightarrow> None | Some (err, f) \<Rightarrow>
         if err = - 1 then Some (None, free_node f p)
         else do { node \<leftarrow> fu_heap (hash_id memory f p) p; Some (Some p, put_node p (inc_nlookup node) (hash_id memory f p)) })"
    using none f1(1) by (auto simp: find_node_def node_def Let_def split: option.splits)
  have hash: "hash_name memory (put_node p node f1) p parent name =
      Some (if 32 \<le> length name \<and> \<not> memory then (- 1, put_node p (node\<lparr>nd_name := None\<rparr>) (put_node p node f1))
            else (0, attached memory p node q m name (put_node p node f1)))"
    by (rule hash_name_eq [OF get]) (use q1 pq in auto)
  show ?thesis
  proof (cases "32 \<le> length name \<and> \<not> memory")
    case True
    let ?f = "free_node (put_node p (node\<lparr>nd_name := None\<rparr>) (put_node p node f1)) p"
    have "fu_heap f p = None" using p by (simp add: domIff)
    then have "fu_heap ?f = fu_heap f" by (auto simp: free_node_def heap1 fun_eq_iff)
    then have "same_nodes f ?f" using f1(3) by (auto simp: same_nodes_def free_node_def)
    moreover from this have "nodes_inv d {} {} none_due ?f" by (rule nodes_inv_same [OF inv])
    ultimately show ?thesis using run hash True idle_heap [OF idle] \<open>fu_heap ?f = fu_heap f\<close> by (auto simp: same_nodes_def)
  next
    case False
    let ?g = "attached memory p node q m name (added memory p node f1)"
    let ?d = "d(p := Suc (d q))" and ?n = "node\<lparr>nd_name := Some name, nd_parent := Some q\<rparr>"
    let ?Z = "if nd_nlookup node = 0 then {p} else {}"
    have "\<forall>x. \<not> has_id f1 (nd_nodeid node) x" using f1(2) hv_cong(6) [OF heap1] node(4) by (simp add: free_id_def)
    note add = added_ok [OF inv1 p1 node(1-3) this, of "Suc (d q)" memory]
    have heap2: "fu_heap (added memory p node f1) = (fu_heap f)(p := Some node)" by (simp add: added_def Let_def heap1)
    have "nodes_inv ?d {} ?Z none_due ?g"
    proof (rule attached_ok [OF add])
      show "nd_nodeid node \<noteq> FUSE_ROOT_ID"
      proof
        assume "nd_nodeid node = FUSE_ROOT_ID"
        moreover obtain x k where "fu_heap f x = Some k" "nd_nodeid k = FUSE_ROOT_ID" using inv by (auto simp: nodes_inv_def root_ok_def)
        ultimately show False using f1(2) node(4) by (auto simp: free_id_def has_id_def split: option.splits)
      qed
      show "nd_name k \<noteq> Some name" if "fu_heap (added memory p node f1) x = Some k" "nd_parent k = Some q" for x k
      proof -
        have "x \<noteq> p" using that heap2 node(1) by auto
        then have "fu_heap f x = Some k" using that heap2 by simp
        then show ?thesis using none lookup_node_iff [OF inv, of parent name x] that(2) q
          by (auto simp: is_entry_def has_id_def)
      qed
    qed (use heap2 node q pq in auto)
    moreover have gp: "fu_heap ?g p = Some ?n" by (simp add: attached_def Let_def)
    ultimately have inv': "nodes_inv ?d {} {} none_due (put_node p (inc_nlookup ?n) ?g)" by (rule inc_nlookup_ok) simp
    have res: "find_node (Some p) memory f parent (Some name) = Some (Some p, put_node p (inc_nlookup ?n) ?g)"
      using run hash False attached_added [OF q1 pq] gp by simp
    have "is_entry (put_node p (inc_nlookup ?n) ?g) parent name p"
      using q pq by (simp add: is_entry_def has_id_def attached_def Let_def)
    moreover have "idle (put_node p (inc_nlookup ?n) ?g)"
      using idle q pq by (auto simp: idle_def attached_def Let_def added_def heap1)
    moreover have "conf_remember (put_node p (inc_nlookup ?n) ?g) = conf_remember f"
      using f1(3) by (simp add: attached_def added_def same_nodes_def hash_id_def Let_def)
    ultimately show ?thesis
      using res inv' False lookup_node_iff [OF inv', of parent name p]
      by (intro exI [of _ "Some p"] exI [of _ "put_node p (inc_nlookup ?n) ?g"] exI [of _ ?d]) (simp add: looked_up_def)
  qed
qed

section \<open>Removing and renaming\<close>

lemma detachedD:
  assumes "detached f p f'" "fu_heap f' x = Some n'"
  obtains n where "fu_heap f x = Some n" "nd_nodeid n' = nd_nodeid n" "nd_treelock n' = nd_treelock n"
    "x = p \<Longrightarrow> nd_parent n' = None \<and> nd_name n' = None"
    "x \<noteq> p \<Longrightarrow> nd_parent n' = nd_parent n \<and> nd_name n' = nd_name n \<and> nd_nlookup n' = nd_nlookup n"
proof -
  obtain n where "fu_heap f x = Some n \<and> nd_nodeid n' = nd_nodeid n \<and> nd_treelock n' = nd_treelock n
      \<and> (if x = p then nd_parent n' = None \<and> nd_name n' = None
         else nd_parent n' = nd_parent n \<and> nd_name n' = nd_name n \<and> nd_nlookup n' = nd_nlookup n)"
    using assms unfolding detached_def by blast
  then show thesis by (intro that [of n]) (auto split: if_splits)
qed

lemma detached_stays:
  assumes det: "detached f p f'" and x: "fu_heap f x = Some n" "nd_nlookup n > 0" "x \<noteq> p"
  obtains n' where "fu_heap f' x = Some n'" "nd_nodeid n' = nd_nodeid n" "nd_parent n' = nd_parent n" "nd_name n' = nd_name n"
    "nd_nlookup n' = nd_nlookup n"
proof -
  obtain n' where n': "fu_heap f' x = Some n'" using det x unfolding detached_def by blast
  show thesis by (rule detachedD [OF det n']) (use x n' that in auto)
qed

lemma detached_lookup:
  assumes inv: "nodes_inv d {} {} none_due f" and inv': "nodes_inv d' {} {} none_due f'" and det: "detached f p f'"
  shows "lookup_node f' dir name = Some x \<longleftrightarrow> lookup_node f dir name = Some x \<and> x \<noteq> p \<and> x \<in> dom (fu_heap f')"
proof -
  have old: "\<exists>n. fu_heap f z = Some n \<and> nd_nodeid n' = nd_nodeid n
      \<and> (if z = p then nd_parent n' = None \<and> nd_name n' = None else nd_parent n' = nd_parent n \<and> nd_name n' = nd_name n)"
    if "fu_heap f' z = Some n'" for z n'
    by (rule detachedD [OF det that]) auto
  have ids: "has_id f' ino z \<longleftrightarrow> has_id f ino z \<and> z \<in> dom (fu_heap f')" for ino z
    using old [of z] by (auto simp: has_id_def split: option.splits)
  have par: "q \<in> dom (fu_heap f')" if "fu_heap f' z = Some n'" "nd_parent n' = Some q" for z n' q
    using parent_exists [OF inv' _ that] by auto
  have "is_entry f' dir name x \<longleftrightarrow> is_entry f dir name x \<and> x \<noteq> p \<and> x \<in> dom (fu_heap f')"
  proof (cases "fu_heap f' x")
    case None
    then show ?thesis by (auto simp: is_entry_def)
  next
    case (Some n')
    obtain n where n: "fu_heap f x = Some n"
      "if x = p then nd_parent n' = None \<and> nd_name n' = None else nd_parent n' = nd_parent n \<and> nd_name n' = nd_name n"
      using old [OF Some] by blast
    then show ?thesis using Some ids par [OF Some] by (cases "nd_parent n'") (auto simp: is_entry_def split: if_splits)
  qed
  then show ?thesis using lookup_node_iff [OF inv] lookup_node_iff [OF inv'] by simp
qed

lemma remove_node_ok:
  assumes inv: "nodes_inv d {} {} none_due f" and idle: "idle f"
    and p: "\<And>p n. lookup_node f dir name = Some p \<Longrightarrow> fu_heap f p = Some n
      \<Longrightarrow> nd_nlookup n > 0 \<and> (conf_remember f \<noteq> 0 \<longrightarrow> nd_nlookup n > 1)"
  shows "\<exists>f'. remove_node f dir name = Some f' \<and> nodes_inv d {} {} none_due f' \<and> idle f' \<and> lookup_node f' dir name = None"
proof (cases "lookup_node f dir name")
  case None
  then show ?thesis using inv idle by (simp add: remove_node_def)
next
  case (Some p)
  have "is_entry f dir name p" using Some lookup_node_iff [OF inv] by simp
  then obtain n where n: "fu_heap f p = Some n" "nd_parent n \<noteq> None" by (auto simp: is_entry_def split: option.splits)
  obtain f' where f': "unlink_node f p = Some f'" "nodes_inv d {} {} none_due f'" "idle f'" "detached f p f'"
    using unlink_node_ok [OF inv idle n] assms(3) [OF Some n(1)] by auto
  have "lookup_node f' dir name \<noteq> Some x" for x
    using detached_lookup [OF inv f'(2,4), of dir name x] Some by simp
  then have "lookup_node f' dir name = None" by (meson not_Some_eq)
  then show ?thesis using f' Some by (simp add: remove_node_def)
qed

text \<open>A node at or below another.\<close>

inductive below :: "fuse \<Rightarrow> ptr \<Rightarrow> ptr \<Rightarrow> bool" for f p where
  here: "below f p p"
| step: "below f p q \<Longrightarrow> fu_heap f x = Some n \<Longrightarrow> nd_parent n = Some q \<Longrightarrow> below f p x"

lemma below_mono:
  assumes "below f' p x" "\<And>x n q. fu_heap f' x = Some n \<Longrightarrow> nd_parent n = Some q \<Longrightarrow> \<exists>n. fu_heap f x = Some n \<and> nd_parent n = Some q"
  shows "below f p x"
  using assms(1)
proof induction
  case (step q x n)
  then show ?case using assms(2) [of x n q] by (blast intro: below.step)
qed (rule below.here)

text \<open>The depth can be chosen so that a directory not below a node without a parent comes before it.\<close>

lemma move_rank:
  assumes inv: "nodes_inv d {} Z e f" and p: "fu_heap f p = Some n" "nd_parent n = None" and q: "\<not> below f p q"
  shows "\<exists>d'. nodes_inv d' {} Z e f \<and> d' q < d' p"
proof -
  let ?d = "\<lambda>x. if below f p x then d x + Suc (d q) else d x"
  have "?d y < ?d x" if x: "fu_heap f x = Some k" "nd_parent k = Some y" for x k y
  proof -
    have "d y < d x" using inv x by (auto simp: nodes_inv_def ranked_def)
    moreover have "below f p x \<longleftrightarrow> below f p y"
    proof
      assume "below f p x"
      then show "below f p y"
      proof cases
        case here
        then show ?thesis using p x by simp
      next
        case (step q' n')
        then show ?thesis using x by simp
      qed
    qed (rule below.step [OF _ x])
    ultimately show ?thesis by simp
  qed
  then have "ranked ?d {} f" by (auto simp: ranked_def)
  moreover have "?d q < ?d p" using q below.here [of f p] by simp
  ultimately show ?thesis using inv unfolding nodes_inv_def by blast
qed

lemma unhash_name_detached:
  assumes inv: "nodes_inv d {} {} none_due f" and p: "fu_heap f p = Some n" "nd_parent n \<noteq> None" "nd_nlookup n > 0" and idle: "idle f"
  shows "\<exists>f'. unhash_name unref_node f p = Some f' \<and> nodes_inv d {} {} none_due f' \<and> idle f' \<and> detached f p f'
    \<and> fu_heap f' p = Some (n\<lparr>nd_name := None, nd_parent := None\<rparr>)"
proof -
  obtain q where q: "nd_parent n = Some q" using p(2) by auto
  obtain g f' where f': "unhash_name unref_node f p = Some f'" "nodes_inv d {} {} none_due f'" "cascade d (d q) f g"
    "fu_heap f' = (fu_heap g)(p := Some (n\<lparr>nd_name := None, nd_parent := None\<rparr>))" "conf_remember f' = conf_remember f"
    using unhash_name_done [OF inv p(1) q idle] by blast
  have "put_node p n f = f" using p(1) by (simp add: put_node_def fun_upd_idem)
  then have "detached f p f'" using detachedI [of d "d q" p n f g n f'] f'(3-5) p(1) by simp
  moreover have "idle f'" using cascade_idle [OF f'(3) idle] p(3) by (auto simp: idle_def f'(4))
  ultimately show ?thesis using f' by auto
qed

text \<open>The first half of a rename: the target, if there is one, and the node itself lose their names.\<close>

lemma rename_takes_out:
  assumes inv: "nodes_inv d {} {} none_due f" and idle: "idle f"
    and p: "lookup_node f olddir oldname = Some p" "fu_heap f p = Some n" "nd_nlookup n > 0"
    and q: "fu_heap f q = Some m" "nd_nodeid m = newdir" "nd_nlookup m > 0" "q \<noteq> p"
    and new: "lookup_node f newdir newname = new" "\<And>t k. new = Some t \<Longrightarrow> fu_heap f t = Some k \<Longrightarrow>
      t \<noteq> p \<and> nd_nlookup k > 0 \<and> (conf_remember f \<noteq> 0 \<longrightarrow> nd_nlookup k > 1)"
  shows "\<exists>f1 f2 n2 m2. (case new of None \<Rightarrow> Some f | Some t \<Rightarrow> unlink_node f t) = Some f1 \<and> unhash_name unref_node f1 p = Some f2
    \<and> nodes_inv d {} {} none_due f2 \<and> idle f2 \<and> fu_heap f2 p = Some n2 \<and> nd_parent n2 = None \<and> nd_name n2 = None
    \<and> nd_nodeid n2 = nd_nodeid n \<and> nd_nlookup n2 > 0 \<and> fu_heap f2 q = Some m2 \<and> nd_nodeid m2 = newdir
    \<and> lookup_node f2 newdir newname = None
    \<and> (\<forall>x k y. fu_heap f2 x = Some k \<longrightarrow> nd_parent k = Some y \<longrightarrow> (\<exists>l. fu_heap f x = Some l \<and> nd_parent l = Some y))"
proof -
  have entry: "nd_parent n \<noteq> None" using p lookup_node_iff [OF inv] by (auto simp: is_entry_def split: option.splits)
  have "\<exists>f1 n1 m1. (case new of None \<Rightarrow> Some f | Some t \<Rightarrow> unlink_node f t) = Some f1 \<and> nodes_inv d {} {} none_due f1 \<and> idle f1
      \<and> fu_heap f1 p = Some n1 \<and> nd_parent n1 = nd_parent n \<and> nd_nodeid n1 = nd_nodeid n \<and> nd_nlookup n1 = nd_nlookup n
      \<and> fu_heap f1 q = Some m1 \<and> nd_nodeid m1 = newdir \<and> nd_nlookup m1 > 0 \<and> lookup_node f1 newdir newname = None
      \<and> (\<forall>x k y. fu_heap f1 x = Some k \<longrightarrow> nd_parent k = Some y \<longrightarrow> (\<exists>l. fu_heap f x = Some l \<and> nd_parent l = Some y))"
  proof (cases new)
    case None
    then show ?thesis using inv idle p q new(1) by auto
  next
    case (Some t)
    have "is_entry f newdir newname t" using Some new(1) lookup_node_iff [OF inv] by simp
    then obtain k s where k: "fu_heap f t = Some k" "nd_parent k = Some s" "has_id f newdir s"
      by (auto simp: is_entry_def split: option.splits)
    have "s = q" using k(3) q id_unique [OF inv] by (auto simp: has_id_def split: option.splits)
    then have qt: "q \<noteq> t" using parent_exists [OF inv _ k(1,2)] by auto
    note known = new(2) [OF Some k(1)]
    obtain f1 where f1: "unlink_node f t = Some f1" "nodes_inv d {} {} none_due f1" "idle f1" "detached f t f1"
      using unlink_node_ok [OF inv idle k(1)] k(2) known by auto
    obtain n1 where n1: "fu_heap f1 p = Some n1" "nd_nodeid n1 = nd_nodeid n" "nd_parent n1 = nd_parent n" "nd_nlookup n1 = nd_nlookup n"
      using detached_stays [OF f1(4) p(2,3)] known by metis
    obtain m1 where m1: "fu_heap f1 q = Some m1" "nd_nodeid m1 = nd_nodeid m" "nd_nlookup m1 = nd_nlookup m"
      using detached_stays [OF f1(4) q(1,3) qt] by metis
    have "lookup_node f1 newdir newname \<noteq> Some x" for x
      using detached_lookup [OF inv f1(2,4), of newdir newname x] Some new(1) by simp
    then have "lookup_node f1 newdir newname = None" by (meson not_Some_eq)
    moreover have "\<exists>l. fu_heap f x = Some l \<and> nd_parent l = Some y" if "fu_heap f1 x = Some k" "nd_parent k = Some y" for x k y
      by (rule detachedD [OF f1(4) that(1)]) (use that(2) in \<open>cases "x = t"; auto\<close>)
    ultimately show ?thesis using Some f1 n1 m1 q by simp
  qed
  then obtain f1 n1 m1 where f1: "(case new of None \<Rightarrow> Some f | Some t \<Rightarrow> unlink_node f t) = Some f1" "nodes_inv d {} {} none_due f1"
    "idle f1" "fu_heap f1 p = Some n1" "nd_parent n1 = nd_parent n" "nd_nodeid n1 = nd_nodeid n" "nd_nlookup n1 = nd_nlookup n"
    "fu_heap f1 q = Some m1" "nd_nodeid m1 = newdir" "nd_nlookup m1 > 0" "lookup_node f1 newdir newname = None"
    "\<And>x k y. fu_heap f1 x = Some k \<Longrightarrow> nd_parent k = Some y \<Longrightarrow> \<exists>l. fu_heap f x = Some l \<and> nd_parent l = Some y"
    by blast
  obtain f2 where f2: "unhash_name unref_node f1 p = Some f2" "nodes_inv d {} {} none_due f2" "idle f2" "detached f1 p f2"
    "fu_heap f2 p = Some (n1\<lparr>nd_name := None, nd_parent := None\<rparr>)"
    using unhash_name_detached [OF f1(2,4) _ _ f1(3)] entry p(3) f1(5,7) by auto
  obtain m2 where m2: "fu_heap f2 q = Some m2" "nd_nodeid m2 = nd_nodeid m1"
    using detached_stays [OF f2(4) f1(8,10) q(4)] by metis
  have "lookup_node f2 newdir newname \<noteq> Some x" for x
    using detached_lookup [OF f1(2) f2(2,4), of newdir newname x] f1(11) by simp
  then have none: "lookup_node f2 newdir newname = None" by (meson not_Some_eq)
  have up: "\<exists>l. fu_heap f x = Some l \<and> nd_parent l = Some y" if k: "fu_heap f2 x = Some k" "nd_parent k = Some y" for x k y
    by (rule detachedD [OF f2(4) k(1)]) (use k(2) f1(12) [of x _ y] in \<open>cases "x = p"; auto\<close>)
  show ?thesis
    by (rule exI [of _ f1], rule exI [of _ f2], rule exI [of _ "n1\<lparr>nd_name := None, nd_parent := None\<rparr>"], rule exI [of _ m2])
      (use f1(1,6,7,9) f2 m2 none up p(3) in \<open>auto\<close>)
qed

text \<open>The kernel's side of a rename: it has looked up everything, and does not move a directory into itself.\<close>

definition may_rename :: "fuse \<Rightarrow> u64 \<Rightarrow> string \<Rightarrow> u64 \<Rightarrow> string \<Rightarrow> bool" where
  "may_rename f olddir oldname newdir newname \<longleftrightarrow>
     (\<forall>p. lookup_node f olddir oldname = Some p \<longrightarrow>
        (\<exists>n. fu_heap f p = Some n \<and> nd_nlookup n > 0)
        \<and> (\<exists>q m. fu_heap f q = Some m \<and> nd_nodeid m = newdir \<and> nd_nlookup m > 0 \<and> \<not> below f p q)
        \<and> (\<forall>t k. lookup_node f newdir newname = Some t \<longrightarrow> fu_heap f t = Some k \<longrightarrow>
             t \<noteq> p \<and> nd_nlookup k > 0 \<and> (conf_remember f \<noteq> 0 \<longrightarrow> nd_nlookup k > 1)))"

lemma rename_node_ok:
  assumes inv: "nodes_inv d {} {} none_due f" and idle: "idle f" and may: "may_rename f olddir oldname newdir newname"
  shows "\<exists>err f' d'. rename_node memory f olddir oldname newdir newname hide = Some (err, f') \<and> nodes_inv d' {} {} none_due f'
    \<and> idle f' \<and> (err = 0 \<longrightarrow> lookup_node f olddir oldname \<noteq> None
        \<longrightarrow> lookup_node f' newdir newname = lookup_node f olddir oldname)"
proof (cases "lookup_node f olddir oldname")
  case None
  then show ?thesis using inv idle by (auto simp: rename_node_def)
next
  case (Some p)
  obtain n where n: "fu_heap f p = Some n" "nd_nlookup n > 0" using may Some by (auto simp: may_rename_def)
  obtain q m where q: "fu_heap f q = Some m" "nd_nodeid m = newdir" "nd_nlookup m > 0" "\<not> below f p q"
    using may Some by (auto simp: may_rename_def)
  have qp: "q \<noteq> p" using q(4) below.here by auto
  let ?new = "lookup_node f newdir newname"
  show ?thesis
  proof (cases "?new \<noteq> None \<and> hide")
    case True
    then show ?thesis using Some inv idle by (auto simp: rename_node_def)
  next
    case False
    have tgt: "t \<noteq> p \<and> nd_nlookup k > 0 \<and> (conf_remember f \<noteq> 0 \<longrightarrow> nd_nlookup k > 1)"
      if "?new = Some t" "fu_heap f t = Some k" for t k using may Some that by (simp add: may_rename_def)
    obtain f1 f2 n2 m2 where f2: "(case ?new of None \<Rightarrow> Some f | Some t \<Rightarrow> unlink_node f t) = Some f1"
      "unhash_name unref_node f1 p = Some f2" "nodes_inv d {} {} none_due f2" "idle f2" "fu_heap f2 p = Some n2"
      "nd_parent n2 = None" "nd_name n2 = None" "nd_nodeid n2 = nd_nodeid n" "nd_nlookup n2 > 0" "fu_heap f2 q = Some m2"
      "nd_nodeid m2 = newdir" "lookup_node f2 newdir newname = None"
      "\<forall>x k y. fu_heap f2 x = Some k \<longrightarrow> nd_parent k = Some y \<longrightarrow> (\<exists>l. fu_heap f x = Some l \<and> nd_parent l = Some y)"
      using rename_takes_out [OF inv idle Some n q(1-3) qp refl tgt] by blast
    have run: "rename_node memory f olddir oldname newdir newname hide =
        do { (err, f) \<leftarrow> hash_name memory f2 p newdir newname;
             if err = - 1 then Some (- ENOMEM, f)
             else do { node \<leftarrow> fu_heap f p; Some (0, if hide then put_node p (node\<lparr>nd_is_hidden := True\<rparr>) f else f) } }"
      using Some False f2(1,2) by (auto simp: rename_node_def split: option.splits)
    have get: "get_node f2 newdir = Some q" using get_node_iff [OF f2(3)] f2(10,11) by (simp add: has_id_def)
    note hash = hash_name_eq [OF get f2(5,10) qp [symmetric], of memory newname]
    show ?thesis
    proof (cases "32 \<le> length newname \<and> \<not> memory")
      case True
      let ?f = "put_node p (n2\<lparr>nd_name := None\<rparr>) f2"
      have "nodes_inv d {} {} none_due ?f"
        by (rule nodes_inv_flags [OF f2(3,5)]) (simp_all add: same_links_def f2(7))
      moreover have "idle ?f" by (rule idle_put [OF f2(4)]) (use f2(9) in simp)
      ultimately show ?thesis using run hash True by auto
    next
      case False
      have "\<not> below f2 p q" using below_mono [of f2 p q f] q(4) f2(13) by blast
      then obtain d' where d': "nodes_inv d' {} {} none_due f2" "d' q < d' p" using move_rank [OF f2(3,5,6)] by blast
      have root: "nd_nodeid n2 \<noteq> FUSE_ROOT_ID"
      proof -
        have "nd_parent n \<noteq> None" using Some n lookup_node_iff [OF inv] by (auto simp: is_entry_def split: option.splits)
        moreover have "node_ok f n" using inv n by (auto simp: nodes_inv_def tree_ok_def)
        ultimately show ?thesis using f2(8) by (auto simp: node_ok_def)
      qed
      let ?g = "attached memory p n2 q m2 newname f2" and ?n = "n2\<lparr>nd_name := Some newname, nd_parent := Some q\<rparr>"
      have inv3: "nodes_inv d' {} {} none_due ?g"
      proof (rule attached_ok [OF d'(1) f2(5,6) root f2(10) qp _ d'(2)])
        show "nd_name k \<noteq> Some newname" if "fu_heap f2 x = Some k" "nd_parent k = Some q" for x k
          using f2(12) lookup_node_iff [OF f2(3), of newdir newname x] that f2(10,11) by (auto simp: is_entry_def has_id_def)
      qed simp
      have heap3: "fu_heap ?g p = Some ?n" by (simp add: attached_def Let_def)
      let ?f = "if hide then put_node p (?n\<lparr>nd_is_hidden := True\<rparr>) ?g else ?g"
      have inv4: "nodes_inv d' {} {} none_due ?f"
        using inv3 nodes_inv_flags [OF inv3 heap3, of "?n\<lparr>nd_is_hidden := True\<rparr>"] by (simp add: same_links_def)
      have "idle ?g" using f2(4,9,10) qp by (auto simp: idle_def attached_def Let_def)
      then have idle4: "idle ?f" using idle_put [of ?g "?n\<lparr>nd_is_hidden := True\<rparr>" p] f2(9) by simp
      have "is_entry ?f newdir newname p"
        using f2(11) qp by (simp add: is_entry_def has_id_def attached_def Let_def)
      then have "lookup_node ?f newdir newname = Some p" using lookup_node_iff [OF inv4] by simp
      then show ?thesis using run hash False heap3 inv4 idle4 Some
        by (intro exI [of _ 0] exI [of _ ?f] exI [of _ d']) simp
    qed
  qed
qed

end
