(* ===== verification/Node_Requests.thy ===== *)
theory Node_Requests
  imports Node_Ops
begin

text \<open>
  Sequences of requests on the nodes, from the start of a session. What the kernel and the allocator choose is part of a
  request: the pointer of a new node, whether other memory can be had, the time. \<open>kernel_may\<close> is the kernel's side of the
  protocol: it names only directories it has looked up, forgets no more lookups than it made and no node with a request
  in progress, looks up what it removes or renames, and does not move a directory into itself.
\<close>

datatype node_request =
    Lookup u64 string "ptr option" bool
  | Forget u64 nat timespec
  | Remove u64 string
  | Rename u64 string u64 string bool bool

fun run_request :: "node_request \<Rightarrow> fuse \<Rightarrow> fuse option" where
  "run_request (Lookup parent name alloc memory) f = map_option snd (find_node alloc memory f parent (Some name))"
| "run_request (Forget nodeid nlookup now) f = map_option snd (forget_node now f nodeid nlookup)"
| "run_request (Remove dir name) f = remove_node f dir name"
| "run_request (Rename olddir oldname newdir newname hide memory) f =
     map_option snd (rename_node memory f olddir oldname newdir newname hide)"

definition known :: "fuse \<Rightarrow> u64 \<Rightarrow> bool" where
  "known f ino \<longleftrightarrow> (\<exists>p n. fu_heap f p = Some n \<and> nd_nodeid n = ino \<and> nd_nlookup n > 0)"

fun kernel_may :: "node_request \<Rightarrow> fuse \<Rightarrow> bool" where
  "kernel_may (Lookup parent name alloc memory) f \<longleftrightarrow>
     known f parent \<and> (\<forall>p. alloc = Some p \<longrightarrow> p \<notin> dom (fu_heap f)) \<and> card (dom (fu_heap f)) < 2 ^ 32 - 2"
| "kernel_may (Forget nodeid nlookup now) f \<longleftrightarrow>
     (nodeid \<noteq> FUSE_ROOT_ID \<longrightarrow>
        (\<exists>p n. fu_heap f p = Some n \<and> nd_nodeid n = nodeid \<and> 0 < nlookup \<and> nlookup \<le> nd_nlookup n \<and> nd_treelock n = 0))"
| "kernel_may (Remove dir name) f \<longleftrightarrow>
     (\<forall>p n. lookup_node f dir name = Some p \<longrightarrow> fu_heap f p = Some n \<longrightarrow>
        nd_nlookup n > 0 \<and> (conf_remember f \<noteq> 0 \<longrightarrow> nd_nlookup n > 1))"
| "kernel_may (Rename olddir oldname newdir newname hide memory) f \<longleftrightarrow> may_rename f olddir oldname newdir newname"

fun run_requests :: "node_request list \<Rightarrow> fuse \<Rightarrow> fuse option" where
  "run_requests [] f = Some f"
| "run_requests (r # rs) f = Option.bind (run_request r f) (run_requests rs)"

fun kernel_keeps :: "node_request list \<Rightarrow> fuse \<Rightarrow> bool" where
  "kernel_keeps [] f \<longleftrightarrow> True"
| "kernel_keeps (r # rs) f \<longleftrightarrow> kernel_may r f \<and> (\<forall>f'. run_request r f = Some f' \<longrightarrow> kernel_keeps rs f')"

definition nodes_good :: "fuse \<Rightarrow> bool" where
  "nodes_good f \<longleftrightarrow> (\<exists>d. nodes_inv d {} {} none_due f) \<and> idle f"

lemma nodes_goodI: "nodes_inv d {} {} none_due f \<Longrightarrow> idle f \<Longrightarrow> nodes_good f"
  by (auto simp: nodes_good_def)

text \<open>Every request the kernel may make is served, and leaves the nodes in order.\<close>

lemma run_request_good:
  assumes "nodes_good f" "kernel_may r f"
  shows "\<exists>f'. run_request r f = Some f' \<and> nodes_good f'"
proof -
  obtain d where inv: "nodes_inv d {} {} none_due f" and idle: "idle f" using assms(1) by (auto simp: nodes_good_def)
  show ?thesis
  proof (cases r)
    case (Lookup parent name alloc memory)
    obtain q m where q: "fu_heap f q = Some m" "nd_nodeid m = parent" using assms(2) Lookup by (auto simp: known_def)
    show ?thesis
    proof (cases "lookup_node f parent name")
      case None
      show ?thesis
      proof (cases alloc)
        case no: None
        then have "find_node alloc memory f parent (Some name) = Some (None, f)" using None by (simp add: find_node_def)
        then show ?thesis using assms(1) Lookup by simp
      next
        case (Some p)
        have "p \<notin> dom (fu_heap f)" "card (dom (fu_heap f)) < 2 ^ 32 - 2" using assms(2) Lookup Some by simp_all
        from find_node_new [OF inv idle None q this, of memory] show ?thesis using Lookup Some by (auto intro: nodes_goodI)
      qed
    next
      case (Some p)
      from find_node_old [OF inv idle Some, of alloc memory] show ?thesis using Lookup by (auto intro: nodes_goodI)
    qed
  next
    case (Forget nodeid nlookup now)
    show ?thesis
    proof (cases "nodeid = FUSE_ROOT_ID")
      case True
      then show ?thesis using Forget assms(1) by (simp add: forget_node_def)
    next
      case False
      then obtain p n where n: "fu_heap f p = Some n" "nd_nodeid n = nodeid" "0 < nlookup" "nlookup \<le> nd_nlookup n" "nd_treelock n = 0"
        using assms(2) Forget by auto
      from forget_node_ok [OF inv idle n(1) _ n(3,4), of now] show ?thesis
        using n False Forget by (auto intro: nodes_goodI)
    qed
  next
    case (Remove dir name)
    have "\<exists>f'. remove_node f dir name = Some f' \<and> nodes_inv d {} {} none_due f' \<and> idle f' \<and> lookup_node f' dir name = None"
      by (rule remove_node_ok [OF inv idle]) (use assms(2) Remove in simp)
    then show ?thesis using Remove by (auto intro: nodes_goodI)
  next
    case (Rename olddir oldname newdir newname hide memory)
    then have "may_rename f olddir oldname newdir newname" using assms(2) by simp
    from rename_node_ok [OF inv idle this, of memory hide] show ?thesis using Rename by (auto intro: nodes_goodI)
  qed
qed

lemma run_requests_good:
  assumes "nodes_good f" "kernel_keeps rs f"
  shows "\<exists>f'. run_requests rs f = Some f' \<and> nodes_good f'"
  using assms
proof (induction rs arbitrary: f)
  case (Cons r rs)
  obtain f' where "run_request r f = Some f'" "nodes_good f'" using run_request_good [OF Cons.prems(1)] Cons.prems(2) by auto
  then show ?case using Cons.IH [of f'] Cons.prems(2) by simp
qed simp

lemma fuse_new_nodes_good: "nodes_good (fuse_new_nodes p rem memory)"
proof -
  let ?f = "fuse_new_nodes p rem memory"
  let ?g = "\<lparr>fu_heap = (\<lambda>_. None)(p := Some root_node), name_table = node_table_init, id_table = node_table_init,
    lru_table = [], fu_ctr = 0, fu_generation = 0, conf_remember = rem\<rparr>"
  have heap: "fu_heap ?f = (\<lambda>_. None)(p := Some root_node)" by (simp add: fuse_new_nodes_def hash_id_def)
  have tabs: "name_table ?f = node_table_init" "id_table ?f = table_hash_in memory (id_hv ?g) p node_table_init"
    by (simp_all add: fuse_new_nodes_def hash_id_def)
  have root: "nd_parent root_node = None" "nd_nodeid root_node = FUSE_ROOT_ID" "nd_nlookup root_node = 1" "nd_refctr root_node = 1"
    by (simp_all add: root_node_def zero_node_def)
  have hv: "id_hv ?f = id_hv ?g" by (rule hv_cong) (simp add: heap)
  have sets: "entries {} ?f = {}" "kids {} ?f x = {}" for x using root by (auto simp: entries_def kids_def heap)
  have "tables_ok {} ?f"
    using table_hash_in_ok [where h = "id_hv ?g" and memory = memory and x = p, OF node_table_init_ok(1)]
    by (simp add: tables_ok_def tabs hv sets heap node_table_init_ok)
  moreover have "tree_ok {} ?f" using root by (auto simp: tree_ok_def heap node_ok_def)
  moreover have "root_ok ?f" using root by (auto simp: root_ok_def heap)
  moreover have "counts_ok {} {} none_due ?f" using root by (auto simp: counts_ok_def count_ok_def heap sets)
  moreover have "ranked (\<lambda>_. 0) {} ?f" using root by (auto simp: ranked_def heap)
  ultimately have "nodes_inv (\<lambda>_. 0) {} {} none_due ?f" by (simp add: nodes_inv_def)
  then show ?thesis using root by (auto simp: nodes_good_def idle_def heap)
qed



end
