(* ===== verification/Spec2Isabelle.thy ===== *)
theory Spec2Isabelle
  imports Renames Options Khash Buffer Posix_Locks Node_Requests
begin

text \<open>
  A verification development of mergerfs, a union file system in user space. File and function names below are those of
  the repository; \<^verbatim>\<open>src/\<close> is the file system, \<^verbatim>\<open>libfuse/\<close> the copy of libfuse it is built with.

  \<^bold>\<open>The program.\<close> A mount joins several branches, directories of other file systems, into one tree. The kernel sends
  requests, libfuse calls a handler for each (\<^verbatim>\<open>FUSE::getattr\<close>, \<^verbatim>\<open>FUSE::rename\<close>, ...) and the handler makes the system calls
  on the branches. Which branches those are is decided by policies: each handler function has a policy of one of three
  categories, action, create and search. A handler takes the identity of the caller, asks its policy, makes its calls on
  each branch chosen and merges the results. Before something is created on a branch the directories leading to it are
  cloned there from another branch. Settings come from the mount options and can be read and written while mounted, as
  extended attributes of a control file.

  \<^bold>\<open>How it is modelled.\<close> The code is translated function by function into HOL functions on an explicit state. The record
  \<open>sys\<close> holds the state of the program (\<^verbatim>\<open>errno\<close>, the \<^verbatim>\<open>statvfs\<close> cache, the identity of the thread, the cache of groups)
  and an opaque kernel state. The record \<open>os\<close> holds the system calls and the functions of the C library that depend on
  the system: each maps a kernel state to a result, or an error number, and a new kernel state. The record is a parameter
  of every definition that makes calls, so the theorems hold for every kernel. Where a theorem relies on what a call does,
  this is a named hypothesis, and the theorem's example instantiates it by a small concrete system (\<open>Sample\<close>). The
  configuration is the record \<open>Config\<close>. Machine integers have their width wherever it matters. The result \<open>None\<close> of a
  definition that models a whole call stands for undefined behaviour, a failed assertion or a loop that never ends, and
  the theorems prove that it does not occur.

  \<^bold>\<open>The theories.\<close>

  \<^item> \<open>Prelude\<close>, \<open>Machine\<close>, \<open>Sample\<close>: numbers, error codes and loops; the state, the kernel and the wrappers of \<^verbatim>\<open>fs_base_*.hpp\<close>,
    with the notions \<open>keeps\<close> (an operation leaves part of the program's state alone) and \<open>holds\<close> (it preserves an
    invariant of the kernel state) that carry the proofs about handlers; the example system.
  \<^item> \<open>Str_Util\<close>, \<open>Path_Util\<close>, \<open>Numbers\<close>: \<^verbatim>\<open>str.cpp\<close>, \<^verbatim>\<open>fs_path.cpp\<close>, \<^verbatim>\<open>num.cpp\<close>.
  \<^item> \<open>Branches\<close>, \<open>Statvfs_Cache\<close>: \<^verbatim>\<open>branch.cpp\<close>; \<^verbatim>\<open>fs_statvfs_cache.cpp\<close>, \<^verbatim>\<open>fs_info.cpp\<close>, \<^verbatim>\<open>statvfs_util.hpp\<close>, \<^verbatim>\<open>fs_exists.hpp\<close>.
  \<^item> \<open>Policy_Base\<close>, \<open>Policies\<close>: the tables of \<^verbatim>\<open>category.cpp\<close>, \<^verbatim>\<open>policy.cpp\<close>, \<^verbatim>\<open>fusefunc.cpp\<close> and the policies of \<^verbatim>\<open>policy_*.cpp\<close>, loop
    by loop. \<open>Policy_Loops\<close> has the locales \<open>observer\<close> and \<open>ranking\<close>, which give the result of a loop that collects, takes the
    first or takes the best qualifying branch; \<open>Policy_Queries\<close> and \<open>Policy_Facts\<close> interpret them on the loops of the code;
    \<open>Policy_Results\<close> states what each policy selects as it is written; \<open>Policy_Theorems\<close> compares that with what the
    documentation promises (\<open>promised\<close>, \<open>reasons\<close>) and derives the properties the callers rely on.
  \<^item> \<open>Ugid\<close>: \<^verbatim>\<open>ugid_linux.hpp\<close> and \<^verbatim>\<open>gidcache.cpp\<close>, the identity of the thread and the sorted cache of groups, with the laws of
    the credentials in the kernel (\<open>cred_laws\<close>).
  \<^item> \<open>Metadata\<close>, \<open>Clonepath\<close>, \<open>Clonepath_Props\<close>: \<^verbatim>\<open>fs_xattr.cpp\<close>, \<^verbatim>\<open>fs_attr_linux.icpp\<close>, \<^verbatim>\<open>fs_acl.cpp\<close>; \<^verbatim>\<open>fs_clonepath.cpp\<close> and what it
    achieves.
  \<^item> \<open>Policy_Cache\<close>, \<open>Config\<close>: \<^verbatim>\<open>policy_cache.cpp\<close>, \<^verbatim>\<open>config.cpp\<close>.
  \<^item> \<open>Actions\<close>, \<open>Creates\<close>, \<open>Renames\<close>, \<open>Searches\<close>, \<open>File_Handles\<close>, \<open>Directory\<close>, \<open>Statfs\<close>, \<open>Control_File\<close>: the handlers \<^verbatim>\<open>fuse_*.cpp\<close>. The
    locales \<open>branch_op\<close> and \<open>plain_op\<close> are the contract of a handler that makes one call on every branch chosen.
  \<^item> \<open>File_Copy\<close>, \<open>Movefile\<close>: \<^verbatim>\<open>fs_copyfile.cpp\<close>, \<^verbatim>\<open>fs_clonefile.cpp\<close>, \<^verbatim>\<open>fs_mktemp.cpp\<close>, \<^verbatim>\<open>fs_cow.cpp\<close>; \<^verbatim>\<open>fs.cpp\<close>, \<^verbatim>\<open>fs_movefile.cpp\<close> and
    the write handlers, which move a file to another branch when its own is full.
  \<^item> \<open>Khash\<close>: \<^verbatim>\<open>khash.h\<close> and \<^verbatim>\<open>hashset.hpp\<close>, the hash table behind a directory listing. Its locale \<open>name_set\<close> is what the listing
    needs of a set, interpreted on the table.
  \<^item> \<open>Fuse_Opt\<close>, \<open>Options\<close>: \<^verbatim>\<open>lib/fuse_opt.c\<close>; \<^verbatim>\<open>option_parser.cpp\<close>, \<^verbatim>\<open>resources.cpp\<close>.
  \<^item> \<open>Buffer\<close>, \<open>Posix_Locks\<close>: \<^verbatim>\<open>lib/buffer.c\<close>; the record locks of \<^verbatim>\<open>lib/fuse.c\<close>.
  \<^item> \<open>Node_Table\<close>, \<open>Nodes\<close>: the two linear hashing tables of \<^verbatim>\<open>lib/fuse.c\<close>, written once, and the nodes they hold, with
    \<^verbatim>\<open>find_node\<close>, \<^verbatim>\<open>forget_node\<close>, \<^verbatim>\<open>remove_node\<close>, \<^verbatim>\<open>rename_node\<close> and what they call. The nodes are a heap of records
    indexed by pointers. \<open>Node_Counts\<close> has the invariant of tables, tree and reference counters and how dropping a
    reference keeps it, \<open>Node_Ops\<close> that every operation keeps it, \<open>Node_Requests\<close> the sequences of requests.

  \<^bold>\<open>What is shown.\<close> Policies: each selects the branches it is documented to select, for every category but the search of
  \<^verbatim>\<open>lus\<close> and \<^verbatim>\<open>eplus\<close>, which finds nothing; a branch its category excludes is never selected; a create policy fails
  exactly when no branch qualifies. Handlers: the action and create handlers implement one contract each; seven action
  handlers spare a branch tagged read-only; a failing rename destroys nothing; created files are on branches open to
  creation; the listing of a directory is the union of its branches; the figures of the pool count every device once.
  Identity: under the laws of the credentials a thread gets the effective ids it asks for, becoming root is undone, the
  groups of a new user are installed, and the group cache stays sorted. Copying: the copy loop ends and copies everything,
  a failed move keeps the source. Settings: mount options and control file agree on ten settings, and what the control
  file shows for them can be written back; setting the policy of a function or a category changes exactly its entries.
  Libraries: the hash table is a set, the option list is read back as it was written, buffered writes store what they
  report, record locks have the effect of the request on exactly its range, and the node tables and reference counters
  stay right over every sequence of requests the kernel may make. Lemmas next to the properties show where the code
  departs from what it means or documents: \<open>lus_search_never_finds\<close>, \<open>create_failure_reports_erofs\<close>,
  \<open>ugid_Set_keeps_group\<close>, \<open>many_groups_reduced_to_one\<close>, \<open>unknown_user_inherits_groups\<close>, \<open>ignored_unlike_documented\<close>,
  \<open>xattr_setting_ignored\<close>, \<open>nullrw_setting_refused\<close> and others.

  \<^bold>\<open>Loops and bounds.\<close> Loops over data are recursions on it. Loops whose end depends on the kernel are
  \<open>partial_function (option)\<close> or \<open>function\<close> definitions: for the first, returning is proved from a hypothesis
  on the kernel (writes make progress, limits are bounded). The probing loops of the hash table end because a slot is
  always free. Fuel is used in one place: the loop of \<^verbatim>\<open>fs_xattr.cpp\<close> that reads an attribute again while its value grows
  (\<open>xattr_loop\<close>) is given eight rounds where the code has no bound. One is enough on a kernel that takes a buffer of the
  length it just reported (\<open>xattr_loop_first_round\<close>), and the number makes no difference to the result
  (\<open>xattr_loop_fuel\<close>); on a kernel that never does, the code does not return and the model reports the error.

  \<^bold>\<open>Not modelled.\<close> Threads: handlers are atomic, mutexes and reader-writer locks are left out. The protocol with the
  kernel (\<^verbatim>\<open>lib/fuse_lowlevel.c\<close>, sessions, channels, worker loops), mounting (\<^verbatim>\<open>lib/mount*.c\<close>, \<^verbatim>\<open>util/fusermount.c\<close>), the
  lock manager and character devices (\<^verbatim>\<open>lib/ulockmgr.c\<close>, \<^verbatim>\<open>lib/cuse_lowlevel.c\<close>) are input and output on a device, processes and signals. Of
  \<^verbatim>\<open>lib/fuse.c\<close>, the aging of remembered nodes (\<^verbatim>\<open>fuse_clean_cache\<close>), the threads that wait for a path and the decoding of
  requests are left out. The option processor of \<^verbatim>\<open>lib/fuse_opt.c\<close> is always given, as mergerfs gives one. Inode numbers have
  eight bytes. The variants for other
  platforms (\<^verbatim>\<open>*_osx\<close>, \<^verbatim>\<open>*_unsupported\<close>, \<^verbatim>\<open>ugid_rwlock\<close>, \<^verbatim>\<open>fs_base_utime_generic.hpp\<close>) are not part of a Linux build. Floating
  point conversions are parameters.
\<close>

end
